(* ===== verification/Prelude.thy ===== *)
theory Prelude
  imports Main "HOL-Library.AList" "HOL-Library.Code_Target_Numeral"
begin

text \<open>
  Shared vocabulary of the development: Go strings as byte lists, Go maps as association lists
  with distinct keys, the runtime's unspecified map iteration order, and the two generic
  interfaces (\<open>codec\<close>, \<open>transition_inv\<close>) that the components instantiate.
\<close>

named_theorems map_laws \<open>lookup laws of the Go map operations\<close>
named_theorems frame_laws \<open>fields an operation leaves unchanged\<close>
named_theorems result_iff \<open>when a sequence of fallible steps succeeds\<close>

subsection \<open>Strings and results\<close>

text \<open>
  A Go \<open>string\<close> and a \<open>[]byte\<close> are both sequences of bytes; HOL's \<^typ>\<open>char\<close> is an
  8-bit byte, so both are \<^typ>\<open>string\<close>. An \<open>error\<close> value is kept as its message.
\<close>

type_synonym bytes = string
type_synonym goerror = string

lemma sequence_Inr_iff [result_iff]:
  "(case x of Inl e \<Rightarrow> Inl e | Inr a \<Rightarrow> f a) = Inr b \<longleftrightarrow> (\<exists>a. x = Inr a \<and> f a = Inr b)"
  by (cases x) simp_all

lemma guard_Inr_iff [result_iff]: "(if ok then Inr a else Inl e) = Inr b \<longleftrightarrow> ok \<and> a = b"
  by simp

subsection \<open>Go maps\<close>

text \<open>
  A Go map is an association list with distinct keys: lookup is \<^const>\<open>map_of\<close>, assignment
  \<open>mset\<close> replaces in place or appends, the built-in \<open>delete\<close> is \<open>mdel\<close> and \<open>len\<close>
  is the list's length. \<open>mkeys\<close> are the keys a \<open>range\<close> loop visits.
\<close>

type_synonym ('k, 'v) gomap = "('k \<times> 'v) list"

abbreviation mget :: "('k, 'v) gomap \<Rightarrow> 'k \<Rightarrow> 'v option" where
  "mget m k \<equiv> map_of m k"

definition mset_key :: "'k \<Rightarrow> 'v \<Rightarrow> ('k, 'v) gomap \<Rightarrow> ('k, 'v) gomap" where
  "mset_key k v m = AList.update k v m"

definition mdel :: "'k \<Rightarrow> ('k, 'v) gomap \<Rightarrow> ('k, 'v) gomap" where
  "mdel k m = AList.delete k m"

definition mkeys :: "('k, 'v) gomap \<Rightarrow> 'k list" where
  "mkeys m = map fst m"

definition mwf :: "('k, 'v) gomap \<Rightarrow> bool" where
  "mwf m = distinct (mkeys m)"

lemma mget_mset_key [simp, map_laws]: "mget (mset_key k v m) k' = (if k' = k then Some v else mget m k')"
  by (simp add: mset_key_def update_conv')

lemma mget_mdel [simp, map_laws]: "mget (mdel k m) k' = (if k' = k then None else mget m k')"
  by (simp add: mdel_def delete_conv')

lemma mset_key_simps [simp]:
  "mset_key k v [] = [(k, v)]"
  "mset_key k v (p # ps) = (if fst p = k then (k, v) # ps else p # mset_key k v ps)"
  by (simp_all add: mset_key_def)

lemma mdel_simps [simp]:
  "mdel k [] = []"
  "mdel k (p # ps) = (if fst p = k then mdel k ps else p # mdel k ps)"
  by (auto simp: mdel_def)

lemma mkeys_simps [simp]: "mkeys [] = []" "mkeys (p # ps) = fst p # mkeys ps"
  by (simp_all add: mkeys_def)

lemma set_mkeys: "set (mkeys m) = dom (map_of m)"
  by (simp add: mkeys_def dom_map_of_conv_image_fst)

lemma mkeys_mset_key:
  "mkeys (mset_key k v m) = (if k \<in> set (mkeys m) then mkeys m else mkeys m @ [k])"
  by (simp add: mkeys_def mset_key_def update_keys)

lemma mkeys_mdel: "mkeys (mdel k m) = removeAll k (mkeys m)"
  by (simp add: mkeys_def mdel_def delete_keys)

lemma mwf_Nil [simp]: "mwf []"
  by (simp add: mwf_def)

lemma mwf_mset_key [simp, intro]: "mwf m \<Longrightarrow> mwf (mset_key k v m)"
  by (simp add: mwf_def mkeys_mset_key)

lemma mwf_mdel [simp, intro]: "mwf m \<Longrightarrow> mwf (mdel k m)"
  by (simp add: mwf_def mkeys_mdel distinct_removeAll)

lemma mset_key_not_Nil [simp]: "mset_key k v m \<noteq> []"
  by (simp add: mset_key_def)

lemma length_mset_key:
  "length (mset_key k v m) = (if mget m k = None then Suc (length m) else length m)"
  by (induction m) (auto simp: map_of_eq_None_iff)

lemma length_mdel:
  "mwf m \<Longrightarrow> length (mdel k m) = (if mget m k = None then length m else length m - 1)"
proof (induction m)
  case Nil
  then show ?case by simp
next
  case (Cons p m)
  from Cons.prems have wf: "mwf m" and new: "fst p \<notin> set (mkeys m)"
    by (auto simp: mwf_def)
  show ?case
  proof (cases "fst p = k")
    case True
    with new have "mget m k = None" by (simp add: set_mkeys domIff)
    with True Cons.IH [OF wf] show ?thesis by (cases p) simp
  next
    case False
    have "0 < length m" if "mget m k = Some v" for v using that by (cases m) auto
    with False Cons.IH [OF wf] show ?thesis by (cases p) auto
  qed
qed

lemma length_mdel_le: "length (mdel k m) \<le> length m"
  by (induction m) auto

lemma mget_eq_Nil: "m = [] \<longleftrightarrow> (\<forall>k. mget m k = None)"
  by (cases m) (auto split: if_splits)

lemma mget_in_set: "mget m k = Some v \<Longrightarrow> (k, v) \<in> set m"
  by (rule map_of_SomeD)

lemma mwf_mget_iff: "mwf m \<Longrightarrow> mget m k = Some v \<longleftrightarrow> (k, v) \<in> set m"
  by (simp add: mwf_def mkeys_def map_of_eq_Some_iff)

subsection \<open>Iteration order\<close>

text \<open>
  The order of a \<open>range\<close> over a map is unspecified. \<open>range_order pick ks\<close> is any
  permutation of the keys \<open>ks\<close>: an oracle \<open>pick\<close> whose answer is not a permutation of
  them is read as the keys themselves, so no hypothesis on the oracle is needed.
\<close>

definition range_order :: "('k list \<Rightarrow> 'k list) \<Rightarrow> 'k list \<Rightarrow> 'k list" where
  "range_order pick ks = (let p = pick ks in if distinct p \<and> set p = set ks then p else ks)"

lemma set_range_order [simp]: "set (range_order pick ks) = set ks"
  by (simp add: range_order_def Let_def)

lemma distinct_range_order [simp]: "distinct ks \<Longrightarrow> distinct (range_order pick ks)"
  by (simp add: range_order_def Let_def)

lemma map_filter_total:
  "(\<And>k. k \<in> set ks \<Longrightarrow> f k = Some (g k)) \<Longrightarrow> List.map_filter f ks = map g ks"
  by (induction ks) (simp_all add: List.map_filter_simps)

subsection \<open>Generic interfaces\<close>

text \<open>An encoder and a decoder that reads back what the encoder wrote, on a domain of good values.\<close>

locale codec =
  fixes enc :: "'a \<Rightarrow> bytes option"
    and dec :: "bytes \<Rightarrow> 'a option"
    and good :: "'a \<Rightarrow> bool"
    and canon :: "'a \<Rightarrow> 'a"
  assumes enc_total: "good a \<Longrightarrow> \<exists>s. enc a = Some s"
    and dec_enc: "good a \<Longrightarrow> enc a = Some s \<Longrightarrow> dec s = Some (canon a)"
begin

lemma enc_canon_inject:
  assumes "good a" and "good b" and "enc a = enc b"
  shows "canon a = canon b"
proof -
  from assms(1) obtain s where s: "enc a = Some s" using enc_total by blast
  with assms have "dec s = Some (canon a)" and "dec s = Some (canon b)"
    using dec_enc [of a s] dec_enc [of b s] by simp_all
  then show ?thesis by simp
qed

lemma dec_after_enc: "good a \<Longrightarrow> Option.bind (enc a) dec = Some (canon a)"
  using enc_total [of a] dec_enc [of a] by auto

end

text \<open>
  An invariant of a step relation: what every step keeps holds along every finite execution.
\<close>

locale transition_inv =
  fixes step :: "'s \<Rightarrow> 's \<Rightarrow> bool"
    and inv :: "'s \<Rightarrow> bool"
  assumes step_inv: "step s t \<Longrightarrow> inv s \<Longrightarrow> inv t"
begin

lemma steps_inv: "step\<^sup>*\<^sup>* s t \<Longrightarrow> inv s \<Longrightarrow> inv t"
  by (induction rule: rtranclp_induct) (auto intro: step_inv)

end

end
