(* ===== verification/Chan.thy ===== *)
theory Chan
  imports Prelude
begin

text \<open>
  Buffered Go channels used without blocking: the outbound queue of a session (\<open>Client.send\<close>)
  and the admission semaphore of the HTTP boundary. The laws a bounded first-in first-out queue
  promises are the locale \<open>bounded_queue\<close>; its lemmas about whole series of operations are
  what the session and admission properties rest on.
\<close>

record 'a chan =
  ch_buf :: "'a list"
  ch_cap :: nat

definition make_chan :: "nat \<Rightarrow> 'a chan" where
  "make_chan n = \<lparr>ch_buf = [], ch_cap = n\<rparr>"

text \<open>\<open>select { case ch <- v: ... default: ... }\<close> on a channel of positive capacity.\<close>

definition try_send :: "'a \<Rightarrow> 'a chan \<Rightarrow> bool \<times> 'a chan" where
  "try_send v ch =
     (if length (ch_buf ch) < ch_cap ch then (True, ch\<lparr>ch_buf := ch_buf ch @ [v]\<rparr>) else (False, ch))"

text \<open>A receive that is ready; \<open>None\<close> is a receive that would block.\<close>

definition try_recv :: "'a chan \<Rightarrow> ('a \<times> 'a chan) option" where
  "try_recv ch =
     (case ch_buf ch of [] \<Rightarrow> None | v # vs \<Rightarrow> Some (v, ch\<lparr>ch_buf := vs\<rparr>))"

datatype 'a queue_op = Push 'a | Pop

locale bounded_queue =
  fixes items :: "'q \<Rightarrow> 'a list"
    and capacity :: "'q \<Rightarrow> nat"
    and push :: "'a \<Rightarrow> 'q \<Rightarrow> bool \<times> 'q"
    and pop :: "'q \<Rightarrow> ('a \<times> 'q) option"
  assumes push_room: "length (items q) < capacity q \<Longrightarrow> fst (push v q) \<and> items (snd (push v q)) = items q @ [v]"
    and push_full: "\<not> length (items q) < capacity q \<Longrightarrow> push v q = (False, q)"
    and pop_empty: "items q = [] \<Longrightarrow> pop q = None"
    and pop_item: "items q = v # vs \<Longrightarrow> \<exists>q'. pop q = Some (v, q') \<and> items q' = vs \<and> capacity q' = capacity q"
    and push_capacity: "capacity (snd (push v q)) = capacity q"
begin

text \<open>A series of operations, with the items accepted and the items taken out so far.\<close>

definition queue_step :: "'a queue_op \<Rightarrow> 'a list \<times> 'a list \<times> 'q \<Rightarrow> 'a list \<times> 'a list \<times> 'q" where
  "queue_step x st =
     (case st of (accepted, taken, q) \<Rightarrow>
        (case x of
           Push v \<Rightarrow> (if fst (push v q) then accepted @ [v] else accepted, taken, snd (push v q))
         | Pop \<Rightarrow> (case pop q of None \<Rightarrow> st | Some (v, q') \<Rightarrow> (accepted, taken @ [v], q'))))"

definition fifo :: "nat \<Rightarrow> 'a list \<times> 'a list \<times> 'q \<Rightarrow> bool" where
  "fifo n st = (case st of (accepted, taken, q) \<Rightarrow>
     accepted = taken @ items q \<and> capacity q = n \<and> length (items q) \<le> n)"

lemma push_cases:
  "fst (push v q) \<and> items (snd (push v q)) = items q @ [v] \<and> length (items q) < capacity q \<or>
   push v q = (False, q) \<and> capacity q \<le> length (items q)"
  using push_room [of q v] push_full [of q v] by linarith

lemma pop_Some: "pop q = Some (v, q') \<Longrightarrow> items q = v # items q' \<and> capacity q' = capacity q"
  using pop_empty [of q] pop_item [of q] by (cases "items q") fastforce+

lemma fifo_step: "fifo n st \<Longrightarrow> fifo n (queue_step x st)"
proof (cases x)
  case (Push v)
  assume "fifo n st"
  then obtain a t q where st: "st = (a, t, q)" "a = t @ items q" "capacity q = n" "length (items q) \<le> n"
    by (auto simp: fifo_def)
  with Push push_cases [of v q] push_capacity [of v q] show ?thesis
    by (auto simp: queue_step_def fifo_def)
next
  case Pop
  assume "fifo n st"
  then obtain a t q where st: "st = (a, t, q)" "a = t @ items q" "capacity q = n" "length (items q) \<le> n"
    by (auto simp: fifo_def)
  with Pop show ?thesis by (auto simp: queue_step_def fifo_def split: option.splits dest: pop_Some)
qed

lemma fifo_run: "fifo n st \<Longrightarrow> fifo n (fold queue_step xs st)"
  by (induction xs arbitrary: st) (simp_all add: fifo_step)

end

interpretation go_chan: bounded_queue ch_buf ch_cap try_send try_recv
  by unfold_locales (auto simp: try_send_def try_recv_def split: list.splits)

lemma try_send_simps [simp]:
  "fst (try_send v ch) = (length (ch_buf ch) < ch_cap ch)"
  "ch_cap (snd (try_send v ch)) = ch_cap ch"
  "ch_buf (snd (try_send v ch)) = (if length (ch_buf ch) < ch_cap ch then ch_buf ch @ [v] else ch_buf ch)"
  by (simp_all add: try_send_def)

end
