(* ===== verification/Float64.thy ===== *)
theory Float64
  imports Complex_Main "HOL-Library.Log_Nat"
begin

text \<open>
  IEEE 754 binary64 arithmetic as round-to-nearest-even of the exact result. A float64 is its real
  value; \<open>f64\<close> rounds to 53 significant bits with the subnormal spacing \<open>2^-1074\<close>.
  Overflow to infinity is left out: the magnitudes the rate limiter computes stay below
  \<open>2^130\<close>. The locale \<open>rounding\<close> states what its clients rely on.
\<close>

subsection \<open>What a client relies on\<close>

locale rounding =
  fixes rnd :: "real \<Rightarrow> real"
  assumes rnd_mono: "x \<le> y \<Longrightarrow> rnd x \<le> rnd y"
    and rnd_int: "\<bar>n\<bar> \<le> 2 ^ 53 \<Longrightarrow> rnd (real_of_int n) = real_of_int n"
    and rnd_idem: "rnd (rnd x) = rnd x"
begin

lemma rnd_0: "rnd 0 = 0"
  using rnd_int [of 0] by simp

lemma rnd_1: "rnd 1 = 1"
  using rnd_int [of 1] by simp

lemma rnd_nonneg: "0 \<le> x \<Longrightarrow> 0 \<le> rnd x"
  using rnd_mono [of 0 x] by (simp add: rnd_0)

lemma rnd_nonpos: "x \<le> 0 \<Longrightarrow> rnd x \<le> 0"
  using rnd_mono [of x 0] by (simp add: rnd_0)

lemma rnd_ge_1: "1 \<le> x \<Longrightarrow> 1 \<le> rnd x"
  using rnd_mono [of 1 x] by (simp add: rnd_1)

lemma rnd_le_1: "x \<le> 1 \<Longrightarrow> rnd x \<le> 1"
  using rnd_mono [of x 1] by (simp add: rnd_1)

end

subsection \<open>Round to nearest, ties to even\<close>

definition rne :: "real \<Rightarrow> int" where
  "rne x =
     (let f = \<lfloor>x\<rfloor>; d = x - of_int f in
      if d < 1 / 2 then f else if 1 / 2 < d then f + 1 else if even f then f else f + 1)"

lemma rne_int [simp]: "rne (of_int n) = n"
  by (simp add: rne_def)

lemma rne_floor_bounds: "\<lfloor>x\<rfloor> \<le> rne x \<and> rne x \<le> \<lfloor>x\<rfloor> + 1"
  by (simp add: rne_def Let_def)

lemma rne_mono:
  assumes "x \<le> y"
  shows "rne x \<le> rne y"
proof (cases "\<lfloor>x\<rfloor> = \<lfloor>y\<rfloor>")
  case True
  with assms show ?thesis by (auto simp: rne_def Let_def)
next
  case False
  with assms floor_mono [OF assms] have "\<lfloor>x\<rfloor> + 1 \<le> \<lfloor>y\<rfloor>" by linarith
  with rne_floor_bounds [of x] rne_floor_bounds [of y] show ?thesis by linarith
qed

lemma rne_le_int: "x \<le> of_int n \<Longrightarrow> rne x \<le> n"
  using rne_mono [of x "of_int n"] by simp

lemma rne_ge_int: "of_int n \<le> x \<Longrightarrow> n \<le> rne x"
  using rne_mono [of "of_int n" x] by simp

subsection \<open>binary64\<close>

definition f64_exp :: "real \<Rightarrow> int" where
  "f64_exp x = max (\<lfloor>log 2 x\<rfloor> - 52) (- 1074)"

definition f64_pos :: "real \<Rightarrow> real" where
  "f64_pos x = of_int (rne (x / 2 powr f64_exp x)) * 2 powr f64_exp x"

definition f64 :: "real \<Rightarrow> real" where
  "f64 x = (if x = 0 then 0 else if 0 < x then f64_pos x else - f64_pos (- x))"

lemma log_floor_bounds:
  assumes "0 < x"
  shows "2 powr of_int \<lfloor>log 2 x\<rfloor> \<le> x" and "x < 2 powr (of_int \<lfloor>log 2 x\<rfloor> + 1)"
proof -
  have "2 powr of_int \<lfloor>log 2 x\<rfloor> \<le> 2 powr (log 2 x)" by (intro powr_mono) auto
  with assms show "2 powr of_int \<lfloor>log 2 x\<rfloor> \<le> x" by simp
  have "2 powr (log 2 x) < 2 powr (of_int \<lfloor>log 2 x\<rfloor> + 1)" by (intro powr_less_mono) linarith+
  with assms show "x < 2 powr (of_int \<lfloor>log 2 x\<rfloor> + 1)" by simp
qed

lemma f64_exp_mono: "0 < x \<Longrightarrow> x \<le> y \<Longrightarrow> f64_exp x \<le> f64_exp y"
  unfolding f64_exp_def by (intro max.mono diff_mono floor_mono) (auto intro: log_le_cancel_iff [THEN iffD2])

lemma f64_pos_upper:
  assumes "0 < x"
  shows "f64_pos x \<le> 2 powr (of_int (f64_exp x) + 53)"
proof -
  let ?e = "real_of_int (f64_exp x)"
  have "\<lfloor>log 2 x\<rfloor> + 1 \<le> f64_exp x + 53" by (simp add: f64_exp_def)
  then have "of_int \<lfloor>log 2 x\<rfloor> + 1 \<le> ?e + 53" by linarith
  then have "2 powr (of_int \<lfloor>log 2 x\<rfloor> + 1) \<le> 2 powr (?e + 53)" by (intro powr_mono) auto
  with log_floor_bounds(2) [OF assms] have "x \<le> 2 powr (?e + 53)" by linarith
  then have "x / 2 powr ?e \<le> 2 ^ 53" by (simp add: powr_add field_simps)
  then have "rne (x / 2 powr ?e) \<le> 2 ^ 53" by (intro rne_le_int) simp
  then have "real_of_int (rne (x / 2 powr ?e)) \<le> 2 ^ 53"
    by (metis of_int_le_iff of_int_numeral of_int_power)
  then show ?thesis unfolding f64_pos_def by (simp add: powr_add mult_right_mono)
qed

lemma f64_pos_lower:
  assumes "0 < y" and "- 1074 < f64_exp y"
  shows "2 powr (of_int (f64_exp y) + 52) \<le> f64_pos y"
proof -
  let ?e = "real_of_int (f64_exp y)"
  have "of_int \<lfloor>log 2 y\<rfloor> = ?e + 52" using assms(2) by (simp add: f64_exp_def max_def split: if_splits)
  with log_floor_bounds(1) [OF assms(1)] have "2 powr (?e + 52) \<le> y" by simp
  then have "2 ^ 52 \<le> y / 2 powr ?e" by (simp add: powr_add field_simps)
  then have "2 ^ 52 \<le> rne (y / 2 powr ?e)" by (intro rne_ge_int) simp
  then have "2 ^ 52 \<le> real_of_int (rne (y / 2 powr ?e))"
    by (metis of_int_le_iff of_int_numeral of_int_power)
  then show ?thesis unfolding f64_pos_def by (simp add: powr_add mult_right_mono)
qed

lemma f64_pos_mono:
  assumes "0 < x" and "x \<le> y"
  shows "f64_pos x \<le> f64_pos y"
proof (cases "f64_exp x = f64_exp y")
  case True
  have "rne (x / 2 powr f64_exp y) \<le> rne (y / 2 powr f64_exp y)"
    using assms by (intro rne_mono divide_right_mono) auto
  with True show ?thesis by (simp add: f64_pos_def mult_right_mono)
next
  case False
  with f64_exp_mono [OF assms] have lt: "f64_exp x < f64_exp y" by simp
  moreover have "- 1074 \<le> f64_exp x" by (simp add: f64_exp_def)
  ultimately have "- 1074 < f64_exp y" by simp
  from f64_pos_lower [OF _ this] assms have "2 powr (of_int (f64_exp y) + 52) \<le> f64_pos y" by simp
  moreover have "2 powr (real_of_int (f64_exp x) + 53) \<le> 2 powr (of_int (f64_exp y) + 52)"
    using lt by (intro powr_mono) auto
  ultimately show ?thesis using f64_pos_upper [OF assms(1)] by linarith
qed

lemma f64_pos_nonneg: "0 < x \<Longrightarrow> 0 \<le> f64_pos x"
  unfolding f64_pos_def using rne_ge_int [of 0 "x / 2 powr f64_exp x"] by simp

lemma f64_mono: "x \<le> y \<Longrightarrow> f64 x \<le> f64 y"
proof -
  assume "x \<le> y"
  then consider "0 < x" | "y < 0" | "x \<le> 0" "0 \<le> y" by linarith
  then show ?thesis
  proof cases
    case 1
    with \<open>x \<le> y\<close> show ?thesis by (simp add: f64_def f64_pos_mono)
  next
    case 2
    with \<open>x \<le> y\<close> f64_pos_mono [of "- y" "- x"] show ?thesis by (simp add: f64_def)
  next
    case 3
    with f64_pos_nonneg [of "- x"] f64_pos_nonneg [of y] show ?thesis by (auto simp: f64_def)
  qed
qed

text \<open>A multiple of a power of two with at most 53 bits is representable.\<close>

lemma f64_pos_grid:
  assumes "0 < m" and "m \<le> 2 ^ 53" and "- 1074 \<le> e"
  shows "f64_pos (real_of_int m * 2 powr real_of_int e) = real_of_int m * 2 powr real_of_int e"
proof -
  let ?x = "real_of_int m * 2 powr real_of_int e"
  have pos: "0 < ?x" using assms(1) by simp
  have rm: "real_of_int m \<le> 2 ^ 53" using assms(2) by (metis of_int_le_iff of_int_numeral of_int_power)
  show ?thesis
  proof (cases "f64_exp ?x \<le> e")
    case True
    define k where "k = nat (e - f64_exp ?x)"
    have "2 powr real_of_int e = 2 ^ k * 2 powr real_of_int (f64_exp ?x)"
      using True by (simp add: k_def powr_realpow [symmetric] powr_add [symmetric])
    then have x: "?x = of_int (m * 2 ^ k) * 2 powr real_of_int (f64_exp ?x)" by simp
    then have "?x / 2 powr real_of_int (f64_exp ?x) = of_int (m * 2 ^ k)"
      by (metis nonzero_mult_div_cancel_right powr_eq_0_iff zero_neq_numeral)
    then have "rne (?x / 2 powr real_of_int (f64_exp ?x)) = m * 2 ^ k" by (metis rne_int)
    then have "f64_pos ?x = of_int (m * 2 ^ k) * 2 powr real_of_int (f64_exp ?x)"
      unfolding f64_pos_def by (simp only:)
    then show ?thesis using x by (rule trans [OF _ sym])
  next
    case False
    then have "e + 53 \<le> \<lfloor>log 2 ?x\<rfloor>" using assms(3) by (simp add: f64_exp_def max_def split: if_splits)
    then have "(2::real) powr (of_int e + 53) \<le> 2 powr of_int \<lfloor>log 2 ?x\<rfloor>" by (intro powr_mono) linarith+
    with log_floor_bounds(1) [OF pos] have "2 powr (of_int e + 53) \<le> ?x" by linarith
    then have "2 ^ 53 \<le> real_of_int m" by (simp add: powr_add)
    with rm have "real_of_int m = 2 ^ 53" by simp
    then have x: "?x = 2 powr (of_int e + 53)" by (simp add: powr_add)
    then have "log 2 ?x = of_int (e + 53)" by simp
    then have E: "f64_exp ?x = e + 1" using assms(3) by (simp only: f64_exp_def floor_of_int)
    have "?x / 2 powr real_of_int (f64_exp ?x) = 2 powr (of_int e + 53 - of_int (e + 1))"
      unfolding E by (subst x) (rule powr_diff [symmetric])
    also have "\<dots> = of_int (2 ^ 52)" by (simp add: powr_realpow [symmetric])
    finally have "rne (?x / 2 powr real_of_int (f64_exp ?x)) = 2 ^ 52" by (metis rne_int)
    then have "f64_pos ?x = 2 ^ 52 * 2 powr (of_int e + 1)" unfolding f64_pos_def by (simp add: E)
    also have "\<dots> = ?x" unfolding x by (simp add: powr_add)
    finally show ?thesis .
  qed
qed

lemma f64_pos_int: "0 < n \<Longrightarrow> n \<le> 2 ^ 53 \<Longrightarrow> f64_pos (real_of_int n) = real_of_int n"
  using f64_pos_grid [of n 0] by simp

lemma f64_pos_idem:
  assumes "0 < x"
  shows "f64 (f64_pos x) = f64_pos x"
proof (cases "f64_pos x = 0")
  case True
  then show ?thesis by (simp add: f64_def)
next
  case False
  with f64_pos_nonneg [OF assms] have pos: "0 < f64_pos x" by simp
  let ?m = "rne (x / 2 powr real_of_int (f64_exp x))"
  from pos have m: "0 < ?m" by (simp add: f64_pos_def zero_less_mult_iff)
  have "real_of_int ?m * 2 powr of_int (f64_exp x) \<le> 2 ^ 53 * 2 powr of_int (f64_exp x)"
    using f64_pos_upper [OF assms] by (simp add: f64_pos_def powr_add)
  then have "real_of_int ?m \<le> 2 ^ 53" by simp
  then have "?m \<le> 2 ^ 53" by (metis of_int_le_iff of_int_numeral of_int_power)
  moreover have "- 1074 \<le> f64_exp x" by (simp add: f64_exp_def)
  ultimately have "f64_pos (f64_pos x) = f64_pos x"
    using f64_pos_grid [OF m] by (simp add: f64_pos_def [of x])
  with pos show ?thesis by (simp add: f64_def)
qed

lemma f64_minus: "f64 (- x) = - f64 x"
  by (auto simp: f64_def)

lemma f64_int: "\<bar>n\<bar> \<le> 2 ^ 53 \<Longrightarrow> f64 (real_of_int n) = real_of_int n"
  using f64_pos_int [of n] f64_pos_int [of "- n"] by (auto simp: f64_def)

lemma f64_idem: "f64 (f64 x) = f64 x"
proof -
  consider "x = 0" | "0 < x" | "0 < - x" by linarith
  then show ?thesis
  proof cases
    case 3
    then have "f64 (f64 (- x)) = f64 (- x)" by (simp add: f64_def [of "- x"] f64_pos_idem)
    then show ?thesis by (simp add: f64_minus)
  qed (simp_all add: f64_def [of x] f64_pos_idem f64_def [of 0])
qed

interpretation f64: rounding f64
  by unfold_locales (auto intro: f64_mono f64_int f64_idem)

subsection \<open>Execution\<close>

text \<open>Rounding of rational values by integer arithmetic, as the code equation of \<open>f64\<close>.\<close>

definition log2_floor :: "real \<Rightarrow> int" where
  "log2_floor x = (if 1 \<le> x then int (floorlog 2 (nat \<lfloor>x\<rfloor>)) - 1 else - int (floorlog 2 (nat (\<lceil>1 / x\<rceil> - 1))))"

definition pow2 :: "int \<Rightarrow> real" where
  "pow2 e = (if 0 \<le> e then 2 ^ nat e else 1 / 2 ^ nat (- e))"

definition f64_round :: "real \<Rightarrow> real" where
  "f64_round x = (let s = pow2 (max (log2_floor x - 52) (- 1074)) in of_int (rne (x / s)) * s)"

lemma pow2_powr: "pow2 e = 2 powr real_of_int e"
  by (simp add: pow2_def powr_real_of_int divide_inverse)

lemma powr_step: "2 powr real j = 2 ^ j" "2 powr (real j + 1) = 2 * 2 ^ j"
  "2 powr (- real j) = 1 / 2 ^ j" "2 powr (- real j - 1) = 1 / (2 * 2 ^ j)"
proof -
  show p: "2 powr real j = 2 ^ j" by (simp add: powr_realpow)
  show q: "2 powr (real j + 1) = 2 * 2 ^ j" by (simp add: powr_add p)
  show "2 powr (- real j) = 1 / 2 ^ j" by (simp add: powr_minus_divide p)
  have "- real j - 1 = - (real j + 1)" by simp
  then show "2 powr (- real j - 1) = 1 / (2 * 2 ^ j)" by (simp only: powr_minus_divide q)
qed

lemma log2_floor_ge1:
  assumes "1 \<le> x"
  shows "\<lfloor>log 2 x\<rfloor> = log2_floor x"
proof -
  let ?n = "nat \<lfloor>x\<rfloor>" and ?k = "floorlog 2 (nat \<lfloor>x\<rfloor>)"
  have n: "0 < ?n" and nx: "real ?n \<le> x" "x < real ?n + 1" using assms by linarith+
  from floorlog_bounds [OF n, of 2] have b: "2 ^ (?k - 1) \<le> ?n" "?n < 2 ^ ?k" by simp_all
  have "0 < ?k" using n by (simp add: floorlog_def)
  then obtain j where j: "?k = Suc j" using gr0_implies_Suc by blast
  have "real ?n + 1 \<le> 2 ^ ?k" using b(2) by (metis Suc_leI of_nat_Suc of_nat_le_iff of_nat_numeral of_nat_power add.commute)
  moreover have "2 ^ j \<le> real ?n" using b(1) j by (metis diff_Suc_1 of_nat_le_iff of_nat_numeral of_nat_power)
  ultimately have "2 ^ j \<le> x" "x < 2 * 2 ^ j" using nx unfolding j power_Suc by linarith+
  then have "\<lfloor>log 2 x\<rfloor> = int j" using assms by (simp add: floor_log_eq_powr_iff powr_step)
  then show ?thesis using assms j by (simp add: log2_floor_def)
qed

lemma log2_floor_lt1:
  assumes "0 < x" and "x < 1"
  shows "\<lfloor>log 2 x\<rfloor> = log2_floor x"
proof -
  let ?m = "nat (\<lceil>1 / x\<rceil> - 1)" and ?k = "floorlog 2 (nat (\<lceil>1 / x\<rceil> - 1))"
  have y: "1 < 1 / x" using assms by simp
  then have m: "0 < ?m" and my: "real ?m < 1 / x" "1 / x \<le> real ?m + 1" by linarith+
  from floorlog_bounds [OF m, of 2] have b: "2 ^ (?k - 1) \<le> ?m" "?m < 2 ^ ?k" by simp_all
  have "0 < ?k" using m by (simp add: floorlog_def)
  then obtain j where j: "?k = Suc j" using gr0_implies_Suc by blast
  have "real ?m + 1 \<le> 2 ^ ?k" using b(2) by (metis Suc_leI of_nat_Suc of_nat_le_iff of_nat_numeral of_nat_power add.commute)
  moreover have "2 ^ j \<le> real ?m" using b(1) j by (metis diff_Suc_1 of_nat_le_iff of_nat_numeral of_nat_power)
  ultimately have "2 ^ j < 1 / x" "1 / x \<le> 2 * 2 ^ j" using my unfolding j power_Suc by linarith+
  then have "1 / (2 * 2 ^ j) \<le> x" "x < 1 / 2 ^ j"
    using assms(1) by (simp_all add: pos_less_divide_eq pos_divide_le_eq mult.commute)
  then have "\<lfloor>log 2 x\<rfloor> = - int j - 1"
    using assms powr_step(3,4) [of j] by (simp add: floor_log_eq_powr_iff)
  then show ?thesis using assms j by (simp add: log2_floor_def)
qed

lemma f64_pos_exec: "0 < x \<Longrightarrow> f64_pos x = f64_round x"
  using log2_floor_ge1 [of x] log2_floor_lt1 [of x]
  by (cases "1 \<le> x") (simp_all add: f64_pos_def f64_round_def f64_exp_def pow2_powr Let_def)

lemma f64_code [code]: "f64 x = (if 0 < x then f64_round x else if x < 0 then - f64_round (- x) else 0)"
  using f64_pos_exec [of x] f64_pos_exec [of "- x"] by (simp add: f64_def)

end
