(* ===== verification/RateLimiter.thy ===== *)
theory RateLimiter
  imports Prelude Float64
begin

text \<open>
  The token bucket of \<open>internal/realtime/rate_limit.go\<close>. Times are nanoseconds of the monotonic
  clock; \<open>tokens\<close> is a float64 and every float operation of the source rounds.
\<close>

record RateLimiter =
  rl_limit :: int
  rl_interval :: int
  rl_tokens :: real
  rl_lastRefreshed :: int

definition NewRateLimiter :: "int \<Rightarrow> int \<Rightarrow> int \<Rightarrow> RateLimiter" where
  "NewRateLimiter limit interval now =
     \<lparr>rl_limit = limit, rl_interval = interval, rl_tokens = f64 (of_int limit), rl_lastRefreshed = now\<rparr>"

text \<open>\<open>Time.Sub\<close> saturates at the range of \<open>Duration\<close>.\<close>

definition time_Sub :: "int \<Rightarrow> int \<Rightarrow> int" where
  "time_Sub t u = max (- (2 ^ 63)) (min (2 ^ 63 - 1) (t - u))"

definition refill :: "RateLimiter \<Rightarrow> int \<Rightarrow> real" where
  "refill rl elapsed =
     f64 (f64 (of_int (rl_limit rl)) * f64 (f64 (of_int elapsed) / f64 (of_int (rl_interval rl))))"

text \<open>The bucket after the refill and the cap, before a token is taken.\<close>

definition refilled :: "RateLimiter \<Rightarrow> int \<Rightarrow> real" where
  "refilled rl now =
     (let elapsed = time_Sub now (rl_lastRefreshed rl);
          tokens = f64 (rl_tokens rl + refill rl elapsed)
      in if f64 (of_int (rl_limit rl)) < tokens then f64 (of_int (rl_limit rl)) else tokens)"

definition AllowAt :: "RateLimiter \<Rightarrow> int \<Rightarrow> bool \<times> RateLimiter" where
  "AllowAt rl now =
     (if rl_limit rl \<le> 0 \<or> rl_interval rl \<le> 0 then (True, rl)
      else
        let tokens = refilled rl now; rl1 = rl\<lparr>rl_lastRefreshed := now\<rparr> in
        if 1 \<le> tokens then (True, rl1\<lparr>rl_tokens := f64 (tokens - 1)\<rparr>)
        else (False, rl1\<lparr>rl_tokens := tokens\<rparr>))"

text \<open>\<open>Allow\<close> reads the clock; the caller supplies the reading.\<close>

definition Allow :: "int \<Rightarrow> RateLimiter \<Rightarrow> bool \<times> RateLimiter" where
  "Allow now rl = AllowAt rl now"

text \<open>The decisions for a sequence of arrivals.\<close>

fun decisions :: "RateLimiter \<Rightarrow> int list \<Rightarrow> bool list" where
  "decisions rl [] = []"
| "decisions rl (t # ts) = (case AllowAt rl t of (b, rl') \<Rightarrow> b # decisions rl' ts)"

definition limiter_on :: "RateLimiter \<Rightarrow> bool" where
  "limiter_on rl = (0 < rl_limit rl \<and> 0 < rl_interval rl)"

definition bucket_ok :: "RateLimiter \<Rightarrow> bool" where
  "bucket_ok rl = (0 \<le> rl_tokens rl \<and> rl_tokens rl \<le> f64 (of_int (rl_limit rl)))"

subsection \<open>Refills\<close>

lemma time_Sub_nonneg: "u \<le> t \<Longrightarrow> 0 \<le> time_Sub t u"
  by (simp add: time_Sub_def)

lemma time_Sub_self [simp]: "time_Sub t t = 0"
  by (simp add: time_Sub_def)

lemma time_Sub_mono: "t \<le> t' \<Longrightarrow> time_Sub t u \<le> time_Sub t' u"
  unfolding time_Sub_def by (intro max.mono min.mono diff_right_mono) auto

lemma f64_of_nonneg: "0 \<le> n \<Longrightarrow> 0 \<le> f64 (of_int n)"
  by (simp add: f64.rnd_nonneg)

lemma refill_mono: "limiter_on rl \<Longrightarrow> e \<le> e' \<Longrightarrow> refill rl e \<le> refill rl e'"
  unfolding refill_def limiter_on_def
  by (intro f64.rnd_mono mult_left_mono divide_right_mono f64_of_nonneg) auto

lemma refill_0: "refill rl 0 = 0"
  by (simp add: refill_def f64.rnd_0)

lemma refill_nonneg: "limiter_on rl \<Longrightarrow> 0 \<le> e \<Longrightarrow> 0 \<le> refill rl e"
  using refill_mono [of rl 0 e] by (simp add: refill_0)

lemma refilled_le: "refilled rl now \<le> f64 (of_int (rl_limit rl))"
  by (simp add: refilled_def Let_def)

lemma refilled_mono: "limiter_on rl \<Longrightarrow> now \<le> now' \<Longrightarrow> refilled rl now \<le> refilled rl now'"
  unfolding refilled_def Let_def
  using f64.rnd_mono [OF add_left_mono [OF refill_mono [OF _ time_Sub_mono]], of rl now now' "rl_tokens rl" "rl_lastRefreshed rl"]
  by simp

lemma refilled_nonneg:
  assumes "limiter_on rl" and "0 \<le> rl_tokens rl" and "rl_lastRefreshed rl \<le> now"
  shows "0 \<le> refilled rl now"
proof -
  have "0 \<le> refill rl (time_Sub now (rl_lastRefreshed rl))"
    using assms by (intro refill_nonneg time_Sub_nonneg)
  with assms show ?thesis
    unfolding refilled_def Let_def
    by (auto simp: limiter_on_def intro!: f64.rnd_nonneg)
qed

lemma AllowAt_on: "limiter_on rl \<Longrightarrow> AllowAt rl now =
   (1 \<le> refilled rl now,
    rl\<lparr>rl_lastRefreshed := now,
       rl_tokens := if 1 \<le> refilled rl now then f64 (refilled rl now - 1) else refilled rl now\<rparr>)"
  by (auto simp: AllowAt_def limiter_on_def Let_def)

lemma AllowAt_off: "\<not> limiter_on rl \<Longrightarrow> AllowAt rl now = (True, rl)"
  by (auto simp: AllowAt_def limiter_on_def not_less)

lemma AllowAt_config [simp]:
  "rl_limit (snd (AllowAt rl now)) = rl_limit rl" "rl_interval (snd (AllowAt rl now)) = rl_interval rl"
  by (cases "limiter_on rl"; simp add: AllowAt_on AllowAt_off)+

lemma f64_limit: "0 \<le> limit \<Longrightarrow> limit \<le> 2 ^ 53 \<Longrightarrow> f64 (of_int limit) = of_int limit"
  by (rule f64_int) simp

lemma AllowAt_same_time:
  assumes "rl = \<lparr>rl_limit = limit, rl_interval = interval, rl_tokens = of_nat k, rl_lastRefreshed = now\<rparr>"
    and "0 < limit" and "limit \<le> 2 ^ 53" and "0 < interval" and "int k \<le> limit"
  shows "AllowAt rl now = (0 < k, rl\<lparr>rl_tokens := of_nat (k - 1)\<rparr>)"
proof -
  have k: "f64 (of_nat k) = of_nat k"
    using assms f64_int [of "int k"] by simp
  have "refilled rl now = of_nat k"
    using assms k f64_limit [of limit] by (simp add: refilled_def refill_0)
  moreover have "limiter_on rl" using assms by (simp add: limiter_on_def)
  moreover have "f64 (of_nat k - 1) = of_nat (k - 1)" if "0 < k"
    using that assms f64_int [of "int (k - 1)"] by (simp add: of_nat_diff)
  ultimately show ?thesis
    using assms(1) by (auto simp: AllowAt_on)
qed

lemma decisions_burst:
  assumes "0 < limit" and "limit \<le> 2 ^ 53" and "0 < interval" and "int k \<le> limit"
  shows "decisions \<lparr>rl_limit = limit, rl_interval = interval, rl_tokens = of_nat k, rl_lastRefreshed = now\<rparr>
      (replicate n now) = replicate (min k n) True @ replicate (n - k) False"
  using assms(4)
proof (induction n arbitrary: k)
  case 0
  then show ?case by simp
next
  case (Suc n)
  have step: "AllowAt \<lparr>rl_limit = limit, rl_interval = interval, rl_tokens = of_nat k, rl_lastRefreshed = now\<rparr> now
     = (0 < k, \<lparr>rl_limit = limit, rl_interval = interval, rl_tokens = of_nat (k - 1), rl_lastRefreshed = now\<rparr>)"
    using AllowAt_same_time [OF refl assms(1-3) Suc.prems] by simp
  show ?case
  proof (cases k)
    case 0
    with step Suc.IH [of 0] assms(1) show ?thesis by simp
  next
    case (Suc j)
    with step Suc.IH [of j] Suc.prems show ?thesis by simp
  qed
qed

subsection \<open>Properties of the limiter\<close>

text \<open>
  C36: with a clock that does not run backwards the bucket never holds fewer than
  zero tokens nor more than the limit, whatever the arrivals.
\<close>

theorem AllowAt_bucket_bounds:
  assumes "limiter_on rl" and "bucket_ok rl" and "rl_lastRefreshed rl \<le> now"
  shows "bucket_ok (snd (AllowAt rl now))"
proof -
  have "f64 (refilled rl now - 1) \<le> f64 (f64 (of_int (rl_limit rl)))"
    using refilled_le [of rl now] by (intro f64.rnd_mono) simp
  then have "f64 (refilled rl now - 1) \<le> f64 (of_int (rl_limit rl))" by (simp add: f64.rnd_idem)
  with assms refilled_nonneg [OF assms(1) _ assms(3)] refilled_le [of rl now] show ?thesis
    by (auto simp: bucket_ok_def AllowAt_on intro: f64.rnd_nonneg)
qed

theorem AllowAt_bucket_bounds_witness:
  "limiter_on (NewRateLimiter 3 60 0) \<and> bucket_ok (NewRateLimiter 3 60 0) \<and>
   bucket_ok (snd (AllowAt (NewRateLimiter 3 60 0) 10))"
proof -
  have on: "limiter_on (NewRateLimiter 3 60 0)" by (simp add: limiter_on_def NewRateLimiter_def)
  have ok: "bucket_ok (NewRateLimiter 3 60 0)"
    by (simp add: bucket_ok_def NewRateLimiter_def f64.rnd_nonneg)
  from on ok show ?thesis
    using AllowAt_bucket_bounds [OF on ok, of 10] by (simp add: NewRateLimiter_def)
qed

text \<open>
  a fresh limiter admits exactly its limit of simultaneous messages, then
  refuses all further ones.
\<close>

theorem NewRateLimiter_burst:
  assumes "0 < limit" and "limit \<le> 2 ^ 53" and "0 < interval"
  shows "decisions (NewRateLimiter limit interval now) (replicate (nat limit + k) now) =
           replicate (nat limit) True @ replicate k False"
  using decisions_burst [OF assms, of "nat limit" now "nat limit + k"] assms f64_limit [of limit]
  by (simp add: NewRateLimiter_def)

theorem NewRateLimiter_burst_witness:
  "decisions (NewRateLimiter 2 60 7) [7, 7, 7] = [True, True, False]"
  using NewRateLimiter_burst [of 2 60 7 1] by (simp add: eval_nat_numeral)

text \<open>
  a message that arrives at least one interval after the last one is always
  admitted and finds a full bucket, however many were refused before.
\<close>

theorem AllowAt_full_refill:
  assumes "0 < rl_limit rl" and "rl_limit rl \<le> 2 ^ 53" and "0 < rl_interval rl"
    and "rl_interval rl < 2 ^ 63" and "0 \<le> rl_tokens rl"
    and "rl_lastRefreshed rl + rl_interval rl \<le> now"
  shows "AllowAt rl now = (True, rl\<lparr>rl_lastRefreshed := now, rl_tokens := of_int (rl_limit rl - 1)\<rparr>)"
proof -
  let ?L = "real_of_int (rl_limit rl)" and ?e = "time_Sub now (rl_lastRefreshed rl)"
  have L: "f64 ?L = ?L" using assms by (simp add: f64_limit)
  have "rl_interval rl \<le> ?e" using assms by (simp add: time_Sub_def)
  then have "f64 (of_int (rl_interval rl)) \<le> f64 (of_int ?e)" by (intro f64.rnd_mono) simp
  moreover have "0 < f64 (of_int (rl_interval rl))"
    using f64.rnd_ge_1 [of "of_int (rl_interval rl)"] assms by simp
  ultimately have "1 \<le> f64 (f64 (of_int ?e) / f64 (of_int (rl_interval rl)))"
    by (intro f64.rnd_ge_1) simp
  then have "f64 ?L \<le> refill rl ?e"
    unfolding refill_def using assms(1) L by (intro f64.rnd_mono) simp
  then have "f64 ?L \<le> f64 (rl_tokens rl + refill rl ?e)"
    using assms(5) L f64.rnd_mono [of ?L "rl_tokens rl + refill rl ?e"] by simp
  then have "refilled rl now = ?L" by (auto simp: refilled_def Let_def L)
  moreover have "f64 (?L - 1) = of_int (rl_limit rl - 1)"
    using assms f64_int [of "rl_limit rl - 1"] by simp
  moreover have "1 \<le> ?L" using assms(1) by simp
  ultimately show ?thesis using assms by (simp add: AllowAt_on limiter_on_def)
qed

theorem AllowAt_full_refill_witness:
  "AllowAt \<lparr>rl_limit = 2, rl_interval = 60, rl_tokens = 0, rl_lastRefreshed = 5\<rparr> 65 =
     (True, \<lparr>rl_limit = 2, rl_interval = 60, rl_tokens = 1, rl_lastRefreshed = 65\<rparr>)"
  using AllowAt_full_refill
    [of "\<lparr>rl_limit = 2, rl_interval = 60, rl_tokens = 0, rl_lastRefreshed = 5\<rparr>" 65] by simp

text \<open>
  a limiter that is switched off admits everything and keeps its state; for
  one that is on, arriving later never turns an admission into a refusal.
\<close>

theorem AllowAt_waiting_helps:
  assumes "now \<le> now'"
  shows "(limiter_on rl \<or> AllowAt rl now = (True, rl)) \<and> (fst (AllowAt rl now) \<le> fst (AllowAt rl now'))"
  using assms refilled_mono [of rl now now']
  by (cases "limiter_on rl") (auto simp: AllowAt_on AllowAt_off)

theorem AllowAt_waiting_helps_witness:
  "AllowAt (NewRateLimiter 0 60 0) 3 = (True, NewRateLimiter 0 60 0) \<and>
   fst (AllowAt (NewRateLimiter 2 60 0) 3) \<le> fst (AllowAt (NewRateLimiter 2 60 0) 9)"
proof -
  have "\<not> limiter_on (NewRateLimiter 0 60 0)" by (simp add: limiter_on_def NewRateLimiter_def)
  then show ?thesis
    using AllowAt_waiting_helps [of 3 3 "NewRateLimiter 0 60 0"]
      AllowAt_waiting_helps [of 3 9 "NewRateLimiter 2 60 0"] by simp
qed

end
