(* ===== verification/Hub.thy ===== *)
theory Hub
  imports Chan RateLimiter
begin

text \<open>
  The registry of \<open>internal/realtime/hub.go\<close> (sessions by user, rooms by identifier, rooms by
  connection) and the data of one session (\<open>client.go\<close>). The operations here are the ones that run
  under the hub's lock; what they hand to sessions and brokers is in \<open>Routing\<close>.
\<close>

subsection \<open>Sessions\<close>

type_synonym cref = nat
type_synonym href = nat
type_synonym bref = nat

record outboundMessage =
  om_messageType :: int
  om_payload :: bytes

text \<open>What the session has done to its \<open>*websocket.Conn\<close>; the connection itself is third-party code.\<close>

record socket =
  so_readLimit :: "int option"
  so_readDeadline :: "int option"
  so_writeDeadline :: "int option"
  so_written :: "outboundMessage list"
  so_closed :: bool

definition new_socket :: socket where
  "new_socket = \<lparr>so_readLimit = None, so_readDeadline = None, so_writeDeadline = None,
     so_written = [], so_closed = False\<rparr>"

text \<open>
  \<open>c_onClose\<close> is the hub the close callback unregisters from: \<open>session_handler.go\<close> installs no
  other callback. \<open>c_closed\<close> stands for the flag and the closed channel \<open>done\<close>, which are set
  together; \<open>c_closeOnce\<close> for the consumed \<open>sync.Once\<close>.
\<close>

record Client =
  c_connection :: "socket option"
  c_connectionID :: bytes
  c_userID :: bytes
  c_readTimeout :: int
  c_writeTimeout :: int
  c_onClose :: "href option"
  c_hub :: "href option"
  c_pingInterval :: int
  c_maxMessageSize :: int
  c_limiter :: "RateLimiter option"
  c_send :: "outboundMessage chan"
  c_closed :: bool
  c_closeOnce :: bool

definition ConnectionID :: "Client \<Rightarrow> bytes" where
  "ConnectionID c = c_connectionID c"

definition UserID :: "Client \<Rightarrow> bytes" where
  "UserID c = c_userID c"

subsection \<open>Authorization\<close>

record Authorizer =
  AuthorizeJoin :: "bytes \<Rightarrow> bytes \<Rightarrow> goerror option"
  AuthorizePublish :: "bytes \<Rightarrow> bytes \<Rightarrow> goerror option"
  AuthorizePrivateSend :: "bytes \<Rightarrow> bytes \<Rightarrow> goerror option"

definition AllowAllAuthorizer :: Authorizer where
  "AllowAllAuthorizer =
     \<lparr>AuthorizeJoin = (\<lambda>userID roomID. None), AuthorizePublish = (\<lambda>userID roomID. None),
      AuthorizePrivateSend = (\<lambda>senderID recipientID. None)\<rparr>"

subsection \<open>The log\<close>

datatype log_value = LStr bytes | LStrs "bytes list" | LInt int | LBool bool | LErr

text \<open>\<open>LErr\<close> stands for an error value whose text a library chooses.\<close>

datatype log_level = Info | Warn | Error

type_synonym log_entry = "log_level \<times> bytes \<times> (bytes \<times> log_value) list"

subsection \<open>The registry\<close>

record Hub =
  h_clients :: "(bytes, cref) gomap"
  h_rooms :: "(bytes, (bytes, cref) gomap) gomap"
  h_clientRooms :: "(bytes, (bytes, unit) gomap) gomap"
  h_authorizer :: Authorizer
  h_maxRoomsPerClient :: int
  h_broker :: "bref option"
  h_nodeID :: bytes
  h_log :: "log_entry list"

definition NewHub :: "Authorizer \<Rightarrow> int \<Rightarrow> Hub" where
  "NewHub authorizer maxRoomsPerClient =
     \<lparr>h_clients = [], h_rooms = [], h_clientRooms = [], h_authorizer = authorizer,
      h_maxRoomsPerClient = maxRoomsPerClient, h_broker = None, h_nodeID = [], h_log = []\<rparr>"

definition hub_note :: "log_entry \<Rightarrow> Hub \<Rightarrow> Hub" where
  "hub_note e h = h\<lparr>h_log := h_log h @ [e]\<rparr>"

definition len :: "'a list \<Rightarrow> int" where
  "len xs = int (length xs)"

text \<open>
  \<open>cls\<close> is the heap of sessions, \<open>c\<close> the session the call is about: two sessions are the same
  exactly when their references are. The locked part of \<open>Register\<close> returns the session it replaced.
\<close>

definition register_locked :: "(cref \<Rightarrow> Client) \<Rightarrow> cref \<Rightarrow> Hub \<Rightarrow> cref option \<times> Hub" where
  "register_locked cls c h =
     (let user = UserID (cls c);
          replaced = mget (h_clients h) user;
          h1 = h\<lparr>h_clients := mset_key user c (h_clients h)\<rparr>
      in (replaced,
          hub_note (Info, ''websocket_client_registered'',
            [(''connection_id'', LStr (ConnectionID (cls c))), (''user_id'', LStr user),
             (''active_clients'', LInt (len (h_clients h1))),
             (''replaced_connection'', LBool (replaced \<noteq> None))]) h1))"

definition remove_member :: "bytes \<Rightarrow> bytes \<Rightarrow> (bytes, (bytes, 'v) gomap) gomap \<Rightarrow> (bytes, (bytes, 'v) gomap) gomap" where
  "remove_member key inner m =
     (case mget m key of
        None \<Rightarrow> m
      | Some ms \<Rightarrow>
          (let ms' = mdel inner ms in if length ms' = 0 then mdel key m else mset_key key ms' m))"

text \<open>The deletions of the loop over the joined rooms commute, so the map's own order serves.\<close>

definition Unregister :: "(cref \<Rightarrow> Client) \<Rightarrow> cref \<Rightarrow> Hub \<Rightarrow> bool \<times> Hub" where
  "Unregister cls c h =
     (let connID = ConnectionID (cls c);
          h1 = (case mget (h_clientRooms h) connID of
                  None \<Rightarrow> h
                | Some roomsJoined \<Rightarrow>
                    h\<lparr>h_rooms := fold (\<lambda>roomID. remove_member roomID connID) (mkeys roomsJoined) (h_rooms h),
                      h_clientRooms := mdel connID (h_clientRooms h)\<rparr>)
      in case mget (h_clients h1) (UserID (cls c)) of
           None \<Rightarrow> (False, h1)
         | Some current \<Rightarrow>
             if current \<noteq> c \<or> ConnectionID (cls current) \<noteq> ConnectionID (cls c) then (False, h1)
             else
               (let h2 = h1\<lparr>h_clients := mdel (UserID (cls c)) (h_clients h1)\<rparr>
                in (True,
                    hub_note (Info, ''websocket_client_unregistered'',
                      [(''connection_id'', LStr connID), (''user_id'', LStr (UserID (cls c))),
                       (''active_clients'', LInt (len (h_clients h2)))]) h2)))"

definition errRoomLimit :: goerror where
  "errRoomLimit = ''maximum room membership limit reached''"

definition room_limit_hit :: "bytes \<Rightarrow> bytes \<Rightarrow> Hub \<Rightarrow> bool" where
  "room_limit_hit connID roomID h =
     (case mget (h_clientRooms h) connID of
        None \<Rightarrow> False
      | Some rooms \<Rightarrow>
          mget rooms roomID = None \<and> 0 < h_maxRoomsPerClient h \<and> h_maxRoomsPerClient h \<le> len rooms)"

definition add_member :: "bytes \<Rightarrow> bytes \<Rightarrow> 'v \<Rightarrow> (bytes, (bytes, 'v) gomap) gomap \<Rightarrow> (bytes, (bytes, 'v) gomap) gomap" where
  "add_member key inner v m =
     (let m1 = (if mget m key = None then mset_key key [] m else m)
      in mset_key key (mset_key inner v (case mget m1 key of None \<Rightarrow> [] | Some ms \<Rightarrow> ms)) m1)"

definition Join :: "(cref \<Rightarrow> Client) \<Rightarrow> cref \<Rightarrow> bytes \<Rightarrow> Hub \<Rightarrow> goerror option \<times> Hub" where
  "Join cls c roomID h =
     (case AuthorizeJoin (h_authorizer h) (UserID (cls c)) roomID of
        Some err \<Rightarrow> (Some err, h)
      | None \<Rightarrow>
          (let connID = ConnectionID (cls c) in
           if room_limit_hit connID roomID h then (Some errRoomLimit, h)
           else
             (None,
              hub_note (Info, ''websocket_room_joined'',
                [(''connection_id'', LStr connID), (''user_id'', LStr (UserID (cls c))),
                 (''room_id'', LStr roomID)])
              (h\<lparr>h_rooms := add_member roomID connID c (h_rooms h),
                 h_clientRooms := add_member connID roomID () (h_clientRooms h)\<rparr>))))"

definition Leave :: "(cref \<Rightarrow> Client) \<Rightarrow> cref \<Rightarrow> bytes \<Rightarrow> Hub \<Rightarrow> Hub" where
  "Leave cls c roomID h =
     (let connID = ConnectionID (cls c) in
      hub_note (Info, ''websocket_room_left'',
        [(''connection_id'', LStr connID), (''user_id'', LStr (UserID (cls c))), (''room_id'', LStr roomID)])
      (h\<lparr>h_clientRooms := remove_member connID roomID (h_clientRooms h),
         h_rooms := remove_member roomID connID (h_rooms h)\<rparr>))"

definition AuthorizeBroadcast :: "(cref \<Rightarrow> Client) \<Rightarrow> cref \<Rightarrow> bytes \<Rightarrow> Hub \<Rightarrow> goerror option" where
  "AuthorizeBroadcast cls c roomID h =
     (let isMember = (case mget (h_rooms h) roomID of
                        None \<Rightarrow> False
                      | Some clientsMap \<Rightarrow> mget clientsMap (ConnectionID (cls c)) \<noteq> None)
      in if isMember then None else AuthorizePublish (h_authorizer h) (UserID (cls c)) roomID)"

definition SetBroker :: "bref \<Rightarrow> bytes \<Rightarrow> Hub \<Rightarrow> Hub" where
  "SetBroker b nodeID h = h\<lparr>h_broker := Some b, h_nodeID := nodeID\<rparr>"

definition Lookup :: "bytes \<Rightarrow> Hub \<Rightarrow> cref option" where
  "Lookup userID h = mget (h_clients h) userID"

definition Count :: "Hub \<Rightarrow> int" where
  "Count h = len (h_clients h)"

definition Snapshot :: "(bytes list \<Rightarrow> bytes list) \<Rightarrow> Hub \<Rightarrow> cref list" where
  "Snapshot pick h = List.map_filter (mget (h_clients h)) (range_order pick (mkeys (h_clients h)))"

text \<open>The recipients \<open>localBroadcast\<close> collects under the lock; \<open>None\<close> is the early return.\<close>

definition recipients :: "(bytes list \<Rightarrow> bytes list) \<Rightarrow> (cref \<Rightarrow> Client) \<Rightarrow> bytes \<Rightarrow> bytes \<Rightarrow> Hub \<Rightarrow> cref list option" where
  "recipients pick cls senderID roomID h =
     (case mget (h_rooms h) roomID of
        None \<Rightarrow> None
      | Some clientsMap \<Rightarrow>
          if length clientsMap = 0 then None
          else Some (filter (\<lambda>c. UserID (cls c) \<noteq> senderID)
                 (List.map_filter (mget clientsMap) (range_order pick (mkeys clientsMap)))))"

subsection \<open>Nested maps\<close>

definition nget :: "('k, ('i, 'v) gomap) gomap \<Rightarrow> 'k \<Rightarrow> 'i \<Rightarrow> 'v option" where
  "nget m k i = (case mget m k of None \<Rightarrow> None | Some ms \<Rightarrow> mget ms i)"

definition nwf :: "('k, ('i, 'v) gomap) gomap \<Rightarrow> bool" where
  "nwf m = (mwf m \<and> (\<forall>k ms. mget m k = Some ms \<longrightarrow> mwf ms \<and> ms \<noteq> []))"

lemma nwf_Nil [simp]: "nwf []"
  by (simp add: nwf_def)

lemma nget_Nil [simp]: "nget [] k i = None"
  by (simp add: nget_def)

lemma nget_add_member [simp, map_laws]:
  "nget (add_member k i v m) k' i' = (if k' = k \<and> i' = i then Some v else nget m k' i')"
  by (auto simp: nget_def add_member_def Let_def split: option.splits)

lemma nget_remove_member [simp, map_laws]:
  "nget (remove_member k i m) k' i' = (if k' = k \<and> i' = i then None else nget m k' i')"
proof (cases "mget m k")
  case None
  then show ?thesis by (auto simp: nget_def remove_member_def)
next
  case (Some ms)
  have "mget ms i' = None" if "mdel i ms = []" "i' \<noteq> i"
    using that mget_mdel [of i ms i'] by simp
  with Some show ?thesis by (auto simp: nget_def remove_member_def Let_def)
qed

lemma mwf_single [simp]: "mwf [p]"
  by (simp add: mwf_def)

lemma nwf_add_member: "nwf m \<Longrightarrow> nwf (add_member k i v m)"
  by (auto simp: nwf_def add_member_def Let_def split: option.splits if_splits)

lemma nwf_remove_member: "nwf m \<Longrightarrow> nwf (remove_member k i m)"
  by (auto simp: nwf_def remove_member_def Let_def split: option.splits if_splits)

lemma nget_fold_remove:
  "nget (fold (\<lambda>k. remove_member k i) ks m) k' i' = (if k' \<in> set ks \<and> i' = i then None else nget m k' i')"
  by (induction ks arbitrary: m) auto

lemma nwf_fold_remove: "nwf m \<Longrightarrow> nwf (fold (\<lambda>k. remove_member k i) ks m)"
  by (induction ks arbitrary: m) (auto intro: nwf_remove_member)

lemma nget_mdel: "nget (mdel k m) k' i = (if k' = k then None else nget m k' i)"
  by (simp add: nget_def)

lemma nwf_mdel: "nwf m \<Longrightarrow> nwf (mdel k m)"
  by (auto simp: nwf_def split: if_splits)

subsection \<open>The invariant of the registry\<close>

definition rooms_capped :: "Hub \<Rightarrow> bool" where
  "rooms_capped h =
     (0 < h_maxRoomsPerClient h \<longrightarrow>
        (\<forall>connID rooms. mget (h_clientRooms h) connID = Some rooms \<longrightarrow> len rooms \<le> h_maxRoomsPerClient h))"

text \<open>
  The two room indexes are inverse to each other, neither keeps an empty entry, and no session is in
  more rooms than the limit allows.
\<close>

definition hub_ok :: "Hub \<Rightarrow> bool" where
  "hub_ok h =
     (mwf (h_clients h) \<and> nwf (h_rooms h) \<and> nwf (h_clientRooms h) \<and>
      (\<forall>roomID connID. (nget (h_rooms h) roomID connID = None) = (nget (h_clientRooms h) connID roomID = None)) \<and>
      rooms_capped h)"

lemma hub_okI:
  assumes "mwf (h_clients h)" and "nwf (h_rooms h)" and "nwf (h_clientRooms h)"
    and "\<And>r k. (nget (h_rooms h) r k = None) = (nget (h_clientRooms h) k r = None)" and "rooms_capped h"
  shows "hub_ok h"
  using assms by (simp add: hub_ok_def)

lemma hub_okD:
  assumes "hub_ok h"
  shows "mwf (h_clients h)" and "nwf (h_rooms h)" and "nwf (h_clientRooms h)"
    and "(nget (h_rooms h) r k = None) = (nget (h_clientRooms h) k r = None)" and "rooms_capped h"
  using assms by (simp_all add: hub_ok_def)

lemma hub_note_frame [simp]:
  "h_clients (hub_note e h) = h_clients h" "h_rooms (hub_note e h) = h_rooms h"
  "h_clientRooms (hub_note e h) = h_clientRooms h" "h_authorizer (hub_note e h) = h_authorizer h"
  "h_maxRoomsPerClient (hub_note e h) = h_maxRoomsPerClient h" "h_broker (hub_note e h) = h_broker h"
  "h_nodeID (hub_note e h) = h_nodeID h"
  by (simp_all add: hub_note_def)

lemma hub_ok_note [simp]: "hub_ok (hub_note e h) = hub_ok h"
  by (simp add: hub_ok_def rooms_capped_def)

lemma hub_ok_new: "hub_ok (NewHub a n)"
  by (simp add: hub_ok_def NewHub_def rooms_capped_def)

lemma hub_ok_SetBroker [simp]: "hub_ok (SetBroker b n h) = hub_ok h"
  by (simp add: hub_ok_def SetBroker_def rooms_capped_def)

lemma hub_ok_register: "hub_ok h \<Longrightarrow> hub_ok (snd (register_locked cls c h))"
  by (simp add: hub_ok_def register_locked_def rooms_capped_def Let_def mwf_mset_key)

lemma capped_add:
  assumes "nwf (h_clientRooms h)" and "rooms_capped h" and "\<not> room_limit_hit k r h"
    and "0 < h_maxRoomsPerClient h" and "mget (add_member k r () (h_clientRooms h)) k' = Some rooms"
  shows "len rooms \<le> h_maxRoomsPerClient h"
proof (cases "k' = k")
  case False
  with assms show ?thesis by (auto simp: add_member_def Let_def rooms_capped_def split: option.splits if_splits)
next
  case True
  with assms have "rooms = mset_key r () (case mget (h_clientRooms h) k of None \<Rightarrow> [] | Some ms \<Rightarrow> ms)"
    by (auto simp: add_member_def Let_def split: option.splits if_splits)
  with assms show ?thesis
    by (auto simp: room_limit_hit_def rooms_capped_def len_def length_mset_key split: option.splits if_splits)
qed

lemma hub_ok_indexes:
  assumes "hub_ok h" and "mwf (h_clients h')" and "h_maxRoomsPerClient h' = h_maxRoomsPerClient h"
    and "nwf (h_rooms h')" and "nwf (h_clientRooms h')"
    and "\<And>r k. (nget (h_rooms h') r k = None) = (nget (h_clientRooms h') k r = None)"
    and "\<And>k rooms. 0 < h_maxRoomsPerClient h \<Longrightarrow> mget (h_clientRooms h') k = Some rooms \<Longrightarrow>
           len rooms \<le> h_maxRoomsPerClient h"
  shows "hub_ok h'"
  using assms by (simp add: hub_ok_def rooms_capped_def)

lemma hub_ok_Join:
  assumes "hub_ok h"
  shows "hub_ok (snd (Join cls c r h))"
proof -
  let ?k = "ConnectionID (cls c)"
  have "hub_ok (h\<lparr>h_rooms := add_member r ?k c (h_rooms h),
                  h_clientRooms := add_member ?k r () (h_clientRooms h)\<rparr>)"
    if limit: "\<not> room_limit_hit ?k r h"
  proof (rule hub_ok_indexes [OF assms], goal_cases)
    case (6 k rooms)
    with capped_add [OF hub_okD(3,5) [OF assms] limit] show ?case by simp
  qed (auto simp: nwf_add_member hub_okD [OF assms])
  with assms show ?thesis by (auto simp: Join_def Let_def split: option.splits)
qed

lemma capped_remove:
  assumes "rooms_capped h" and "0 < h_maxRoomsPerClient h"
    and "mget (remove_member k r (h_clientRooms h)) k' = Some rooms"
  shows "len rooms \<le> h_maxRoomsPerClient h"
proof -
  obtain ms where "mget (h_clientRooms h) k' = Some ms" "length rooms \<le> length ms"
    using assms(3) length_mdel_le [of r]
    by (auto simp: remove_member_def Let_def split: option.splits if_splits)
  with assms(1,2) show ?thesis by (fastforce simp: rooms_capped_def len_def)
qed

lemma hub_ok_Leave:
  assumes "hub_ok h"
  shows "hub_ok (Leave cls c r h)"
  unfolding Leave_def Let_def hub_ok_note
proof (rule hub_ok_indexes [OF assms], goal_cases)
  case (6 k rooms)
  with capped_remove [OF hub_okD(5) [OF assms]] show ?case by simp
qed (auto simp: nwf_remove_member hub_okD [OF assms])

lemma nget_mkeys: "mget m k = Some ms \<Longrightarrow> i \<in> set (mkeys ms) \<longleftrightarrow> nget m k i \<noteq> None"
  by (auto simp: nget_def set_mkeys)

text \<open>What \<open>Unregister\<close> leaves of the indexes: nothing of the connection, everything else.\<close>

lemma Unregister_effect:
  assumes "hub_ok h"
  shows "nget (h_rooms (snd (Unregister cls c h))) r k =
           (if k = ConnectionID (cls c) then None else nget (h_rooms h) r k)"
    and "mget (h_clientRooms (snd (Unregister cls c h))) =
           (mget (h_clientRooms h))(ConnectionID (cls c) := None)"
    and "mget (h_clients (snd (Unregister cls c h))) =
           (if mget (h_clients h) (UserID (cls c)) = Some c then (mget (h_clients h))(UserID (cls c) := None)
            else mget (h_clients h))"
    and "fst (Unregister cls c h) = (mget (h_clients h) (UserID (cls c)) = Some c)"
    and "nwf (h_rooms (snd (Unregister cls c h)))"
proof -
  let ?k = "ConnectionID (cls c)"
  have none: "nget (h_rooms h) r ?k = None" if "mget (h_clientRooms h) ?k = None" for r
    using hub_okD(4) [OF assms, of r ?k] that by (simp add: nget_def)
  have all: "r \<in> set (mkeys rs) \<longleftrightarrow> nget (h_rooms h) r ?k \<noteq> None"
    if "mget (h_clientRooms h) ?k = Some rs" for r rs
    using nget_mkeys [OF that, of r] hub_okD(4) [OF assms, of r ?k] by simp
  show "nget (h_rooms (snd (Unregister cls c h))) r k = (if k = ?k then None else nget (h_rooms h) r k)"
    using none all by (auto simp: Unregister_def Let_def nget_fold_remove split: option.splits)
  show "mget (h_clientRooms (snd (Unregister cls c h))) = (mget (h_clientRooms h))(?k := None)"
    by (auto simp: Unregister_def Let_def fun_eq_iff split: option.splits)
  show "mget (h_clients (snd (Unregister cls c h))) =
           (if mget (h_clients h) (UserID (cls c)) = Some c then (mget (h_clients h))(UserID (cls c) := None)
            else mget (h_clients h))"
    by (auto simp: Unregister_def Let_def fun_eq_iff split: option.splits)
  show "fst (Unregister cls c h) = (mget (h_clients h) (UserID (cls c)) = Some c)"
    by (auto simp: Unregister_def Let_def split: option.splits)
  show "nwf (h_rooms (snd (Unregister cls c h)))"
    using hub_okD(2) [OF assms] by (auto simp: Unregister_def Let_def nwf_fold_remove split: option.splits)
qed

lemma Unregister_frame [simp, frame_laws]:
  "h_authorizer (snd (Unregister cls c h)) = h_authorizer h"
  "h_maxRoomsPerClient (snd (Unregister cls c h)) = h_maxRoomsPerClient h"
  "h_broker (snd (Unregister cls c h)) = h_broker h"
  "h_nodeID (snd (Unregister cls c h)) = h_nodeID h"
  by (auto simp: Unregister_def Let_def split: option.splits)

lemma hub_ok_Unregister:
  assumes "hub_ok h"
  shows "hub_ok (snd (Unregister cls c h))"
proof (rule hub_ok_indexes [OF assms], goal_cases)
  case 1
  show ?case using hub_okD(1) [OF assms] by (auto simp: Unregister_def Let_def split: option.splits)
next
  case 4
  show ?case using hub_okD(3) [OF assms] by (auto simp: Unregister_def Let_def nwf_mdel split: option.splits)
next
  case (5 r k)
  show ?case using hub_okD(4) [OF assms, of r k]
    by (simp add: Unregister_effect [OF assms] nget_def [of "h_clientRooms _"])
next
  case (6 k rooms)
  with hub_okD(5) [OF assms] show ?case
    by (auto simp: Unregister_effect [OF assms] rooms_capped_def split: if_splits)
qed (simp_all add: Unregister_effect [OF assms])

lemmas hub_ok_ops = hub_ok_new hub_ok_register hub_ok_Unregister hub_ok_Join hub_ok_Leave

end
