(* ===== verification/Membership.thy ===== *)
theory Membership
  imports Hub
begin

text \<open>
  Properties of the registry over whole histories of its operations: the invariant and the room limit,
  who is a member of what and why (through the locale \<open>room_registry\<close>), the session that wins a
  user, and a refinement of the three maps to the abstract state a reader has in mind.
\<close>

subsection \<open>Histories\<close>

datatype hub_op =
    OpRegister cref
  | OpUnregister cref
  | OpJoin cref bytes
  | OpLeave cref bytes
  | OpSetBroker bref bytes

fun hub_step :: "(cref \<Rightarrow> Client) \<Rightarrow> hub_op \<Rightarrow> Hub \<Rightarrow> Hub" where
  "hub_step cls (OpRegister c) h = snd (register_locked cls c h)"
| "hub_step cls (OpUnregister c) h = snd (Unregister cls c h)"
| "hub_step cls (OpJoin c r) h = snd (Join cls c r h)"
| "hub_step cls (OpLeave c r) h = Leave cls c r h"
| "hub_step cls (OpSetBroker b n) h = SetBroker b n h"

definition hub_run :: "(cref \<Rightarrow> Client) \<Rightarrow> hub_op list \<Rightarrow> Hub \<Rightarrow> Hub" where
  "hub_run cls ops h = fold (hub_step cls) ops h"

interpretation registry_inv: transition_inv "\<lambda>h h'. \<exists>op. h' = hub_step cls op h" hub_ok
  for cls
proof
  fix h h'
  assume "\<exists>op. h' = hub_step cls op h" and "hub_ok h"
  then obtain op where h': "h' = hub_step cls op h" by blast
  with \<open>hub_ok h\<close> show "hub_ok h'" by (cases op) (simp_all add: hub_ok_ops)
qed

lemma hub_run_steps: "(\<lambda>h h'. \<exists>op. h' = hub_step cls op h)\<^sup>*\<^sup>* h (hub_run cls ops h)"
proof (induction ops arbitrary: h)
  case Nil
  then show ?case by (simp add: hub_run_def)
next
  case (Cons op ops)
  from Cons [of "hub_step cls op h"] show ?case
    by (auto simp: hub_run_def intro: converse_rtranclp_into_rtranclp)
qed

lemma hub_ok_run: "hub_ok h \<Longrightarrow> hub_ok (hub_run cls ops h)"
  by (rule registry_inv.steps_inv [OF hub_run_steps])

text \<open>
  after any history of registrations, unregistrations, joins and leaves,
  the index by room and the index by connection record the same memberships, neither holds an empty
  entry or a duplicate key, and no connection exceeds the room limit.
\<close>

theorem hub_registry_invariant: "hub_ok (hub_run cls ops (NewHub authorizer maxRooms))"
  by (rule hub_ok_run [OF hub_ok_new])

subsection \<open>The room limit\<close>

definition rooms_of :: "Hub \<Rightarrow> bytes \<Rightarrow> bytes set" where
  "rooms_of h connID = {r. nget (h_rooms h) r connID \<noteq> None}"

lemma rooms_of_index:
  assumes "hub_ok h"
  shows "rooms_of h k = (case mget (h_clientRooms h) k of None \<Rightarrow> {} | Some rs \<Rightarrow> set (mkeys rs))"
  using hub_okD(4) [OF assms, of _ k]
  by (auto simp: rooms_of_def nget_def [of "h_clientRooms h"] set_mkeys split: option.splits)

lemma card_rooms_of:
  assumes "hub_ok h"
  shows "int (card (rooms_of h k)) = (case mget (h_clientRooms h) k of None \<Rightarrow> 0 | Some rs \<Rightarrow> len rs)"
proof (cases "mget (h_clientRooms h) k")
  case None
  with rooms_of_index [OF assms, of k] show ?thesis by simp
next
  case (Some rs)
  with hub_okD(3) [OF assms] have "distinct (mkeys rs)" by (auto simp: nwf_def mwf_def)
  with Some rooms_of_index [OF assms, of k] show ?thesis
    using distinct_card [of "mkeys rs"] by (simp add: len_def mkeys_def)
qed

lemma hub_step_max [simp]: "h_maxRoomsPerClient (hub_step cls op h) = h_maxRoomsPerClient h"
  by (cases op) (auto simp: register_locked_def Join_def Leave_def SetBroker_def Let_def split: option.splits)

lemma hub_run_max [simp]: "h_maxRoomsPerClient (hub_run cls ops h) = h_maxRoomsPerClient h"
  by (induction ops arbitrary: h) (simp_all add: hub_run_def)

text \<open>
  C3: with a positive limit, after any history of the hub no connection is a member of more
  rooms than the limit, and a join that the authorizer allows is refused for the limit exactly when the
  connection is at it and the room is new.
\<close>

theorem room_limit_enforced:
  fixes cls :: "cref \<Rightarrow> Client"
  assumes "0 < maxRooms" and "h = hub_run cls ops (NewHub authorizer maxRooms)"
    and "AuthorizeJoin (h_authorizer h) (UserID (cls c)) roomID = None"
  shows "int (card (rooms_of h connID)) \<le> maxRooms \<and>
         (fst (Join cls c roomID h) = Some errRoomLimit) =
           (roomID \<notin> rooms_of h (ConnectionID (cls c)) \<and> int (card (rooms_of h (ConnectionID (cls c)))) = maxRooms)"
proof -
  have ok: "hub_ok h" unfolding assms(2) by (rule hub_ok_run [OF hub_ok_new])
  have m: "h_maxRoomsPerClient h = maxRooms" by (simp add: assms(2) NewHub_def)
  have le: "int (card (rooms_of h k)) \<le> maxRooms" for k
    using hub_okD(5) [OF ok] assms(1)
    by (auto simp: card_rooms_of [OF ok] rooms_capped_def m len_def split: option.splits)
  let ?k = "ConnectionID (cls c)"
  have "room_limit_hit ?k roomID h \<longleftrightarrow> roomID \<notin> rooms_of h ?k \<and> int (card (rooms_of h ?k)) = maxRooms"
    using le [of ?k] assms(1) card_rooms_of [OF ok, of ?k] rooms_of_index [OF ok, of ?k]
    by (auto simp: room_limit_hit_def m len_def set_mkeys split: option.splits)
  then show ?thesis using le assms(3) by (auto simp: Join_def Let_def errRoomLimit_def)
qed

definition sample_client :: "bytes \<Rightarrow> bytes \<Rightarrow> Client" where
  "sample_client connectionID userID =
     \<lparr>c_connection = Some new_socket, c_connectionID = connectionID, c_userID = userID, c_readTimeout = 0,
      c_writeTimeout = 0, c_onClose = Some 0, c_hub = Some 0, c_pingInterval = 0, c_maxMessageSize = 0,
      c_limiter = None, c_send = make_chan 4, c_closed = False, c_closeOnce = False\<rparr>"

definition sample_heap :: "cref \<Rightarrow> Client" where
  "sample_heap c =
     (if c = 0 then sample_client ''conn_0'' ''alice'' else if c = 1 then sample_client ''conn_1'' ''bob''
      else sample_client ''conn_2'' ''alice'')"

theorem room_limit_enforced_witness:
  "fst (Join sample_heap 0 ''b'' (hub_run sample_heap [OpJoin 0 ''a''] (NewHub AllowAllAuthorizer 1))) =
     Some errRoomLimit"
proof -
  let ?h = "hub_run sample_heap [OpJoin 0 ''a''] (NewHub AllowAllAuthorizer 1)"
  have a: "AuthorizeJoin (h_authorizer ?h) (UserID (sample_heap 0)) ''b'' = None" by code_simp
  have h: "h_rooms ?h = [(''a'', [(''conn_0'', 0)])]" by code_simp
  have c: "ConnectionID (sample_heap 0) = ''conn_0''" by code_simp
  have "rooms_of ?h ''conn_0'' = {''a''}" by (auto simp: rooms_of_def nget_def h)
  with c room_limit_enforced [OF _ refl a] show ?thesis by simp
qed

subsection \<open>Why a connection is a member\<close>

text \<open>
  The contract of a room registry, over an abstract state: \<open>enter\<close> may refuse but touches only its own
  pair, \<open>exit\<close> and \<open>drop_all\<close> remove exactly their pairs, \<open>other\<close> operations change no pair.
\<close>

datatype ('c, 'o) room_op = Enter 'c bytes | Exit 'c bytes | Drop 'c | Other 'o

locale room_registry =
  fixes ok :: "'s \<Rightarrow> bool"
    and member :: "'s \<Rightarrow> bytes \<Rightarrow> bytes \<Rightarrow> bool"
    and conn :: "'c \<Rightarrow> bytes"
    and enter :: "'c \<Rightarrow> bytes \<Rightarrow> 's \<Rightarrow> 's"
    and exit :: "'c \<Rightarrow> bytes \<Rightarrow> 's \<Rightarrow> 's"
    and drop_all :: "'c \<Rightarrow> 's \<Rightarrow> 's"
    and other :: "'o \<Rightarrow> 's \<Rightarrow> 's"
  assumes ok_enter: "ok s \<Longrightarrow> ok (enter c r s)"
    and ok_exit: "ok s \<Longrightarrow> ok (exit c r s)"
    and ok_drop: "ok s \<Longrightarrow> ok (drop_all c s)"
    and enter_sound: "ok s \<Longrightarrow> member (enter c r s) r' k \<Longrightarrow> member s r' k \<or> r' = r \<and> k = conn c"
    and enter_keeps: "ok s \<Longrightarrow> member s r' k \<Longrightarrow> member (enter c r s) r' k"
    and exit_eq: "ok s \<Longrightarrow> member (exit c r s) r' k \<longleftrightarrow> member s r' k \<and> \<not> (r' = r \<and> k = conn c)"
    and ok_other: "ok s \<Longrightarrow> ok (other x s)"
    and other_eq: "member (other x s) r' k \<longleftrightarrow> member s r' k"
    and drop_eq: "ok s \<Longrightarrow> member (drop_all c s) r' k \<longleftrightarrow> member s r' k \<and> k \<noteq> conn c"
begin

fun room_step :: "('c, 'o) room_op \<Rightarrow> 's \<Rightarrow> 's" where
  "room_step (Enter c r) s = enter c r s"
| "room_step (Exit c r) s = exit c r s"
| "room_step (Drop c) s = drop_all c s"
| "room_step (Other x) s = other x s"

fun removes :: "bytes \<Rightarrow> bytes \<Rightarrow> ('c, 'o) room_op \<Rightarrow> bool" where
  "removes r k (Enter c r') = False"
| "removes r k (Exit c r') = (r' = r \<and> conn c = k)"
| "removes r k (Drop c) = (conn c = k)"
| "removes r k (Other x) = False"

lemma ok_step: "ok s \<Longrightarrow> ok (room_step x s)"
  by (cases x) (simp_all add: ok_enter ok_exit ok_drop ok_other)

lemma ok_room_run: "ok s \<Longrightarrow> ok (fold room_step xs s)"
  by (induction xs arbitrary: s) (simp_all add: ok_step)

lemma removed_step: "ok s \<Longrightarrow> removes r k x \<Longrightarrow> \<not> member (room_step x s) r k"
  by (cases x) (auto simp: exit_eq drop_eq other_eq)

lemma keeps_step: "ok s \<Longrightarrow> \<not> removes r k x \<Longrightarrow> member s r k \<Longrightarrow> member (room_step x s) r k"
  by (cases x) (auto simp: exit_eq drop_eq other_eq enter_keeps)

lemma gains_step:
  "ok s \<Longrightarrow> member (room_step x s) r k \<Longrightarrow> member s r k \<or> (\<exists>c. x = Enter c r \<and> conn c = k)"
  by (cases x) (auto simp: exit_eq drop_eq other_eq dest: enter_sound)

lemma stays_member:
  "ok s \<Longrightarrow> member s r k \<Longrightarrow> \<forall>x \<in> set xs. \<not> removes r k x \<Longrightarrow> member (fold room_step xs s) r k"
  by (induction xs arbitrary: s) (auto simp: ok_step keeps_step)

text \<open>
  Membership is justified: either it was there from the start and nothing removed it, or some
  \<open>enter\<close> of that connection into that room took effect and nothing removed it afterwards.
\<close>

lemma member_justified:
  assumes "ok s" and "member (fold room_step xs s) r k"
  shows "(member s r k \<and> (\<forall>x \<in> set xs. \<not> removes r k x)) \<or>
         (\<exists>ys c zs. xs = ys @ Enter c r # zs \<and> conn c = k \<and> (\<forall>x \<in> set zs. \<not> removes r k x) \<and>
                    \<not> member (fold room_step ys s) r k \<and> member (enter c r (fold room_step ys s)) r k)"
  using assms(2)
proof (induction xs rule: rev_induct)
  case Nil
  then show ?case by simp
next
  case (snoc x xs)
  let ?s = "fold room_step xs s"
  have ok: "ok ?s" by (rule ok_room_run [OF assms(1)])
  have m: "member (room_step x ?s) r k" using snoc.prems by simp
  then have nr: "\<not> removes r k x" using removed_step [OF ok] by blast
  from gains_step [OF ok m] consider "member ?s r k" | c where "\<not> member ?s r k" "x = Enter c r" "conn c = k"
    by blast
  then show ?case
  proof cases
    case 1
    from snoc.IH [OF 1] show ?thesis
    proof
      assume "member s r k \<and> (\<forall>x \<in> set xs. \<not> removes r k x)"
      with nr show ?thesis by simp
    next
      assume "\<exists>ys c zs. xs = ys @ Enter c r # zs \<and> conn c = k \<and> (\<forall>x \<in> set zs. \<not> removes r k x) \<and>
                \<not> member (fold room_step ys s) r k \<and> member (enter c r (fold room_step ys s)) r k"
      then obtain ys c zs where "xs = ys @ Enter c r # zs" "conn c = k"
        "\<forall>x \<in> set zs. \<not> removes r k x" "\<not> member (fold room_step ys s) r k"
        "member (enter c r (fold room_step ys s)) r k" by blast
      with nr have "xs @ [x] = ys @ Enter c r # (zs @ [x]) \<and> conn c = k \<and>
        (\<forall>x \<in> set (zs @ [x]). \<not> removes r k x) \<and> \<not> member (fold room_step ys s) r k \<and>
        member (enter c r (fold room_step ys s)) r k" by simp
      then show ?thesis by blast
    qed
  next
    case 2
    with m have "xs @ [x] = xs @ Enter c r # [] \<and> conn c = k \<and> (\<forall>x \<in> set []. \<not> removes r k x) \<and>
      \<not> member (fold room_step xs s) r k \<and> member (enter c r (fold room_step xs s)) r k" by simp
    then show ?thesis by blast
  qed
qed

end

lemma nget_rooms_register [simp]: "h_rooms (snd (register_locked cls c h)) = h_rooms h"
  by (simp add: register_locked_def Let_def)

lemma nget_rooms_Join:
  "nget (h_rooms (snd (Join cls c r h))) r' k =
     (if fst (Join cls c r h) = None \<and> r' = r \<and> k = ConnectionID (cls c) then Some c else nget (h_rooms h) r' k)"
  by (auto simp: Join_def Let_def split: option.splits)

lemma nget_rooms_Leave:
  "nget (h_rooms (Leave cls c r h)) r' k =
     (if r' = r \<and> k = ConnectionID (cls c) then None else nget (h_rooms h) r' k)"
  by (simp add: Leave_def Let_def)

definition is_member :: "Hub \<Rightarrow> bytes \<Rightarrow> bytes \<Rightarrow> bool" where
  "is_member h roomID connID = (nget (h_rooms h) roomID connID \<noteq> None)"

fun other_step :: "(cref \<Rightarrow> Client) \<Rightarrow> hub_op \<Rightarrow> Hub \<Rightarrow> Hub" where
  "other_step cls (OpRegister c) h = snd (register_locked cls c h)"
| "other_step cls (OpSetBroker b n) h = SetBroker b n h"
| "other_step cls _ h = h"

fun to_room_op :: "hub_op \<Rightarrow> (cref, hub_op) room_op" where
  "to_room_op (OpJoin c r) = Enter c r"
| "to_room_op (OpLeave c r) = Exit c r"
| "to_room_op (OpUnregister c) = Drop c"
| "to_room_op x = Other x"

lemma other_step_ok: "hub_ok h \<Longrightarrow> hub_ok (other_step cls x h)"
  and other_step_rooms: "h_rooms (other_step cls x h) = h_rooms h"
  by (cases x; simp add: hub_ok_ops SetBroker_def [THEN arg_cong [of _ _ h_rooms]])+

interpretation hub_rooms: room_registry hub_ok is_member "\<lambda>c. ConnectionID (cls c)"
  "\<lambda>c r h. snd (Join cls c r h)" "\<lambda>c r h. Leave cls c r h" "\<lambda>c h. snd (Unregister cls c h)" "other_step cls"
  for cls
  by unfold_locales
    (auto simp: is_member_def hub_ok_ops nget_rooms_Join nget_rooms_Leave Unregister_effect
      other_step_ok other_step_rooms split: if_splits)

lemma hub_step_room: "hub_step cls x = hub_rooms.room_step cls (to_room_op x)"
  by (cases x) (auto simp: fun_eq_iff)

lemma hub_run_room: "hub_run cls ops = fold (hub_rooms.room_step cls) (map to_room_op ops)"
proof -
  have "hub_step cls = (\<lambda>x. hub_rooms.room_step cls (to_room_op x))" by (rule ext) (rule hub_step_room)
  then show ?thesis by (intro ext) (simp only: hub_run_def fold_map o_def)
qed

text \<open>The operations that end the membership of a connection in a room.\<close>

fun removes_member :: "(cref \<Rightarrow> Client) \<Rightarrow> bytes \<Rightarrow> bytes \<Rightarrow> hub_op \<Rightarrow> bool" where
  "removes_member cls r k (OpLeave c r') = (r' = r \<and> ConnectionID (cls c) = k)"
| "removes_member cls r k (OpUnregister c) = (ConnectionID (cls c) = k)"
| "removes_member cls r k _ = False"

lemma removes_member_room: "removes_member cls r k x = hub_rooms.removes cls r k (to_room_op x)"
  by (cases x) auto

lemma Join_member: "fst (Join cls c r h) = None \<Longrightarrow> is_member (snd (Join cls c r h)) r (ConnectionID (cls c))"
  by (simp add: is_member_def nget_rooms_Join)

lemma to_room_op_Enter: "to_room_op x = Enter c r \<longleftrightarrow> x = OpJoin c r"
  by (cases x) auto

text \<open>
  C11: a connection is a member of a room exactly when some accepted \<open>Join\<close> of it
  into that room was followed by neither a \<open>Leave\<close> of that room nor an \<open>Unregister\<close> of that
  connection.
\<close>

theorem membership_justified:
  "is_member (hub_run cls ops (NewHub authorizer maxRooms)) roomID connID =
     (\<exists>before c after. ops = before @ OpJoin c roomID # after \<and> ConnectionID (cls c) = connID \<and>
        fst (Join cls c roomID (hub_run cls before (NewHub authorizer maxRooms))) = None \<and>
        list_all (\<lambda>x. \<not> removes_member cls roomID connID x) after)"
  (is "?l = ?r")
proof
  let ?h = "NewHub authorizer maxRooms"
  assume ?l
  have new: "\<not> is_member ?h roomID connID" by (simp add: is_member_def NewHub_def)
  from hub_rooms.member_justified [OF hub_ok_new, of cls "map to_room_op ops"] \<open>?l\<close> new
  obtain ys c zs where "map to_room_op ops = ys @ Enter c roomID # zs" and c: "ConnectionID (cls c) = connID"
    and zs: "\<forall>x \<in> set zs. \<not> hub_rooms.removes cls roomID connID x"
    and old: "\<not> is_member (fold (hub_rooms.room_step cls) ys ?h) roomID connID"
    and m: "is_member (snd (Join cls c roomID (fold (hub_rooms.room_step cls) ys ?h))) roomID connID"
    unfolding hub_run_room by blast
  then obtain b x a where ops: "ops = b @ x # a" "ys = map to_room_op b" "to_room_op x = Enter c roomID"
    "zs = map to_room_op a"
    by (auto simp: map_eq_append_conv)
  from m old have "fst (Join cls c roomID (hub_run cls b ?h)) = None"
    unfolding hub_run_room ops(2) is_member_def nget_rooms_Join by (auto split: if_splits)
  with ops c zs show ?r
    by (intro exI [of _ b] exI [of _ c] exI [of _ a])
      (auto simp: to_room_op_Enter list_all_iff removes_member_room)
next
  let ?h = "NewHub authorizer maxRooms"
  assume ?r
  then obtain b c a where ops: "ops = b @ OpJoin c roomID # a" "ConnectionID (cls c) = connID"
    and joined: "fst (Join cls c roomID (hub_run cls b ?h)) = None"
    and a: "list_all (\<lambda>x. \<not> removes_member cls roomID connID x) a" by blast
  let ?j = "snd (Join cls c roomID (hub_run cls b ?h))"
  have "hub_ok ?j" by (intro hub_ok_Join hub_ok_run hub_ok_new)
  moreover have "is_member ?j roomID connID" using Join_member [OF joined] ops(2) by simp
  moreover have "\<forall>x \<in> set (map to_room_op a). \<not> hub_rooms.removes cls roomID connID x"
    using a by (simp add: list_all_iff removes_member_room)
  ultimately have "is_member (fold (hub_rooms.room_step cls) (map to_room_op a) ?j) roomID connID"
    by (rule hub_rooms.stays_member)
  then show ?l by (simp add: ops(1) hub_run_room)
qed

subsection \<open>The session that owns a user\<close>

text \<open>
  registering a second session for a user makes it the one that is
  looked up and returns the session it replaced; the cleanup of the replaced session reports that it was
  no longer current, removes its rooms and leaves its successor registered.
\<close>

theorem register_successor_survives:
  assumes "hub_ok h" and "old \<noteq> new" and "UserID (cls new) = UserID (cls old)"
    and "Lookup (UserID (cls old)) h = Some old"
  shows "(case register_locked cls new h of
            (replaced, h1) \<Rightarrow>
              replaced = Some old \<and> Lookup (UserID (cls new)) h1 = Some new \<and> Count h1 = Count h \<and>
              (case Unregister cls old h1 of
                 (current, h2) \<Rightarrow>
                   \<not> current \<and> Lookup (UserID (cls new)) h2 = Some new \<and> Count h2 = Count h \<and>
                   rooms_of h2 (ConnectionID (cls old)) = {}))"
proof -
  obtain rep h1 where r: "register_locked cls new h = (rep, h1)" by fastforce
  obtain cur h2 where u: "Unregister cls old h1 = (cur, h2)" by fastforce
  have ok: "hub_ok h1" using hub_ok_register [OF assms(1), of cls new] r by simp
  have l: "mget (h_clients h1) (UserID (cls new)) = Some new"
    and rep: "rep = Some old" and n: "length (h_clients h1) = length (h_clients h)"
    using r assms(3,4) by (auto simp: register_locked_def Let_def Lookup_def length_mset_key)
  have "h_clients h2 = h_clients h1"
    using u l assms(2,3) by (auto simp: Unregister_def Let_def split: option.splits if_splits)
  moreover have "\<not> cur" using Unregister_effect(4) [OF ok, of cls old] u l assms(2,3) by simp
  moreover have "rooms_of h2 (ConnectionID (cls old)) = {}"
    using Unregister_effect(1) [OF ok, of cls old] u by (simp add: rooms_of_def)
  ultimately show ?thesis using r u l rep n by (simp add: Lookup_def Count_def len_def)
qed

theorem register_successor_survives_witness:
  "fst (Unregister sample_heap 0 (hub_run sample_heap [OpRegister 0, OpJoin 0 ''a'', OpRegister 2]
     (NewHub AllowAllAuthorizer 5))) = False"
proof -
  let ?h = "hub_run sample_heap [OpRegister 0, OpJoin 0 ''a''] (NewHub AllowAllAuthorizer 5)"
  have ok: "hub_ok ?h" by (rule hub_ok_run [OF hub_ok_new])
  have u: "UserID (sample_heap 2) = UserID (sample_heap 0)" by code_simp
  have l: "Lookup (UserID (sample_heap 0)) ?h = Some 0" by code_simp
  have "hub_run sample_heap [OpRegister 0, OpJoin 0 ''a'', OpRegister 2] (NewHub AllowAllAuthorizer 5) =
        snd (register_locked sample_heap 2 ?h)" by (simp add: hub_run_def)
  with register_successor_survives [where cls = sample_heap, OF ok _ u l] show ?thesis
    by (auto split: prod.splits)
qed

subsection \<open>Refinement to the abstract registry\<close>

text \<open>
  What the registry means: one session per user and one session per pair of room and connection. The
  index by connection, the empty-room cleanup and the log are implementation.
\<close>

record abs_hub =
  ah_sessions :: "bytes \<Rightarrow> cref option"
  ah_rooms :: "bytes \<times> bytes \<Rightarrow> cref option"

definition abs :: "Hub \<Rightarrow> abs_hub" where
  "abs h = \<lparr>ah_sessions = mget (h_clients h), ah_rooms = (\<lambda>(r, k). nget (h_rooms h) r k)\<rparr>"

definition may_join :: "Authorizer \<Rightarrow> int \<Rightarrow> Client \<Rightarrow> bytes \<Rightarrow> abs_hub \<Rightarrow> bool" where
  "may_join authorizer limit c r a =
     (AuthorizeJoin authorizer (UserID c) r = None \<and>
      (limit \<le> 0 \<or> ah_rooms a (r, ConnectionID c) \<noteq> None \<or>
       int (card {r'. ah_rooms a (r', ConnectionID c) \<noteq> None}) < limit))"

fun abs_step :: "(cref \<Rightarrow> Client) \<Rightarrow> Authorizer \<Rightarrow> int \<Rightarrow> hub_op \<Rightarrow> abs_hub \<Rightarrow> abs_hub" where
  "abs_step cls authorizer limit (OpRegister c) a =
     a\<lparr>ah_sessions := (ah_sessions a)(UserID (cls c) \<mapsto> c)\<rparr>"
| "abs_step cls authorizer limit (OpUnregister c) a =
     a\<lparr>ah_sessions := (if ah_sessions a (UserID (cls c)) = Some c then (ah_sessions a)(UserID (cls c) := None)
                       else ah_sessions a),
       ah_rooms := (\<lambda>(r, k). if k = ConnectionID (cls c) then None else ah_rooms a (r, k))\<rparr>"
| "abs_step cls authorizer limit (OpJoin c r) a =
     (if may_join authorizer limit (cls c) r a
      then a\<lparr>ah_rooms := (ah_rooms a)((r, ConnectionID (cls c)) \<mapsto> c)\<rparr> else a)"
| "abs_step cls authorizer limit (OpLeave c r) a =
     a\<lparr>ah_rooms := (ah_rooms a)((r, ConnectionID (cls c)) := None)\<rparr>"
| "abs_step cls authorizer limit (OpSetBroker b n) a = a"

lemma Join_accepts:
  assumes "hub_ok h"
  shows "(fst (Join cls c r h) = None) =
           may_join (h_authorizer h) (h_maxRoomsPerClient h) (cls c) r (abs h)"
proof -
  let ?k = "ConnectionID (cls c)"
  have s: "{r'. nget (h_rooms h) r' ?k \<noteq> None} = rooms_of h ?k" by (simp add: rooms_of_def)
  have "room_limit_hit ?k r h \<longleftrightarrow>
        0 < h_maxRoomsPerClient h \<and> r \<notin> rooms_of h ?k \<and> h_maxRoomsPerClient h \<le> int (card (rooms_of h ?k))"
    using card_rooms_of [OF assms, of ?k] rooms_of_index [OF assms, of ?k]
    by (auto simp: room_limit_hit_def set_mkeys split: option.splits)
  then show ?thesis
    by (auto simp: Join_def Let_def may_join_def abs_def s rooms_of_def split: option.splits)
qed

lemma hub_step_frame [simp, frame_laws]: "h_authorizer (hub_step cls op h) = h_authorizer h"
  by (cases op) (auto simp: register_locked_def Join_def Leave_def SetBroker_def Let_def split: option.splits)

lemma abs_hub_step:
  assumes "hub_ok h"
  shows "abs (hub_step cls op h) = abs_step cls (h_authorizer h) (h_maxRoomsPerClient h) op (abs h)"
proof (cases op)
  case (OpRegister c)
  then show ?thesis by (simp add: abs_def register_locked_def Let_def fun_eq_iff)
next
  case (OpUnregister c)
  then show ?thesis by (auto simp: abs_def Unregister_effect [OF assms] fun_eq_iff)
next
  case (OpJoin c r)
  have "h_clients (snd (Join cls c r h)) = h_clients h"
    by (auto simp: Join_def Let_def split: option.splits)
  with OpJoin Join_accepts [OF assms, of cls c r] show ?thesis
    by (auto simp: abs_def nget_rooms_Join fun_eq_iff)
next
  case (OpLeave c r)
  then show ?thesis by (auto simp: abs_def Leave_def Let_def fun_eq_iff)
next
  case (OpSetBroker b n)
  then show ?thesis by (simp add: abs_def SetBroker_def)
qed

lemma abs_hub_run:
  "hub_ok h \<Longrightarrow> abs (hub_run cls ops h) = fold (abs_step cls (h_authorizer h) (h_maxRoomsPerClient h)) ops (abs h)"
proof (induction ops arbitrary: h)
  case Nil
  then show ?case by (simp add: hub_run_def)
next
  case (Cons op ops)
  have "hub_ok (hub_step cls op h)" using Cons.prems by (cases op) (simp_all add: hub_ok_ops)
  from Cons.IH [OF this] abs_hub_step [OF Cons.prems] show ?case by (simp add: hub_run_def)
qed

text \<open>
  C10: the hub implements the abstract registry: after any history its three maps
  denote exactly the abstract state the same history produces.
\<close>

theorem hub_refines_registry:
  "abs (hub_run cls ops (NewHub authorizer limit)) =
     fold (abs_step cls authorizer limit) ops \<lparr>ah_sessions = (\<lambda>u. None), ah_rooms = (\<lambda>p. None)\<rparr>"
proof -
  have "abs (NewHub authorizer limit) = \<lparr>ah_sessions = (\<lambda>u. None), ah_rooms = (\<lambda>p. None)\<rparr>"
    by (auto simp: abs_def NewHub_def)
  then show ?thesis using abs_hub_run [OF hub_ok_new, of cls ops authorizer limit] by (simp add: NewHub_def)
qed

subsection \<open>Recipients of a broadcast\<close>

definition refs_ok :: "(cref \<Rightarrow> Client) \<Rightarrow> Hub \<Rightarrow> bool" where
  "refs_ok cls h =
     ((\<forall>r k c. nget (h_rooms h) r k = Some c \<longrightarrow> ConnectionID (cls c) = k) \<and>
      (\<forall>u c. mget (h_clients h) u = Some c \<longrightarrow> UserID (cls c) = u))"

lemma refs_ok_new: "refs_ok cls (NewHub a n)"
  by (simp add: refs_ok_def NewHub_def)

lemma refs_ok_step:
  assumes "hub_ok h" and "refs_ok cls h"
  shows "refs_ok cls (hub_step cls op h)"
proof (cases op)
  case (OpUnregister c)
  let ?h = "snd (Unregister cls c h)"
  have "nget (h_rooms h) r k = Some x" if "nget (h_rooms ?h) r k = Some x" for r k x
    using that by (simp add: Unregister_effect(1) [OF assms(1)] split: if_splits)
  moreover have "mget (h_clients h) u = Some x" if "mget (h_clients ?h) u = Some x" for u x
    using that by (simp add: Unregister_effect(3) [OF assms(1)] split: if_splits)
  ultimately show ?thesis using assms(2) unfolding refs_ok_def OpUnregister hub_step.simps by blast
next
  case (OpJoin c r)
  have "h_clients (snd (Join cls c r h)) = h_clients h"
    by (auto simp: Join_def Let_def split: option.splits)
  with OpJoin assms(2) show ?thesis by (auto simp: refs_ok_def nget_rooms_Join)
qed (use assms(2) in \<open>auto simp: refs_ok_def register_locked_def Leave_def SetBroker_def Let_def\<close>)

lemma refs_ok_run: "hub_ok h \<Longrightarrow> refs_ok cls h \<Longrightarrow> refs_ok cls (hub_run cls ops h)"
proof (induction ops arbitrary: h)
  case (Cons op ops)
  have "hub_ok (hub_step cls op h)" using Cons.prems(1) by (cases op) (simp_all add: hub_ok_ops)
  with Cons refs_ok_step [of h cls op] show ?case by (simp add: hub_run_def)
qed (simp add: hub_run_def)

lemma map_filter_mget:
  assumes "mwf m" and "distinct ks" and "set ks = set (mkeys m)"
  shows "List.map_filter (mget m) ks = map (\<lambda>k. the (mget m k)) ks"
    and "set (List.map_filter (mget m) ks) = {v. \<exists>k. mget m k = Some v}"
proof -
  have d: "k \<in> set ks \<longleftrightarrow> mget m k \<noteq> None" for k using assms(3) by (auto simp: set_mkeys)
  then show eq: "List.map_filter (mget m) ks = map (\<lambda>k. the (mget m k)) ks"
    by (intro map_filter_total) auto
  show "set (List.map_filter (mget m) ks) = {v. \<exists>k. mget m k = Some v}"
    unfolding List.map_filter_def using d by (force simp: image_iff)
qed

lemma recipients_exact:
  assumes "hub_ok h" and "refs_ok cls h"
  shows "(case recipients pick cls senderID roomID h of
            None \<Rightarrow> \<forall>k. \<not> is_member h roomID k
          | Some cs \<Rightarrow> distinct cs \<and>
              set cs = {c. (\<exists>k. nget (h_rooms h) roomID k = Some c) \<and> UserID (cls c) \<noteq> senderID})"
proof (cases "mget (h_rooms h) roomID")
  case None
  then show ?thesis by (simp add: recipients_def is_member_def nget_def)
next
  case (Some m)
  with hub_okD(2) [OF assms(1)] have m: "mwf m" "m \<noteq> []" by (auto simp: nwf_def)
  let ?ks = "range_order pick (mkeys m)"
  have ks: "distinct ?ks" "set ?ks = set (mkeys m)" using m(1) by (auto simp: mwf_def)
  have n: "nget (h_rooms h) roomID k = mget m k" for k by (simp add: nget_def Some)
  have "inj_on (\<lambda>k. the (mget m k)) (set ?ks)"
  proof (rule inj_onI)
    fix k k'
    assume k: "k \<in> set ?ks" "k' \<in> set ?ks" and eq: "the (mget m k) = the (mget m k')"
    then obtain c where c: "mget m k = Some c" "mget m k' = Some c" by (auto simp: set_mkeys)
    then have "ConnectionID (cls c) = k" "ConnectionID (cls c) = k'"
      using assms(2) unfolding refs_ok_def by (metis n)+
    then show "k = k'" by simp
  qed
  then have "distinct (List.map_filter (mget m) ?ks)"
    using ks(1) unfolding map_filter_mget(1) [OF m(1) ks] by (simp only: distinct_map)
  then show ?thesis using Some m(2) map_filter_mget(2) [OF m(1) ks] by (auto simp: recipients_def n)
qed

text \<open>
  in any state the hub can reach, the recipients a broadcast is enqueued to
  are exactly the sessions in the room whose user is not the sender, each once; there is an early return
  exactly when the room has no member.
\<close>

theorem broadcast_recipients_exact:
  "(case recipients pick cls senderID roomID (hub_run cls ops (NewHub authorizer limit)) of
      None \<Rightarrow> \<forall>k. \<not> is_member (hub_run cls ops (NewHub authorizer limit)) roomID k
    | Some cs \<Rightarrow> distinct cs \<and>
        set cs = {c. (\<exists>k. nget (h_rooms (hub_run cls ops (NewHub authorizer limit))) roomID k = Some c) \<and>
                     UserID (cls c) \<noteq> senderID})"
  by (intro recipients_exact hub_ok_run hub_ok_new refs_ok_run refs_ok_new)

end
