(* ===== verification/Metrics.thy ===== *)
theory Metrics
  imports Prelude "HOL-Library.Word" "HOL-Library.Signed_Division"
begin

text \<open>
  The process-wide counters of \<open>internal/observability/metrics.go\<close>. Every counter is an
  \<open>atomic.Int64\<close>, a 64-bit word whose \<open>Add\<close> wraps around; \<open>sint\<close> reads it as the
  signed value Go compares and divides.
\<close>

type_synonym int64 = "64 word"

record Metrics =
  ActiveConnections :: int64
  UpgradesAttempted :: int64
  UpgradesRejected :: int64
  HeartbeatTimeouts :: int64
  QueueFullDisconnects :: int64
  MessagesReceived :: int64
  MessagesSent :: int64
  InboundJoinCount :: int64
  InboundLeaveCount :: int64
  InboundBroadcastCount :: int64
  InboundPrivateCount :: int64
  InboundUnknownCount :: int64
  InboundSuccessCount :: int64
  InboundErrorCount :: int64
  MaxQueueDepth :: int64
  ProcessingLatencyTotalNs :: int64
  ProcessingLatencyCount :: int64
  BrokerPublishCount :: int64
  BrokerReceiveCount :: int64
  BrokerPublishErrors :: int64

definition DefaultMetrics :: Metrics where
  "DefaultMetrics =
     \<lparr>ActiveConnections = 0, UpgradesAttempted = 0, UpgradesRejected = 0, HeartbeatTimeouts = 0,
      QueueFullDisconnects = 0, MessagesReceived = 0, MessagesSent = 0, InboundJoinCount = 0,
      InboundLeaveCount = 0, InboundBroadcastCount = 0, InboundPrivateCount = 0,
      InboundUnknownCount = 0, InboundSuccessCount = 0, InboundErrorCount = 0, MaxQueueDepth = 0,
      ProcessingLatencyTotalNs = 0, ProcessingLatencyCount = 0, BrokerPublishCount = 0,
      BrokerReceiveCount = 0, BrokerPublishErrors = 0\<rparr>"

record MetricsSnapshot =
  sn_ActiveConnections :: int
  sn_UpgradesAttempted :: int
  sn_UpgradesRejected :: int
  sn_HeartbeatTimeouts :: int
  sn_QueueFullDisconnects :: int
  sn_MessagesReceived :: int
  sn_MessagesSent :: int
  sn_RoomJoin :: int
  sn_RoomLeave :: int
  sn_RoomBroadcast :: int
  sn_PrivateSend :: int
  sn_Unknown :: int
  sn_Success :: int
  sn_Error :: int
  sn_MaxQueueDepth :: int
  sn_TotalNs :: int
  sn_Count :: int
  sn_AverageNs :: int
  sn_BrokerPublishCount :: int
  sn_BrokerReceiveCount :: int
  sn_BrokerPublishErrors :: int

subsection \<open>Operations\<close>

definition Snapshot_metrics :: "Metrics \<Rightarrow> MetricsSnapshot" where
  "Snapshot_metrics m =
     \<lparr>sn_ActiveConnections = sint (ActiveConnections m),
      sn_UpgradesAttempted = sint (UpgradesAttempted m),
      sn_UpgradesRejected = sint (UpgradesRejected m),
      sn_HeartbeatTimeouts = sint (HeartbeatTimeouts m),
      sn_QueueFullDisconnects = sint (QueueFullDisconnects m),
      sn_MessagesReceived = sint (MessagesReceived m),
      sn_MessagesSent = sint (MessagesSent m),
      sn_RoomJoin = sint (InboundJoinCount m),
      sn_RoomLeave = sint (InboundLeaveCount m),
      sn_RoomBroadcast = sint (InboundBroadcastCount m),
      sn_PrivateSend = sint (InboundPrivateCount m),
      sn_Unknown = sint (InboundUnknownCount m),
      sn_Success = sint (InboundSuccessCount m),
      sn_Error = sint (InboundErrorCount m),
      sn_MaxQueueDepth = sint (MaxQueueDepth m),
      sn_TotalNs = sint (ProcessingLatencyTotalNs m),
      sn_Count = sint (ProcessingLatencyCount m),
      sn_AverageNs =
        (if 0 < sint (ProcessingLatencyCount m)
         then sint (ProcessingLatencyTotalNs m) sdiv sint (ProcessingLatencyCount m) else 0),
      sn_BrokerPublishCount = sint (BrokerPublishCount m),
      sn_BrokerReceiveCount = sint (BrokerReceiveCount m),
      sn_BrokerPublishErrors = sint (BrokerPublishErrors m)\<rparr>"

definition IncrementActiveConnections :: "Metrics \<Rightarrow> Metrics" where
  "IncrementActiveConnections m = m\<lparr>ActiveConnections := ActiveConnections m + 1\<rparr>"

definition DecrementActiveConnections :: "Metrics \<Rightarrow> Metrics" where
  "DecrementActiveConnections m = m\<lparr>ActiveConnections := ActiveConnections m + (- 1)\<rparr>"

definition IncrementUpgradesAttempted :: "Metrics \<Rightarrow> Metrics" where
  "IncrementUpgradesAttempted m = m\<lparr>UpgradesAttempted := UpgradesAttempted m + 1\<rparr>"

definition IncrementUpgradesRejected :: "Metrics \<Rightarrow> Metrics" where
  "IncrementUpgradesRejected m = m\<lparr>UpgradesRejected := UpgradesRejected m + 1\<rparr>"

definition IncrementHeartbeatTimeouts :: "Metrics \<Rightarrow> Metrics" where
  "IncrementHeartbeatTimeouts m = m\<lparr>HeartbeatTimeouts := HeartbeatTimeouts m + 1\<rparr>"

definition IncrementQueueFullDisconnects :: "Metrics \<Rightarrow> Metrics" where
  "IncrementQueueFullDisconnects m = m\<lparr>QueueFullDisconnects := QueueFullDisconnects m + 1\<rparr>"

definition IncrementMessagesReceived :: "Metrics \<Rightarrow> Metrics" where
  "IncrementMessagesReceived m = m\<lparr>MessagesReceived := MessagesReceived m + 1\<rparr>"

definition IncrementMessagesSent :: "Metrics \<Rightarrow> Metrics" where
  "IncrementMessagesSent m = m\<lparr>MessagesSent := MessagesSent m + 1\<rparr>"

definition IncrementInboundType :: "bytes \<Rightarrow> Metrics \<Rightarrow> Metrics" where
  "IncrementInboundType msgType m =
     (if msgType = ''room.join'' then m\<lparr>InboundJoinCount := InboundJoinCount m + 1\<rparr>
      else if msgType = ''room.leave'' then m\<lparr>InboundLeaveCount := InboundLeaveCount m + 1\<rparr>
      else if msgType = ''room.broadcast'' then m\<lparr>InboundBroadcastCount := InboundBroadcastCount m + 1\<rparr>
      else if msgType = ''private.send'' then m\<lparr>InboundPrivateCount := InboundPrivateCount m + 1\<rparr>
      else m\<lparr>InboundUnknownCount := InboundUnknownCount m + 1\<rparr>)"

definition IncrementInboundResult :: "bool \<Rightarrow> Metrics \<Rightarrow> Metrics" where
  "IncrementInboundResult success m =
     (if success then m\<lparr>InboundSuccessCount := InboundSuccessCount m + 1\<rparr>
      else m\<lparr>InboundErrorCount := InboundErrorCount m + 1\<rparr>)"

text \<open>
  The compare-and-swap loop as one atomic action; \<open>QueueDepth\<close> has the loop itself and shows that any number
  of concurrent loops behave like such actions.
\<close>

fun UpdateMaxQueueDepth :: "int64 \<Rightarrow> Metrics \<Rightarrow> Metrics" where
  "UpdateMaxQueueDepth depth m =
     (if sint depth \<le> sint (MaxQueueDepth m) then m else m\<lparr>MaxQueueDepth := depth\<rparr>)"

definition RecordProcessingLatency :: "int64 \<Rightarrow> Metrics \<Rightarrow> Metrics" where
  "RecordProcessingLatency d m =
     (let ns = (if sint d \<le> 0 then 1 else d) in
      m\<lparr>ProcessingLatencyTotalNs := ProcessingLatencyTotalNs m + ns,
        ProcessingLatencyCount := ProcessingLatencyCount m + 1\<rparr>)"

definition IncrementBrokerPublishCount :: "Metrics \<Rightarrow> Metrics" where
  "IncrementBrokerPublishCount m = m\<lparr>BrokerPublishCount := BrokerPublishCount m + 1\<rparr>"

definition IncrementBrokerReceiveCount :: "Metrics \<Rightarrow> Metrics" where
  "IncrementBrokerReceiveCount m = m\<lparr>BrokerReceiveCount := BrokerReceiveCount m + 1\<rparr>"

definition IncrementBrokerPublishErrors :: "Metrics \<Rightarrow> Metrics" where
  "IncrementBrokerPublishErrors m = m\<lparr>BrokerPublishErrors := BrokerPublishErrors m + 1\<rparr>"

lemmas metric_defs =
  IncrementActiveConnections_def DecrementActiveConnections_def IncrementUpgradesAttempted_def
  IncrementUpgradesRejected_def IncrementHeartbeatTimeouts_def IncrementQueueFullDisconnects_def
  IncrementMessagesReceived_def IncrementMessagesSent_def IncrementInboundType_def
  IncrementInboundResult_def RecordProcessingLatency_def IncrementBrokerPublishCount_def
  IncrementBrokerReceiveCount_def IncrementBrokerPublishErrors_def

subsection \<open>Accounting of inbound messages\<close>

text \<open>
  The three views of one processed frame (its type, its outcome, its latency) count the same frames.
  The equality is one of 64-bit words and so survives wrap-around.
\<close>

definition inbound_total :: "Metrics \<Rightarrow> int64" where
  "inbound_total m = InboundJoinCount m + InboundLeaveCount m + InboundBroadcastCount m +
     InboundPrivateCount m + InboundUnknownCount m"

definition inbound_balanced :: "Metrics \<Rightarrow> bool" where
  "inbound_balanced m =
     (inbound_total m = InboundSuccessCount m + InboundErrorCount m \<and>
      inbound_total m = ProcessingLatencyCount m)"

definition finish_frame :: "int64 \<Rightarrow> bytes \<Rightarrow> bool \<Rightarrow> Metrics \<Rightarrow> Metrics" where
  "finish_frame elapsed msgType success m =
     IncrementInboundResult success (IncrementInboundType msgType (RecordProcessingLatency elapsed m))"

lemma inbound_balanced_finish [simp]:
  "inbound_balanced (finish_frame d t ok m) = inbound_balanced m"
  "inbound_total (finish_frame d t ok m) = inbound_total m + 1"
  by (simp_all add: finish_frame_def inbound_balanced_def inbound_total_def IncrementInboundResult_def
      IncrementInboundType_def RecordProcessingLatency_def Let_def add.commute add.left_commute)

subsection \<open>Latency\<close>

definition ns_of :: "int64 \<Rightarrow> int" where
  "ns_of d = max 1 (sint d)"

definition record_all :: "int64 list \<Rightarrow> Metrics \<Rightarrow> Metrics" where
  "record_all ds m = fold RecordProcessingLatency ds m"

lemma record_all_words:
  "ProcessingLatencyCount (record_all ds m) = ProcessingLatencyCount m + of_nat (length ds) \<and>
   ProcessingLatencyTotalNs (record_all ds m) = ProcessingLatencyTotalNs m + of_int (sum_list (map ns_of ds))"
  by (induction ds arbitrary: m)
    (auto simp: record_all_def RecordProcessingLatency_def Let_def ns_of_def max_def algebra_simps)

lemma sint_of_int_small: "0 \<le> k \<Longrightarrow> k < 2 ^ 63 \<Longrightarrow> sint (of_int k :: int64) = k"
  by (simp add: signed_of_int signed_take_bit_int_eq_self)

lemma length_le_ns: "int (length ds) \<le> sum_list (map ns_of ds)"
  by (induction ds) (auto simp: ns_of_def)

text \<open>
  after a series of frames whose total processing time fits 63 bits, the snapshot
  reports their number, their total (a non-positive measurement counts as one nanosecond), and an
  average that is the truncated mean and at least one nanosecond.
\<close>

theorem Snapshot_latency:
  assumes "ds \<noteq> []" and "sum_list (map ns_of ds) < 2 ^ 63"
  shows "sn_Count (Snapshot_metrics (record_all ds DefaultMetrics)) = int (length ds) \<and>
         sn_TotalNs (Snapshot_metrics (record_all ds DefaultMetrics)) = sum_list (map ns_of ds) \<and>
         sn_AverageNs (Snapshot_metrics (record_all ds DefaultMetrics)) =
           sum_list (map ns_of ds) div int (length ds) \<and>
         1 \<le> sn_AverageNs (Snapshot_metrics (record_all ds DefaultMetrics))"
proof -
  let ?t = "sum_list (map ns_of ds)" and ?m = "record_all ds DefaultMetrics"
  have n: "0 < int (length ds)" using assms(1) by simp
  have le: "int (length ds) \<le> ?t" by (rule length_le_ns)
  have "sint (ProcessingLatencyCount ?m) = int (length ds)"
    using record_all_words [of ds DefaultMetrics] sint_of_int_small [of "int (length ds)"] le assms(2)
    by (simp add: DefaultMetrics_def)
  moreover have "sint (ProcessingLatencyTotalNs ?m) = ?t"
    using record_all_words [of ds DefaultMetrics] sint_of_int_small [of ?t] le n assms(2)
    by (simp add: DefaultMetrics_def)
  moreover have "?t sdiv int (length ds) = ?t div int (length ds)"
    using n le by (simp add: signed_divide_int_def sgn_if)
  moreover have "1 \<le> ?t div int (length ds)"
    using n le by (simp add: pos_imp_zdiv_pos_iff int_one_le_iff_zero_less)
  ultimately show ?thesis using n by (simp add: Snapshot_metrics_def)
qed

theorem Snapshot_latency_witness:
  "[5, 0, 7] \<noteq> ([] :: int64 list) \<and> sum_list (map ns_of [5, 0, 7]) < 2 ^ 63 \<and>
   sn_AverageNs (Snapshot_metrics (record_all [5, 0, 7] DefaultMetrics)) = 4"
  using Snapshot_latency [of "[5, 0, 7]"] by (simp add: ns_of_def)

end
