(* ===== verification/GoText.thy ===== *)
theory GoText
  imports Prelude
begin

text \<open>
  The parts of Go's \<open>strings\<close>, \<open>bytes\<close>, \<open>strconv\<close> and \<open>encoding/hex\<close> packages
  that the service uses, on byte lists: \<open>TrimSpace\<close> (with the Unicode white space of
  \<open>unicode.IsSpace\<close> in its UTF-8 form), prefix and suffix tests, \<open>Split\<close>,
  \<open>Contains\<close>, hexadecimal encoding and decimal integers of a bounded width.
\<close>

subsection \<open>Bytes\<close>

abbreviation byte :: "nat \<Rightarrow> char" where
  "byte n \<equiv> char_of n"

abbreviation code :: "char \<Rightarrow> nat" where
  "code c \<equiv> of_char c"

definition is_digit :: "char \<Rightarrow> bool" where
  "is_digit c = (48 \<le> code c \<and> code c \<le> 57)"

definition digit_val :: "char \<Rightarrow> nat" where
  "digit_val c = code c - 48"

subsection \<open>White space\<close>

definition ascii_space :: "char \<Rightarrow> bool" where
  "ascii_space c = (code c = 32 \<or> (9 \<le> code c \<and> code c \<le> 13))"

text \<open>
  The non-ASCII runes of \<open>unicode.IsSpace\<close>, encoded: U+0085 and U+00A0 (two bytes), U+1680,
  U+2000 to U+200A, U+2028, U+2029, U+202F, U+205F and U+3000 (three bytes).
\<close>

definition space2 :: "char \<Rightarrow> char \<Rightarrow> bool" where
  "space2 a b = (code a = 194 \<and> (code b = 133 \<or> code b = 160))"

definition space3 :: "char \<Rightarrow> char \<Rightarrow> char \<Rightarrow> bool" where
  "space3 a b c =
     ((code a = 225 \<and> code b = 154 \<and> code c = 128) \<or>
      (code a = 226 \<and> code b = 128 \<and>
         ((128 \<le> code c \<and> code c \<le> 138) \<or> code c = 168 \<or> code c = 169 \<or> code c = 175)) \<or>
      (code a = 226 \<and> code b = 129 \<and> code c = 159) \<or>
      (code a = 227 \<and> code b = 128 \<and> code c = 128))"

text \<open>How many bytes of leading (trailing) white space rune a text has, 0 for none.\<close>

definition lead_space :: "bytes \<Rightarrow> nat" where
  "lead_space s = (case s of
       a # b # c # _ \<Rightarrow> if ascii_space a then 1 else if space2 a b then 2 else if space3 a b c then 3 else 0
     | [a, b] \<Rightarrow> if ascii_space a then 1 else if space2 a b then 2 else 0
     | [a] \<Rightarrow> if ascii_space a then 1 else 0
     | [] \<Rightarrow> 0)"

definition trail_space :: "bytes \<Rightarrow> nat" where
  "trail_space s = (case rev s of
       c # b # a # _ \<Rightarrow> if ascii_space c then 1 else if space2 b c then 2 else if space3 a b c then 3 else 0
     | [b, a] \<Rightarrow> if ascii_space b then 1 else if space2 a b then 2 else 0
     | [a] \<Rightarrow> if ascii_space a then 1 else 0
     | [] \<Rightarrow> 0)"

lemma lead_space_le: "lead_space s \<le> length s"
  by (auto simp: lead_space_def split: list.splits)

lemma trail_space_le: "trail_space s \<le> length s"
proof -
  have "trail_space s \<le> length (rev s)"
    unfolding trail_space_def by (cases "rev s" rule: remdups_adj.cases) (auto split: list.splits)
  then show ?thesis by simp
qed

function trim_left :: "bytes \<Rightarrow> bytes" where
  "trim_left s = (if lead_space s = 0 then s else trim_left (drop (lead_space s) s))"
  by pat_completeness auto
termination
proof (relation "measure length")
  fix s :: bytes
  assume "lead_space s \<noteq> 0"
  with lead_space_le [of s] show "(drop (lead_space s) s, s) \<in> measure length" by simp
qed simp

function trim_right :: "bytes \<Rightarrow> bytes" where
  "trim_right s = (if trail_space s = 0 then s
     else trim_right (take (length s - trail_space s) s))"
  by pat_completeness auto
termination
proof (relation "measure length")
  fix s :: bytes
  assume "trail_space s \<noteq> 0"
  with trail_space_le [of s] show "(take (length s - trail_space s) s, s) \<in> measure length" by simp
qed simp

declare trim_left.simps [simp del] trim_right.simps [simp del]

definition TrimSpace :: "bytes \<Rightarrow> bytes" where
  "TrimSpace s = trim_right (trim_left s)"

lemma trim_left_lead: "lead_space (trim_left s) = 0"
proof (induction s rule: trim_left.induct)
  case (1 s)
  then show ?case by (cases "lead_space s = 0") (simp_all add: trim_left.simps [of s])
qed

lemma trim_right_trail: "trail_space (trim_right s) = 0"
proof (induction s rule: trim_right.induct)
  case (1 s)
  then show ?case by (cases "trail_space s = 0") (simp_all add: trim_right.simps [of s])
qed

lemma trim_left_suffix: "\<exists>p. s = p @ trim_left s"
proof (induction s rule: trim_left.induct)
  case (1 s)
  show ?case
  proof (cases "lead_space s = 0")
    case True
    then show ?thesis by (simp add: trim_left.simps [of s])
  next
    case False
    with 1 obtain p where "drop (lead_space s) s = p @ trim_left (drop (lead_space s) s)" by blast
    then have "s = (take (lead_space s) s @ p) @ trim_left (drop (lead_space s) s)"
      by (metis append.assoc append_take_drop_id)
    with False show ?thesis by (metis trim_left.simps)
  qed
qed

lemma trim_right_prefix: "\<exists>q. s = trim_right s @ q"
proof (induction s rule: trim_right.induct)
  case (1 s)
  let ?n = "length s - trail_space s"
  show ?case
  proof (cases "trail_space s = 0")
    case True
    then show ?thesis by (simp add: trim_right.simps [of s])
  next
    case False
    with 1 obtain q where "take ?n s = trim_right (take ?n s) @ q" by blast
    then have "s = trim_right (take ?n s) @ (q @ drop ?n s)"
      by (metis append.assoc append_take_drop_id)
    with False show ?thesis by (metis trim_right.simps)
  qed
qed

lemma trim_right_id: "trail_space s = 0 \<Longrightarrow> trim_right s = s"
  by (simp add: trim_right.simps [of s])

lemma trim_left_id: "lead_space s = 0 \<Longrightarrow> trim_left s = s"
  by (simp add: trim_left.simps [of s])

lemma lead_space_prefix:
  assumes "lead_space (s @ t) = 0"
  shows "lead_space s = 0"
  using assms by (auto simp: lead_space_def split: list.splits if_splits)

lemma TrimSpace_idem [simp]: "TrimSpace (TrimSpace s) = TrimSpace s"
proof -
  obtain q where "trim_left s = TrimSpace s @ q"
    using trim_right_prefix [of "trim_left s"] by (auto simp: TrimSpace_def)
  with trim_left_lead [of s] have "lead_space (TrimSpace s) = 0"
    by (metis lead_space_prefix)
  then show ?thesis
    by (simp add: TrimSpace_def trim_left_id trim_right_id trim_right_trail)
qed

lemma TrimSpace_infix: "\<exists>p q. s = p @ TrimSpace s @ q"
  by (metis TrimSpace_def trim_left_suffix trim_right_prefix)

lemma length_TrimSpace_le: "length (TrimSpace s) \<le> length s"
  by (metis TrimSpace_infix le_add1 le_add2 length_append order_trans)

lemma TrimSpace_Nil [simp]: "TrimSpace [] = []"
  by (simp add: TrimSpace_def trim_left_id trim_right_id lead_space_def trail_space_def)

subsection \<open>Prefixes, suffixes, splitting\<close>

definition HasPrefix :: "bytes \<Rightarrow> bytes \<Rightarrow> bool" where
  "HasPrefix s p = (take (length p) s = p)"

definition HasSuffix :: "bytes \<Rightarrow> bytes \<Rightarrow> bool" where
  "HasSuffix s p = (length p \<le> length s \<and> drop (length s - length p) s = p)"

definition TrimSuffix :: "bytes \<Rightarrow> bytes \<Rightarrow> bytes" where
  "TrimSuffix s p = (if HasSuffix s p then take (length s - length p) s else s)"

definition ContainsByte :: "bytes \<Rightarrow> char \<Rightarrow> bool" where
  "ContainsByte s c = (c \<in> set s)"

text \<open>\<open>strings.Split\<close> with a one-byte separator: always at least one part.\<close>

fun SplitByte :: "char \<Rightarrow> bytes \<Rightarrow> bytes list" where
  "SplitByte sep [] = [[]]"
| "SplitByte sep (c # s) =
     (if c = sep then [] # SplitByte sep s
      else (case SplitByte sep s of p # ps \<Rightarrow> (c # p) # ps | [] \<Rightarrow> [[c]]))"

lemma HasPrefix_iff: "HasPrefix s p \<longleftrightarrow> (\<exists>t. s = p @ t)"
  by (metis HasPrefix_def append_eq_conv_conj)

lemma HasSuffix_iff: "HasSuffix s p \<longleftrightarrow> (\<exists>t. s = t @ p)"
proof
  assume "HasSuffix s p"
  then show "\<exists>t. s = t @ p" unfolding HasSuffix_def by (metis append_take_drop_id)
qed (auto simp: HasSuffix_def)

lemma TrimSuffix_append [simp]: "TrimSuffix (s @ p) p = s"
  by (simp add: TrimSuffix_def HasSuffix_def)

lemma SplitByte_not_Nil [simp]: "SplitByte sep s \<noteq> []"
  by (induction s) (auto split: list.splits)

lemma SplitByte_no_sep: "p \<in> set (SplitByte sep s) \<Longrightarrow> sep \<notin> set p"
  by (induction s arbitrary: p) (auto split: list.splits if_splits)

lemma SplitByte_append_sep: "SplitByte c (s @ c # t) = SplitByte c s @ SplitByte c t"
  by (induction s) (auto split: list.splits)

lemma SplitByte_absent: "sep \<notin> set s \<Longrightarrow> SplitByte sep s = [s]"
  by (induction s) auto

subsection \<open>Hexadecimal\<close>

definition hex_digit :: "nat \<Rightarrow> char" where
  "hex_digit n = (if n < 10 then byte (48 + n) else byte (87 + n))"

definition hex_EncodeToString :: "bytes \<Rightarrow> bytes" where
  "hex_EncodeToString s = concat (map (\<lambda>c. [hex_digit (code c div 16), hex_digit (code c mod 16)]) s)"

lemma hex_digit_code: "n < 16 \<Longrightarrow> code (hex_digit n) = (if n < 10 then 48 + n else 87 + n)"
  by (simp add: hex_digit_def of_char_of)

lemma hex_digit_inject:
  assumes "m < 16" and "n < 16" and "hex_digit m = hex_digit n"
  shows "m = n"
proof -
  from assms(3) have "code (hex_digit m) = code (hex_digit n)" by simp
  with assms(1,2) show ?thesis by (simp add: hex_digit_code split: if_splits)
qed

lemma hex_byte_inject:
  assumes "hex_digit (code c div 16) = hex_digit (code d div 16)"
    and "hex_digit (code c mod 16) = hex_digit (code d mod 16)"
  shows "c = d"
proof -
  have "code c div 16 < 16" and "code d div 16 < 16"
    using nat_of_char_less_256 [of c] nat_of_char_less_256 [of d] by linarith+
  with assms have "code c div 16 = code d div 16" and "code c mod 16 = code d mod 16"
    by (simp_all add: hex_digit_inject)
  then have "code c = code d" by (metis div_mult_mod_eq)
  then show ?thesis by simp
qed

lemma hex_EncodeToString_inject:
  "hex_EncodeToString s = hex_EncodeToString t \<Longrightarrow> s = t"
proof (induction s arbitrary: t)
  case Nil
  then show ?case by (cases t) (auto simp: hex_EncodeToString_def)
next
  case (Cons c s)
  then show ?case
    by (cases t) (auto simp: hex_EncodeToString_def intro: hex_byte_inject)
qed

lemma length_hex_EncodeToString [simp]: "length (hex_EncodeToString s) = 2 * length s"
  by (induction s) (auto simp: hex_EncodeToString_def)

subsection \<open>Decimal integers\<close>

text \<open>
  \<open>strconv.ParseInt(s, 10, 64)\<close> and \<open>strconv.Atoi\<close> (\<open>int\<close> has 64 bits): an optional
  sign, at least one decimal digit and nothing else, and the value within the signed range.
  \<open>None\<close> is the error (\<open>ErrSyntax\<close> or \<open>ErrRange\<close>).
\<close>

definition digits_val :: "bytes \<Rightarrow> nat" where
  "digits_val s = foldl (\<lambda>n c. 10 * n + digit_val c) 0 s"

definition parse_digits :: "bytes \<Rightarrow> nat option" where
  "parse_digits s = (if s \<noteq> [] \<and> list_all is_digit s then Some (digits_val s) else None)"

definition ParseInt64 :: "bytes \<Rightarrow> int option" where
  "ParseInt64 s =
     (case s of
        [] \<Rightarrow> None
      | c # r \<Rightarrow>
          let neg = (c = CHR ''-''); ds = (if c = CHR ''-'' \<or> c = CHR ''+'' then r else s) in
          case parse_digits ds of
            None \<Rightarrow> None
          | Some n \<Rightarrow>
              if neg then (if n \<le> 2 ^ 63 then Some (- int n) else None)
              else (if n < 2 ^ 63 then Some (int n) else None))"

abbreviation Atoi :: "bytes \<Rightarrow> int option" where
  "Atoi \<equiv> ParseInt64"

lemma ParseInt64_range: "ParseInt64 s = Some n \<Longrightarrow> - (2 ^ 63) \<le> n \<and> n < 2 ^ 63"
proof -
  assume "ParseInt64 s = Some n"
  then obtain k where "(n = - int k \<and> k \<le> 2 ^ 63) \<or> (n = int k \<and> k < 2 ^ 63)"
    by (auto simp: ParseInt64_def Let_def split: list.splits option.splits if_splits)
  moreover have "int k \<le> 2 ^ 63" if "k \<le> 2 ^ 63" using that by (simp add: int_ops)
  ultimately show ?thesis by auto
qed

end
