(* ===== verification/GoUtf8.thy ===== *)
theory GoUtf8
  imports GoText
begin

text \<open>
  UTF-8 as \<open>unicode/utf8\<close> decodes it, and the two string transformations of
  \<open>encoding/json\<close>: \<open>quote_body\<close> is what \<open>Marshal\<close> writes between the quotes
  (HTML-safe escaping), \<open>unquote\<close> what the decoder reads back, and \<open>scan_str\<close> the
  lexical check of a quoted string. Main facts: a quoted string is lexically valid and unquotes to
  the original when the original is valid UTF-8.
\<close>

subsection \<open>UTF-8\<close>

definition cont_byte :: "char \<Rightarrow> bool" where
  "cont_byte c = (128 \<le> code c \<and> code c \<le> 191)"

text \<open>The two, three and four byte sequences of valid UTF-8, by their first byte.\<close>

definition rune2 :: "char \<Rightarrow> char \<Rightarrow> bool" where
  "rune2 a b = (194 \<le> code a \<and> code a \<le> 223 \<and> cont_byte b)"

definition rune3 :: "char \<Rightarrow> char \<Rightarrow> char \<Rightarrow> bool" where
  "rune3 a b c =
     (224 \<le> code a \<and> code a \<le> 239 \<and> (if code a = 224 then 160 else 128) \<le> code b \<and>
      code b \<le> (if code a = 237 then 159 else 191) \<and> cont_byte c)"

definition rune4 :: "char \<Rightarrow> char \<Rightarrow> char \<Rightarrow> char \<Rightarrow> bool" where
  "rune4 a b c d =
     (240 \<le> code a \<and> code a \<le> 244 \<and> (if code a = 240 then 144 else 128) \<le> code b \<and>
      code b \<le> (if code a = 244 then 143 else 191) \<and> cont_byte c \<and> cont_byte d)"

lemma rune2_high: "rune2 a b \<Longrightarrow> 128 \<le> code a \<and> 128 \<le> code b"
  by (simp add: rune2_def cont_byte_def)

lemma rune3_high: "rune3 a b c \<Longrightarrow> 128 \<le> code a \<and> 128 \<le> code b \<and> 128 \<le> code c"
  by (auto simp: rune3_def cont_byte_def split: if_splits)

lemma rune4_high: "rune4 a b c d \<Longrightarrow> 128 \<le> code a \<and> 128 \<le> code b \<and> 128 \<le> code c \<and> 128 \<le> code d"
  by (auto simp: rune4_def cont_byte_def split: if_splits)

text \<open>Length of the rune at the head of a text; 0 when the bytes there are not valid UTF-8.\<close>

fun utf8_len :: "bytes \<Rightarrow> nat" where
  "utf8_len [] = 0"
| "utf8_len [a] = (if code a < 128 then 1 else 0)"
| "utf8_len [a, b] = (if code a < 128 then 1 else if rune2 a b then 2 else 0)"
| "utf8_len [a, b, c] =
     (if code a < 128 then 1 else if rune2 a b then 2 else if rune3 a b c then 3 else 0)"
| "utf8_len (a # b # c # d # s) =
     (if code a < 128 then 1 else if rune2 a b then 2 else if rune3 a b c then 3
      else if rune4 a b c d then 4 else 0)"

lemma utf8_len_cases:
  assumes "utf8_len s \<noteq> 0"
  obtains (one) a r where "s = a # r" "code a < 128" "utf8_len s = 1"
  | (two) a b r where "s = a # b # r" "rune2 a b" "\<not> code a < 128" "utf8_len s = 2"
  | (three) a b c r where "s = a # b # c # r" "rune3 a b c" "\<not> rune2 a b" "\<not> code a < 128" "utf8_len s = 3"
  | (four) a b c d r where "s = a # b # c # d # r" "rune4 a b c d" "\<not> rune2 a b" "\<not> rune3 a b c"
      "\<not> code a < 128" "utf8_len s = 4"
  using assms by (cases s rule: utf8_len.cases) (auto split: if_splits)

lemma utf8_len_ascii [simp]: "code a < 128 \<Longrightarrow> utf8_len (a # r) = 1"
  by (cases "a # r" rule: utf8_len.cases) auto

lemma utf8_len_rune2 [simp]: "\<not> code a < 128 \<Longrightarrow> rune2 a b \<Longrightarrow> utf8_len (a # b # r) = 2"
  by (cases "a # b # r" rule: utf8_len.cases) auto

lemma utf8_len_rune3 [simp]:
  "\<not> code a < 128 \<Longrightarrow> \<not> rune2 a b \<Longrightarrow> rune3 a b c \<Longrightarrow> utf8_len (a # b # c # r) = 3"
  by (cases "a # b # c # r" rule: utf8_len.cases) auto

lemma utf8_len_le: "utf8_len s \<le> length s"
  by (cases s rule: utf8_len.cases) auto

lemma utf8_len_append:
  "utf8_len s \<noteq> 0 \<Longrightarrow> utf8_len (take (utf8_len s) s @ t) = utf8_len s"
  by (erule utf8_len_cases) simp_all

lemma utf8_len_multi_bytes:
  assumes "\<not> code (hd s) < 128" and "utf8_len s \<noteq> 0"
  shows "list_all (\<lambda>c. 128 \<le> code c) (take (utf8_len s) s)"
  using assms(2)
proof (cases rule: utf8_len_cases)
  case (one a r)
  with assms(1) show ?thesis by simp
qed (auto dest: rune2_high rune3_high rune4_high)

function valid_utf8 :: "bytes \<Rightarrow> bool" where
  "valid_utf8 s = (if s = [] then True else if utf8_len s = 0 then False
     else valid_utf8 (drop (utf8_len s) s))"
  by pat_completeness auto
termination
  by (relation "measure length") auto

declare valid_utf8.simps [simp del]

lemma valid_utf8_Nil [simp]: "valid_utf8 []"
  by (simp add: valid_utf8.simps)

lemma valid_utf8_Cons_ascii: "code c < 128 \<Longrightarrow> valid_utf8 (c # s) = valid_utf8 s"
  by (subst valid_utf8.simps) simp

lemma valid_utf8_ascii: "list_all (\<lambda>c. code c < 128) s \<Longrightarrow> valid_utf8 s"
  by (induction s) (auto simp: valid_utf8_Cons_ascii)

definition replacement :: bytes where
  "replacement = [byte 239, byte 191, byte 189]"

text \<open>\<open>utf8.AppendRune\<close>: surrogates and values beyond U+10FFFF become U+FFFD.\<close>

definition encode_rune :: "nat \<Rightarrow> bytes" where
  "encode_rune r =
     (if r < 128 then [byte r]
      else if r < 2048 then [byte (192 + r div 64), byte (128 + r mod 64)]
      else if (55296 \<le> r \<and> r \<le> 57343) \<or> 1114111 < r then replacement
      else if r < 65536 then
        [byte (224 + r div 4096), byte (128 + r div 64 mod 64), byte (128 + r mod 64)]
      else
        [byte (240 + r div 262144), byte (128 + r div 4096 mod 64),
         byte (128 + r div 64 mod 64), byte (128 + r mod 64)])"

subsection \<open>Quoting: what Marshal writes\<close>

abbreviation dquote :: char where "dquote \<equiv> CHR 0x22"
abbreviation bslash :: char where "bslash \<equiv> CHR 0x5C"

definition u4 :: "nat \<Rightarrow> bytes" where
  "u4 n = [bslash, CHR ''u'', hex_digit (n div 4096 mod 16), hex_digit (n div 256 mod 16),
           hex_digit (n div 16 mod 16), hex_digit (n mod 16)]"

text \<open>The ASCII escapes of \<open>appendString\<close> with \<open>escapeHTML\<close>.\<close>

definition quote_ascii :: "char \<Rightarrow> bytes" where
  "quote_ascii c =
     (if c = dquote \<or> c = bslash then [bslash, c]
      else if code c = 8 then [bslash, CHR ''b'']
      else if code c = 12 then [bslash, CHR ''f'']
      else if code c = 10 then [bslash, CHR ''n'']
      else if code c = 13 then [bslash, CHR ''r'']
      else if code c = 9 then [bslash, CHR ''t'']
      else if code c < 32 \<or> c = CHR ''<'' \<or> c = CHR ''>'' \<or> c = CHR ''&'' then u4 (code c)
      else [c])"

definition line_sep :: "bytes \<Rightarrow> bool" where
  "line_sep s = (\<exists>r c. s = byte 226 # byte 128 # c # r \<and> (code c = 168 \<or> code c = 169))"

lemma line_sep_code [code]:
  "line_sep s = (case s of a # b # c # _ \<Rightarrow> a = byte 226 \<and> b = byte 128 \<and> (code c = 168 \<or> code c = 169)
                 | _ \<Rightarrow> False)"
  by (auto simp: line_sep_def split: list.splits)

text \<open>One step: the output and the number of input bytes consumed.\<close>

definition quote_step :: "bytes \<Rightarrow> bytes \<times> nat" where
  "quote_step s =
     (if code (hd s) < 128 then (quote_ascii (hd s), 1)
      else if utf8_len s = 0 then (u4 65533, 1)
      else if line_sep s then (u4 (8064 + code (s ! 2)), 3)
      else (take (utf8_len s) s, utf8_len s))"

lemma quote_step_pos: "s \<noteq> [] \<Longrightarrow> 0 < snd (quote_step s)"
  by (simp add: quote_step_def)

function quote_body :: "bytes \<Rightarrow> bytes" where
  "quote_body s =
     (if s = [] then [] else fst (quote_step s) @ quote_body (drop (snd (quote_step s)) s))"
  by pat_completeness auto
termination
  by (relation "measure length") (auto simp: quote_step_pos)

declare quote_body.simps [simp del]

subsection \<open>Unquoting: what the decoder reads\<close>

definition hexval :: "char \<Rightarrow> nat option" where
  "hexval c =
     (if is_digit c then Some (code c - 48)
      else if 97 \<le> code c \<and> code c \<le> 102 then Some (code c - 87)
      else if 65 \<le> code c \<and> code c \<le> 70 then Some (code c - 55)
      else None)"

text \<open>\<open>getu4\<close>: the value of a leading \<open>\uXXXX\<close>.\<close>

fun getu4 :: "bytes \<Rightarrow> nat option" where
  "getu4 (x # y # a # b # c # d # _) =
     (if x = bslash \<and> y = CHR ''u'' then
        (case (hexval a, hexval b, hexval c, hexval d) of
           (Some p, Some q, Some r, Some t) \<Rightarrow> Some (((p * 16 + q) * 16 + r) * 16 + t)
         | _ \<Rightarrow> None)
      else None)"
| "getu4 _ = None"

text \<open>
  One step of \<open>unquoteBytes\<close> on lexically valid text: the output and the bytes consumed.
  A surrogate that is not the first half of a valid pair becomes U+FFFD.
\<close>

definition unquote_escape :: "bytes \<Rightarrow> bytes \<times> nat" where
  "unquote_escape s =
     (case getu4 s of
        Some r \<Rightarrow>
          if 55296 \<le> r \<and> r \<le> 57343 then
            (case getu4 (drop 6 s) of
               Some r2 \<Rightarrow>
                 if r < 56320 \<and> 56320 \<le> r2 \<and> r2 \<le> 57343
                 then (encode_rune ((r - 55296) * 1024 + (r2 - 56320) + 65536), 12)
                 else (replacement, 6)
             | None \<Rightarrow> (replacement, 6))
          else (encode_rune r, 6)
      | None \<Rightarrow>
          (case drop 1 s of
             e # _ \<Rightarrow>
               ([if e = CHR ''b'' then byte 8 else if e = CHR ''f'' then byte 12
                 else if e = CHR ''n'' then byte 10 else if e = CHR ''r'' then byte 13
                 else if e = CHR ''t'' then byte 9 else e], 2)
           | [] \<Rightarrow> ([], 1)))"

definition unquote_step :: "bytes \<Rightarrow> bytes \<times> nat" where
  "unquote_step s =
     (if hd s = bslash then unquote_escape s
      else if code (hd s) < 128 then ([hd s], 1)
      else if utf8_len s = 0 then (replacement, 1)
      else (take (utf8_len s) s, utf8_len s))"

lemma unquote_step_pos: "0 < snd (unquote_step s)"
  by (auto simp: unquote_step_def unquote_escape_def split: option.splits list.splits)

function unquote :: "bytes \<Rightarrow> bytes" where
  "unquote s =
     (if s = [] then [] else fst (unquote_step s) @ unquote (drop (snd (unquote_step s)) s))"
  by pat_completeness auto
termination
  by (relation "measure length") (auto simp: unquote_step_pos)

declare unquote.simps [simp del]

lemma unquote_Nil [simp]: "unquote [] = []"
  by (simp add: unquote.simps)

lemma unquote_chunk:
  assumes "q \<noteq> []" and "unquote_step (q @ t) = (out, length q)"
  shows "unquote (q @ t) = out @ unquote t"
  using assms by (subst unquote.simps) simp

lemma unquote_plain:
  "c \<noteq> bslash \<Longrightarrow> code c < 128 \<Longrightarrow> unquote (c # t) = c # unquote t"
  using unquote_chunk [of "[c]" t "[c]"] by (simp add: unquote_step_def)

subsection \<open>The quoted text unquotes to the original\<close>

lemma hexval_hex_digit: "n < 16 \<Longrightarrow> hexval (hex_digit n) = Some n"
  by (simp add: hexval_def is_digit_def hex_digit_code)

lemma getu4_u4: "n < 65536 \<Longrightarrow> getu4 (u4 n @ t) = Some n"
proof -
  assume n: "n < 65536"
  have lt: "n div 4096 mod 16 < 16" "n div 256 mod 16 < 16" "n div 16 mod 16 < 16" "n mod 16 < 16"
    by simp_all
  have step: "m div 16 * 16 + m mod 16 = m" for m :: nat by simp
  have m: "n div 4096 mod 16 = n div 4096" using n by simp
  then have "((n div 4096 mod 16 * 16 + n div 256 mod 16) * 16 + n div 16 mod 16) * 16 + n mod 16 = n"
    using step [of n] step [of "n div 16"] step [of "n div 256"] by (simp add: div_mult2_eq [symmetric])
  then show ?thesis
    unfolding u4_def by (simp only: append_Cons getu4.simps hexval_hex_digit [OF lt(1)]
        hexval_hex_digit [OF lt(2)] hexval_hex_digit [OF lt(3)] hexval_hex_digit [OF lt(4)]) (simp add: m)
qed

lemma unquote_u4:
  assumes "n < 55296 \<or> 57343 < n" and "n < 65536"
  shows "unquote (u4 n @ t) = encode_rune n @ unquote t"
proof (rule unquote_chunk)
  show "unquote_step (u4 n @ t) = (encode_rune n, length (u4 n))"
    using assms getu4_u4 [of n t]
    by (auto simp: unquote_step_def unquote_escape_def u4_def)
qed (simp add: u4_def)

lemma encode_rune_ascii [simp]: "n < 128 \<Longrightarrow> encode_rune n = [byte n]"
  by (simp add: encode_rune_def)

lemma unquote_simple_escape:
  "e \<noteq> CHR ''u'' \<Longrightarrow> unquote (bslash # e # t) =
     (if e = CHR ''b'' then byte 8 else if e = CHR ''f'' then byte 12
      else if e = CHR ''n'' then byte 10 else if e = CHR ''r'' then byte 13
      else if e = CHR ''t'' then byte 9 else e) # unquote t"
  (is "_ \<Longrightarrow> _ = ?x # _")
proof -
  assume "e \<noteq> CHR ''u''"
  then have "getu4 (bslash # e # t) = None"
    by (cases "bslash # e # t" rule: getu4.cases) auto
  then have "unquote ([bslash, e] @ t) = [?x] @ unquote t"
    by (intro unquote_chunk) (auto simp: unquote_step_def unquote_escape_def)
  then show ?thesis by simp
qed

lemma byte_code_eqI: "code c = n \<Longrightarrow> byte n = c"
  by auto

lemma unquote_quote_ascii:
  assumes "code c < 128"
  shows "unquote (quote_ascii c @ t) = c # unquote t"
proof -
  have sp: "code c = 8 \<Longrightarrow> c = byte 8" "code c = 12 \<Longrightarrow> c = byte 12" "code c = 10 \<Longrightarrow> c = byte 10"
    "code c = 13 \<Longrightarrow> c = byte 13" "code c = 9 \<Longrightarrow> c = byte 9"
    by (auto dest: byte_code_eqI)
  have u: "unquote (u4 (code c) @ t) = c # unquote t"
    using assms unquote_u4 [of "code c" t] by simp
  show ?thesis
    unfolding quote_ascii_def
    using assms u by (auto simp: unquote_simple_escape unquote_plain dest: sp)
qed

lemma line_sep_rune:
  assumes "line_sep s"
  shows "take (utf8_len s) s = encode_rune (8064 + code (s ! 2))" and "utf8_len s = 3"
proof -
  from assms obtain c r where s: "s = byte 226 # byte 128 # c # r" and c: "code c = 168 \<or> code c = 169"
    by (auto simp: line_sep_def)
  have "rune3 (byte 226) (byte 128) c"
    using c by (auto simp: rune3_def cont_byte_def of_char_of)
  then show len: "utf8_len s = 3"
    unfolding s by (intro utf8_len_rune3) (simp_all add: of_char_of rune2_def)
  from c have "c = byte 168 \<or> c = byte 169" by (auto dest: byte_code_eqI)
  then show "take (utf8_len s) s = encode_rune (8064 + code (s ! 2))"
    unfolding len by (auto simp: s encode_rune_def of_char_of)
qed

lemma unquote_quote_step:
  assumes "s \<noteq> []" and "utf8_len s \<noteq> 0"
  shows "unquote (fst (quote_step s) @ t) = take (snd (quote_step s)) s @ unquote t"
    and "snd (quote_step s) = utf8_len s"
proof -
  obtain c r where s: "s = c # r" using assms(1) by (cases s) auto
  have "unquote (fst (quote_step s) @ t) = take (snd (quote_step s)) s @ unquote t \<and>
        snd (quote_step s) = utf8_len s"
  proof (cases "code c < 128")
    case True
    then show ?thesis by (simp add: s quote_step_def unquote_quote_ascii)
  next
    case high: False
    show ?thesis
    proof (cases "line_sep s")
      case True
      with line_sep_rune [OF True] have "8064 + code (s ! 2) < 55296"
        using nat_of_char_less_256 [of "s ! 2"] by linarith
      with True high line_sep_rune [OF True] unquote_u4 [of "8064 + code (s ! 2)" t] assms(2)
      show ?thesis by (simp add: quote_step_def s)
    next
      case False
      let ?q = "take (utf8_len s) s"
      have "?q \<noteq> []" using assms by simp
      moreover have "unquote_step (?q @ t) = (?q, length ?q)"
      proof -
        have hd: "hd (?q @ t) = c" using assms(2) by (cases "utf8_len s") (auto simp: s)
        have "c \<noteq> bslash" using high by auto
        with high hd show ?thesis
          using utf8_len_append [OF assms(2), of t] utf8_len_le [of s] assms(2)
          by (simp add: unquote_step_def)
      qed
      ultimately have "unquote (?q @ t) = ?q @ unquote t" by (rule unquote_chunk)
      with high False assms(2) show ?thesis by (simp add: quote_step_def s)
    qed
  qed
  then show "unquote (fst (quote_step s) @ t) = take (snd (quote_step s)) s @ unquote t"
    and "snd (quote_step s) = utf8_len s" by simp_all
qed

text \<open>The round trip of one JSON string.\<close>

lemma unquote_quote_body: "valid_utf8 s \<Longrightarrow> unquote (quote_body s) = s"
proof (induction s rule: quote_body.induct)
  case (1 s)
  show ?case
  proof (cases "s = []")
    case True
    then show ?thesis by (simp add: quote_body.simps)
  next
    case False
    with "1.prems" have len: "utf8_len s \<noteq> 0" and rest: "valid_utf8 (drop (utf8_len s) s)"
      by (simp_all add: valid_utf8.simps [of s] split: if_splits)
    note step = unquote_quote_step [OF False len]
    from 1 False rest have "unquote (quote_body (drop (snd (quote_step s)) s)) = drop (snd (quote_step s)) s"
      by (simp add: step(2))
    with False step(1) show ?thesis by (simp add: quote_body.simps [of s])
  qed
qed

end
