(* ===== verification/GoJsonValue.thy ===== *)
theory GoJsonValue
  imports GoJson
begin

text \<open>
  JSON values: the parser over the lexical layer, the compact printer, their round trip, and the
  parts of \<open>encoding/json\<close> that decode into a struct field by field.
\<close>

subsection \<open>Values\<close>

text \<open>
  A parsed value. Strings (and object keys) hold the raw text between the quotes, numbers their
  literal, so a value has exactly one compact text.
\<close>

datatype json =
    JNull
  | JBool bool
  | JNum bytes
  | JStr bytes
  | JArr "json list"
  | JObj "(bytes \<times> json) list"

fun elems :: "(bytes \<Rightarrow> (json \<times> bytes) option) \<Rightarrow> nat \<Rightarrow> bytes \<Rightarrow> (json list \<times> bytes) option" where
  "elems pv 0 s = None"
| "elems pv (Suc n) s =
     (case pv s of
        None \<Rightarrow> None
      | Some (v, r) \<Rightarrow>
          (case skip_ws r of
             c # r' \<Rightarrow>
               if c = CHR '']'' then Some ([v], r')
               else if c = CHR '','' then map_option (apfst (\<lambda>vs. v # vs)) (elems pv n r')
               else None
           | [] \<Rightarrow> None))"

text \<open>Object members: the raw key, the source text of the value (a \<open>RawMessage\<close>) and the value.\<close>

type_synonym member = "bytes \<times> bytes \<times> json"

definition parse_member :: "(bytes \<Rightarrow> (json \<times> bytes) option) \<Rightarrow> bytes \<Rightarrow> (member \<times> bytes) option" where
  "parse_member pv s =
     (case skip_ws s of
        c # s1 \<Rightarrow>
          if c \<noteq> dquote then None
          else (case scan_str s1 of
             None \<Rightarrow> None
           | Some (k, s2) \<Rightarrow>
               (case skip_ws s2 of
                  d # s3 \<Rightarrow>
                    if d \<noteq> CHR '':'' then None
                    else (case pv s3 of
                       None \<Rightarrow> None
                     | Some (v, s4) \<Rightarrow>
                         Some ((k, take (length (skip_ws s3) - length s4) (skip_ws s3), v), s4))
                | [] \<Rightarrow> None))
      | [] \<Rightarrow> None)"

fun members :: "(bytes \<Rightarrow> (json \<times> bytes) option) \<Rightarrow> nat \<Rightarrow> bytes \<Rightarrow> (member list \<times> bytes) option" where
  "members pv 0 s = None"
| "members pv (Suc n) s =
     (case parse_member pv s of
        None \<Rightarrow> None
      | Some (m, r) \<Rightarrow>
          (case skip_ws r of
             c # r' \<Rightarrow>
               if c = CHR ''}'' then Some ([m], r')
               else if c = CHR '','' then map_option (apfst (\<lambda>ms. m # ms)) (members pv n r')
               else None
           | [] \<Rightarrow> None))"

text \<open>
  The text after an opening bracket. The iteration bound is the length of the text: every element
  takes at least one byte, so it is never reached on a text that has a closing bracket.
\<close>

definition array_rest :: "(bytes \<Rightarrow> (json \<times> bytes) option) \<Rightarrow> bytes \<Rightarrow> (json list \<times> bytes) option" where
  "array_rest pv s =
     (case skip_ws s of
        c # r \<Rightarrow> if c = CHR '']'' then Some ([], r) else elems pv (length s) s
      | [] \<Rightarrow> None)"

definition object_rest :: "(bytes \<Rightarrow> (json \<times> bytes) option) \<Rightarrow> bytes \<Rightarrow> (member list \<times> bytes) option" where
  "object_rest pv s =
     (case skip_ws s of
        c # r \<Rightarrow> if c = CHR ''}'' then Some ([], r) else members pv (length s) s
      | [] \<Rightarrow> None)"

definition literal :: "bytes \<Rightarrow> json \<Rightarrow> bytes \<Rightarrow> (json \<times> bytes) option" where
  "literal w v s = (if take (length w) s = w then Some (v, drop (length w) s) else None)"

definition member_pair :: "member \<Rightarrow> bytes \<times> json" where
  "member_pair m = (fst m, snd (snd m))"

text \<open>\<open>parse_value d\<close> reads one value with at most \<open>d\<close> nested containers.\<close>

fun parse_value :: "nat \<Rightarrow> bytes \<Rightarrow> (json \<times> bytes) option" where
  "parse_value d s =
     (case skip_ws s of
        [] \<Rightarrow> None
      | c # r \<Rightarrow>
          if c = dquote then map_option (apfst JStr) (scan_str r)
          else if c = CHR ''{'' then
            (if d = 0 then None
             else map_option (apfst (\<lambda>ms. JObj (map member_pair ms)))
                    (object_rest (\<lambda>u. parse_value (d - 1) u) r))
          else if c = CHR ''['' then
            (if d = 0 then None
             else map_option (apfst JArr) (array_rest (\<lambda>u. parse_value (d - 1) u) r))
          else if c = CHR ''t'' then literal ''true'' (JBool True) (c # r)
          else if c = CHR ''f'' then literal ''false'' (JBool False) (c # r)
          else if c = CHR ''n'' then literal ''null'' JNull (c # r)
          else map_option (apfst JNum) (scan_num (c # r)))"

declare parse_value.simps [simp del]

definition maxNestingDepth :: nat where
  "maxNestingDepth = 10000"

text \<open>A complete text: one value and nothing but white space around it (\<open>checkValid\<close>).\<close>

definition parse_text :: "bytes \<Rightarrow> json option" where
  "parse_text s =
     (case parse_value maxNestingDepth s of
        Some (v, r) \<Rightarrow> if skip_ws r = [] then Some v else None
      | None \<Rightarrow> None)"

text \<open>The members of a leading object, with the source text of each value, and the rest.\<close>

definition parse_object :: "bytes \<Rightarrow> (member list \<times> bytes) option" where
  "parse_object s =
     (case skip_ws s of
        c # r \<Rightarrow>
          if c = CHR ''{'' then object_rest (parse_value (maxNestingDepth - 1)) r else None
      | [] \<Rightarrow> None)"

subsection \<open>The compact printer\<close>

fun commas :: "bytes list \<Rightarrow> bytes" where
  "commas [] = []"
| "commas [x] = x"
| "commas (x # y # ys) = x @ CHR '','' # commas (y # ys)"

definition str_lit :: "bytes \<Rightarrow> bytes" where
  "str_lit r = dquote # r @ [dquote]"

fun render :: "json \<Rightarrow> bytes" where
  "render JNull = ''null''"
| "render (JBool b) = (if b then ''true'' else ''false'')"
| "render (JNum n) = n"
| "render (JStr r) = str_lit r"
| "render (JArr vs) = CHR ''['' # commas (map render vs) @ '']''"
| "render (JObj ms) = CHR ''{'' # commas (map (\<lambda>(k, v). str_lit k @ CHR '':'' # render v) ms) @ ''}''"

definition render_member :: "bytes \<times> json \<Rightarrow> bytes" where
  "render_member m = str_lit (fst m) @ CHR '':'' # render (snd m)"

lemma render_obj: "render (JObj ms) = CHR ''{'' # commas (map render_member ms) @ ''}''"
  by (simp add: render_member_def [abs_def] case_prod_beta')

fun json_ok :: "json \<Rightarrow> bool" where
  "json_ok JNull = True"
| "json_ok (JBool b) = True"
| "json_ok (JNum n) = numlit n"
| "json_ok (JStr r) = lexstr r"
| "json_ok (JArr vs) = (\<forall>v \<in> set vs. json_ok v)"
| "json_ok (JObj ms) = (\<forall>(k, v) \<in> set ms. lexstr k \<and> json_ok v)"

fun depth :: "json \<Rightarrow> nat" where
  "depth (JArr vs) = Suc (foldr max (map depth vs) 0)"
| "depth (JObj ms) = Suc (foldr max (map (\<lambda>(k, v). depth v) ms) 0)"
| "depth _ = 0"

lemma foldr_max_ge: "x \<in> set xs \<Longrightarrow> x \<le> foldr max xs (0::nat)"
  by (induction xs) auto

lemma foldr_max_le: "(\<And>x. x \<in> set xs \<Longrightarrow> x \<le> n) \<Longrightarrow> foldr max xs (0::nat) \<le> n"
  by (induction xs) auto

lemma depth_arr_le: "depth (JArr vs) \<le> d \<Longrightarrow> v \<in> set vs \<Longrightarrow> depth v \<le> d - 1 \<and> d \<noteq> 0"
  using foldr_max_ge [of "depth v" "map depth vs"] by (cases d) auto

lemma depth_obj_le: "depth (JObj ms) \<le> d \<Longrightarrow> m \<in> set ms \<Longrightarrow> depth (snd m) \<le> d - 1 \<and> d \<noteq> 0"
  using foldr_max_ge [of "depth (snd m)" "map (\<lambda>(k, v). depth v) ms"]
  by (cases d) (force simp: case_prod_beta')+

subsection \<open>Printed values parse back\<close>

lemma num_stop_delims [simp]:
  "num_stop (CHR '','' # t)" "num_stop (CHR '']'' # t)" "num_stop (CHR ''}'' # t)" "num_stop []"
  by (simp_all add: num_stop_def is_digit_def is_exp_def)

lemma render_head:
  assumes "json_ok v"
  obtains c r where "render v = c # r" and "\<not> is_ws c" and "c \<noteq> CHR '']''" and "c \<noteq> CHR ''}''"
proof (cases v)
  case (JNum n)
  with assms have "numlit n" by simp
  from numlit_head [OF this] obtain c m where n: "n = c # m" "is_digit c \<or> c = CHR ''-''"
    by blast
  then have "\<not> is_ws c" "c \<noteq> CHR '']''" "c \<noteq> CHR ''}''" by (auto simp: is_digit_def is_ws_def)
  with JNum n that show ?thesis by simp
next
  case (JBool b)
  with that show ?thesis by (cases b) (auto simp: is_ws_def)
qed (use that in \<open>auto simp: is_ws_def str_lit_def\<close>)

lemma elems_render:
  assumes "vs \<noteq> []" and "length vs \<le> n"
    and "\<And>v u. v \<in> set vs \<Longrightarrow> num_stop u \<Longrightarrow> pv (render v @ u) = Some (v, u)"
  shows "elems pv n (commas (map render vs) @ CHR '']'' # t) = Some (vs, t)"
  using assms
proof (induction vs arbitrary: n)
  case Nil
  then show ?case by simp
next
  case (Cons v vs)
  then obtain m where n: "n = Suc m" by (cases n) auto
  show ?case
  proof (cases vs)
    case Nil
    with Cons.prems show ?thesis by (simp add: n is_ws_def)
  next
    case (Cons w ws)
    have "pv (render v @ CHR '','' # u) = Some (v, CHR '','' # u)" for u
      by (simp add: Cons.prems(3))
    moreover have "elems pv m (commas (map render vs) @ CHR '']'' # t) = Some (vs, t)"
      using Cons.prems n Cons by (intro Cons.IH) auto
    ultimately show ?thesis by (simp add: n Cons is_ws_def)
  qed
qed

lemma parse_member_render:
  assumes "lexstr k" and "json_ok v" and "pv (render v @ u) = Some (v, u)"
  shows "parse_member pv (render_member (k, v) @ u) = Some ((k, render v, v), u)"
proof -
  obtain c r where "render v = c # r" "\<not> is_ws c" using render_head [OF assms(2)] by blast
  then have "skip_ws (render v @ u) = render v @ u" by simp
  then show ?thesis
    using assms scan_str_lexstr [OF assms(1), of "CHR '':'' # render v @ u"]
    by (simp add: parse_member_def render_member_def str_lit_def is_ws_def)
qed

definition with_text :: "bytes \<times> json \<Rightarrow> member" where
  "with_text m = (fst m, render (snd m), snd m)"

lemma member_pair_with_text [simp]: "member_pair (with_text m) = m"
  by (simp add: member_pair_def with_text_def)

lemma members_render:
  assumes "ms \<noteq> []" and "length ms \<le> n"
    and "\<forall>m \<in> set ms. lexstr (fst m) \<and> json_ok (snd m) \<and>
           (\<forall>u. num_stop u \<longrightarrow> pv (render (snd m) @ u) = Some (snd m, u))"
  shows "members pv n (commas (map render_member ms) @ CHR ''}'' # t) = Some (map with_text ms, t)"
  using assms
proof (induction ms arbitrary: n)
  case Nil
  then show ?case by simp
next
  case (Cons m ms)
  from Cons.prems obtain n' where n: "n = Suc n'" by (cases n) auto
  have one: "num_stop u \<Longrightarrow> parse_member pv (render_member m @ u) = Some (with_text m, u)" for u
    using Cons.prems(3) parse_member_render [of "fst m" "snd m" pv u] by (simp add: with_text_def)
  show ?case
  proof (cases ms)
    case Nil
    then show ?thesis by (simp add: n one is_ws_def)
  next
    case ms: (Cons w ws)
    have "members pv n' (commas (map render_member ms) @ CHR ''}'' # t) = Some (map with_text ms, t)"
      using Cons.prems(2,3) n ms by (intro Cons.IH) simp_all
    then show ?thesis by (simp add: n ms one is_ws_def)
  qed
qed

lemma length_commas: "list_all (\<lambda>x. x \<noteq> []) xs \<Longrightarrow> length xs \<le> length (commas xs)"
proof (induction xs rule: commas.induct)
  case (3 x y ys)
  then have "0 < length x" by simp
  with 3 show ?case by simp
qed (auto simp: Suc_le_eq)

lemma render_nonempty: "json_ok v \<Longrightarrow> render v \<noteq> []"
  by (metis render_head list.distinct(1))

lemma render_member_nonempty [simp]: "render_member m \<noteq> []"
  by (simp add: render_member_def str_lit_def)

lemma commas_head: "xs \<noteq> [] \<Longrightarrow> hd xs = c # r \<Longrightarrow> \<exists>r'. commas xs = c # r'"
  by (cases xs rule: commas.cases) auto

lemma array_rest_render:
  assumes "\<forall>v \<in> set vs. json_ok v \<and> (\<forall>u. num_stop u \<longrightarrow> pv (render v @ u) = Some (v, u))"
  shows "array_rest pv (commas (map render vs) @ CHR '']'' # t) = Some (vs, t)"
proof (cases vs)
  case Nil
  then show ?thesis by (simp add: array_rest_def is_ws_def)
next
  case (Cons v ws)
  with assms obtain c r where c: "render v = c # r" "\<not> is_ws c" "c \<noteq> CHR '']''"
    using render_head [of v] by (metis list.set_intros(1))
  let ?s = "commas (map render vs) @ CHR '']'' # t"
  obtain r' where r': "commas (map render vs) = c # r'"
    using commas_head [of "map render vs" c r] c(1) Cons by auto
  have "list_all (\<lambda>x. x \<noteq> []) (map render vs)"
    using assms by (auto simp: list_all_iff render_nonempty)
  from length_commas [OF this] have "length vs \<le> length ?s" by simp
  then have "elems pv (length ?s) ?s = Some (vs, t)"
    using assms Cons by (intro elems_render) auto
  then show ?thesis using c r' by (simp add: array_rest_def)
qed

lemma object_rest_render:
  assumes "\<forall>m \<in> set ms. lexstr (fst m) \<and> json_ok (snd m) \<and>
           (\<forall>u. num_stop u \<longrightarrow> pv (render (snd m) @ u) = Some (snd m, u))"
  shows "object_rest pv (commas (map render_member ms) @ CHR ''}'' # t) = Some (map with_text ms, t)"
proof (cases ms)
  case Nil
  then show ?thesis by (simp add: object_rest_def is_ws_def)
next
  case (Cons m ws)
  let ?s = "commas (map render_member ms) @ CHR ''}'' # t"
  obtain r' where r': "commas (map render_member ms) = dquote # r'"
    using commas_head [of "map render_member ms" dquote] Cons by (auto simp: render_member_def str_lit_def)
  have "length ms \<le> length ?s"
    using length_commas [of "map render_member ms"] by (simp add: list_all_iff)
  then have "members pv (length ?s) ?s = Some (map with_text ms, t)"
    using assms Cons by (intro members_render) auto
  then show ?thesis using r' by (simp add: object_rest_def is_ws_def)
qed

lemma parse_value_num:
  assumes "numlit n" and "num_stop t"
  shows "parse_value d (n @ t) = Some (JNum n, t)"
proof -
  from numlit_head [OF assms(1)] obtain c m where n: "n = c # m" "is_digit c \<or> c = CHR ''-''" by blast
  then have "\<not> is_ws c" "c \<noteq> dquote" "c \<notin> {CHR ''{'', CHR ''['', CHR ''t'', CHR ''f'', CHR ''n''}"
    by (auto simp: is_ws_def is_digit_def)
  then show ?thesis
    using numlit_stop [OF assms] n by (subst parse_value.simps) simp
qed

lemma parse_value_str:
  "lexstr r \<Longrightarrow> parse_value d (str_lit r @ t) = Some (JStr r, t)"
  by (subst parse_value.simps) (simp add: str_lit_def is_ws_def scan_str_lexstr)

lemma parse_value_const:
  "parse_value d (''null'' @ t) = Some (JNull, t)"
  "parse_value d (''true'' @ t) = Some (JBool True, t)"
  "parse_value d (''false'' @ t) = Some (JBool False, t)"
  by (subst parse_value.simps, simp add: literal_def is_ws_def)+

theorem parse_value_render:
  "json_ok v \<Longrightarrow> depth v \<le> d \<Longrightarrow> num_stop t \<Longrightarrow> parse_value d (render v @ t) = Some (v, t)"
proof (induction v arbitrary: d t)
  case (JArr vs)
  then have d: "d \<noteq> 0" and le: "\<And>v. v \<in> set vs \<Longrightarrow> depth v \<le> d - 1"
    using depth_arr_le by auto
  have "array_rest (\<lambda>u. parse_value (d - 1) u) (commas (map render vs) @ CHR '']'' # t) = Some (vs, t)"
    using JArr.prems(1) le by (intro array_rest_render) (simp add: JArr.IH)
  with d show ?case by (subst parse_value.simps) (simp add: is_ws_def)
next
  case (JBool b)
  then show ?case using parse_value_const(2,3) [of d t] by (cases b) simp_all
next
  case JNull
  then show ?case using parse_value_const(1) [of d t] by simp
next
  case (JObj ms)
  then have d: "d \<noteq> 0" and le: "\<And>m. m \<in> set ms \<Longrightarrow> depth (snd m) \<le> d - 1"
    using depth_obj_le by auto
  have ih: "parse_value (d - 1) (render (snd m) @ u) = Some (snd m, u)"
    if "m \<in> set ms" "num_stop u" for m u
    using that JObj.prems(1) le [of m] by (intro JObj.IH [of m "snd m"]) (auto intro: snds.intros)
  have "object_rest (\<lambda>u. parse_value (d - 1) u) (commas (map render_member ms) @ CHR ''}'' # t)
      = Some (map with_text ms, t)"
    using JObj.prems(1) ih by (intro object_rest_render) auto
  with d show ?case
    by (subst parse_value.simps) (simp add: is_ws_def render_obj del: render.simps cong: map_cong)
qed (simp_all add: parse_value_num parse_value_str)

lemma parse_text_render:
  assumes "json_ok v" and "depth v \<le> maxNestingDepth"
  shows "parse_text (render v) = Some v"
  using parse_value_render [OF assms, of "[]"] by (simp add: parse_text_def)

lemma parse_object_render_append:
  assumes "json_ok (JObj ms)" and "depth (JObj ms) \<le> maxNestingDepth"
  shows "parse_object (render (JObj ms) @ u) = Some (map with_text ms, u)"
proof -
  have "depth (snd m) \<le> maxNestingDepth - 1" if "m \<in> set ms" for m
    using depth_obj_le [OF assms(2) that] by simp
  with assms(1) have "\<forall>m \<in> set ms. lexstr (fst m) \<and> json_ok (snd m) \<and>
      (\<forall>u. num_stop u \<longrightarrow> parse_value (maxNestingDepth - 1) (render (snd m) @ u) = Some (snd m, u))"
    using parse_value_render by fastforce
  then have "object_rest (parse_value (maxNestingDepth - 1)) (commas (map render_member ms) @ CHR ''}'' # u)
      = Some (map with_text ms, u)"
    by (rule object_rest_render)
  then show ?thesis
    unfolding parse_object_def render_obj by (simp add: is_ws_def)
qed

lemmas parse_object_render = parse_object_render_append [where u = "[]", simplified append_Nil2]

subsection \<open>Parsed values are well formed\<close>

lemma elems_sound:
  "(\<And>s v r. pv s = Some (v, r) \<Longrightarrow> P v) \<Longrightarrow> elems pv n s = Some (vs, r) \<Longrightarrow> v \<in> set vs \<Longrightarrow> P v"
  by (induction pv n s arbitrary: vs r rule: elems.induct)
    (fastforce split: option.splits list.splits prod.splits if_splits)+

lemma parse_member_sound:
  "parse_member pv s = Some ((k, t, v), r) \<Longrightarrow> lexstr k \<and> (\<exists>s'. pv s' = Some (v, r))"
  by (auto simp: parse_member_def split: option.splits list.splits prod.splits if_splits dest: scan_str_sound)

lemma members_sound:
  assumes "\<And>s v r. pv s = Some (v, r) \<Longrightarrow> P v"
    and "members pv n s = Some (ms, r)" and "(k, t, v) \<in> set ms"
  shows "lexstr k \<and> P v"
  using assms(2,3)
proof (induction n arbitrary: s ms r)
  case 0
  then show ?case by simp
next
  case (Suc n)
  from Suc.prems(1) obtain m r1 c r2 where m: "parse_member pv s = Some (m, r1)" "skip_ws r1 = c # r2"
    by (auto split: option.splits list.splits prod.splits if_splits)
  obtain k' t' v' where m': "m = (k', t', v')" by (cases m)
  have head: "lexstr k' \<and> P v'"
    using parse_member_sound [of pv s k' t' v' r1] m m' assms(1) by auto
  show ?case
  proof (cases "c = CHR ''}''")
    case True
    with Suc.prems m m' head show ?thesis by auto
  next
    case False
    with Suc.prems(1) m obtain ms' where ms': "members pv n r2 = Some (ms', r)" "ms = m # ms'"
      by (auto split: if_splits)
    with Suc.IH [OF ms'(1)] Suc.prems(2) m' head show ?thesis by auto
  qed
qed

lemma array_rest_sound:
  assumes "\<And>s v r. pv s = Some (v, r) \<Longrightarrow> P v" and "array_rest pv s = Some (vs, r)" and "v \<in> set vs"
  shows "P v"
proof -
  from assms(2,3) have "elems pv (length s) s = Some (vs, r)"
    by (auto simp: array_rest_def split: list.splits if_splits)
  from elems_sound [of pv P, OF assms(1) this assms(3)] show ?thesis .
qed

lemma object_rest_sound:
  assumes "\<And>s v r. pv s = Some (v, r) \<Longrightarrow> P v" and "object_rest pv s = Some (ms, r)"
    and "(k, t, v) \<in> set ms"
  shows "lexstr k \<and> P v"
proof -
  from assms(2,3) have "members pv (length s) s = Some (ms, r)"
    by (auto simp: object_rest_def split: list.splits if_splits)
  from members_sound [of pv P, OF assms(1) this assms(3)] show ?thesis .
qed

lemma parse_value_sound: "parse_value d s = Some (v, r) \<Longrightarrow> json_ok v \<and> depth v \<le> d"
proof (induction d arbitrary: s v r rule: less_induct)
  case (less d)
  let ?P = "\<lambda>v. json_ok v \<and> depth v \<le> d - 1"
  from less.prems obtain c s' where c: "skip_ws s = c # s'"
    by (subst (asm) parse_value.simps) (auto split: list.splits)
  have sub: "?P v'" if "d \<noteq> 0" "parse_value (d - 1) u = Some (v', r')" for u v' r'
    using less.IH [of "d - 1" u v' r'] that by simp
  consider (str) q where "c = dquote" "scan_str s' = Some (q, r)" "v = JStr q"
    | (obj) ms where "d \<noteq> 0" "object_rest (\<lambda>u. parse_value (d - 1) u) s' = Some (ms, r)"
        "v = JObj (map member_pair ms)"
    | (arr) vs where "d \<noteq> 0" "array_rest (\<lambda>u. parse_value (d - 1) u) s' = Some (vs, r)" "v = JArr vs"
    | (num) n where "scan_num (c # s') = Some (n, r)" "v = JNum n"
    | (const) "v \<in> {JNull, JBool True, JBool False}"
    using less.prems c
    by (subst (asm) parse_value.simps) (auto simp: literal_def split: if_splits)
  then show ?case
  proof cases
    case str
    then show ?thesis by (auto dest: scan_str_sound)
  next
    case obj
    have "lexstr k \<and> ?P v'" if "(k, t, v') \<in> set ms" for k t v'
      by (rule object_rest_sound [OF _ obj(2) that]) (rule sub [OF obj(1)])
    then have all: "\<forall>m \<in> set ms. lexstr (fst m) \<and> ?P (snd (snd m))" by auto
    then have "foldr max (map (\<lambda>(k, v). depth v) (map member_pair ms)) 0 \<le> d - 1"
      by (intro foldr_max_le) (auto simp: member_pair_def)
    with obj(1) have "depth v \<le> d" by (auto simp: obj(3) o_def)
    moreover have "json_ok v" using all by (auto simp: obj(3) member_pair_def)
    ultimately show ?thesis by simp
  next
    case arr
    have all: "?P v'" if "v' \<in> set vs" for v'
      by (rule array_rest_sound [OF _ arr(2) that]) (rule sub [OF arr(1)])
    then have "foldr max (map depth vs) 0 \<le> d - 1"
      by (intro foldr_max_le) auto
    with arr all show ?thesis by auto
  next
    case num
    then show ?thesis by (simp add: scan_num_numlit)
  next
    case const
    then show ?thesis by auto
  qed
qed

lemma parse_text_sound: "parse_text s = Some v \<Longrightarrow> json_ok v \<and> depth v \<le> maxNestingDepth"
  by (auto simp: parse_text_def split: option.splits if_splits dest: parse_value_sound)

end
