(* ===== verification/GoJsonCodec.thy ===== *)
theory GoJsonCodec
  imports GoJsonValue
begin

text \<open>
  What \<open>encoding/json\<close> does around a value: \<open>Compact\<close> with HTML escaping (how a
  \<open>json.RawMessage\<close> is marshalled), matching object keys to struct fields, storing a value in
  a string field, the range check of numbers decoded into \<open>any\<close>, and the RFC 3339 check of
  \<open>time.Time\<close>.
\<close>

subsection \<open>Marshalling strings and raw messages\<close>

definition json_string :: "bytes \<Rightarrow> json" where
  "json_string s = JStr (quote_body s)"

lemma json_ok_string [simp]: "json_ok (json_string s)" and depth_string [simp]: "depth (json_string s) = 0"
  by (simp_all add: json_string_def lexstr_quote_body)

definition html_char :: "char \<Rightarrow> bool" where
  "html_char c = (c = CHR ''<'' \<or> c = CHR ''>'' \<or> c = CHR ''&'')"

function html_raw :: "bytes \<Rightarrow> bytes" where
  "html_raw s =
     (case s of
        [] \<Rightarrow> []
      | c # r \<Rightarrow>
          if html_char c then u4 (code c) @ html_raw r
          else if line_sep s then u4 (8064 + code (s ! 2)) @ html_raw (drop 2 r)
          else c # html_raw r)"
  by pat_completeness auto
termination
  by (relation "measure length") auto

declare html_raw.simps [simp del]

lemma html_raw_plain: "\<not> html_char c \<Longrightarrow> code c \<noteq> 226 \<Longrightarrow> html_raw (c # r) = c # html_raw r"
  by (subst html_raw.simps) (auto simp: line_sep_def of_char_of)

lemma hex_plain: "is_hex c \<Longrightarrow> \<not> html_char c \<and> code c \<noteq> 226"
  by (auto simp: is_hex_def hexval_def html_char_def is_digit_def split: if_splits)

lemma simple_escape_plain: "simple_escape e \<Longrightarrow> \<not> html_char e \<and> code e \<noteq> 226"
  by (auto simp: simple_escape_def html_char_def)

lemma lexstr_cont: "lexstr (c # r) \<Longrightarrow> 128 \<le> code c \<Longrightarrow> lexstr r"
  by (erule lexstr_ConsE) auto

lemma lexstr_line_sep:
  assumes "lexstr (c # r)" and "line_sep (c # r)"
  shows "lexstr (drop 2 r)"
proof -
  from assms(2) obtain d r' where r: "c = byte 226" "r = byte 128 # d # r'" "128 \<le> code d"
    by (auto simp: line_sep_def)
  have c: "128 \<le> code c" and b: "128 \<le> code (byte 128)" by (simp_all add: r(1) of_char_of)
  have "lexstr r" using lexstr_cont [OF assms(1) c] .
  then have "lexstr (d # r')" using b unfolding r by (rule lexstr_cont)
  then show ?thesis using lexstr_cont r by simp
qed

lemma bslash_plain: "\<not> html_char bslash \<and> code bslash \<noteq> 226"
  and u_plain: "\<not> html_char (CHR ''u'') \<and> code (CHR ''u'') \<noteq> 226"
  by (simp_all add: html_char_def)

lemma lexstr_html_raw: "lexstr r \<Longrightarrow> lexstr (html_raw r)"
proof (induction r rule: measure_induct_rule [of length])
  case (less s)
  from less.prems show ?case
  proof (cases rule: lexstr.cases)
    case Nil
    then show ?thesis by (simp add: html_raw.simps lexstr.Nil)
  next
    case (plain c r)
    with less.IH have r: "lexstr (html_raw r)" by simp
    show ?thesis
    proof (cases "html_char c \<or> line_sep s")
      case True
      then show ?thesis
        using less.prems r plain less.IH [of "drop 2 r"] lexstr_line_sep [of c r]
        by (subst html_raw.simps) (auto intro!: lexstr_append lexstr_u4)
    next
      case False
      with plain r show ?thesis
        by (subst html_raw.simps) (auto intro: lexstr.plain)
    qed
  next
    case (esc e r)
    then show ?thesis
      using less.IH [of r] simple_escape_plain [of e] bslash_plain
      by (simp add: html_raw_plain lexstr.esc)
  next
    case (uni a b c d r)
    then show ?thesis
      using less.IH [of r] hex_plain [of a] hex_plain [of b] hex_plain [of c] hex_plain [of d]
        bslash_plain u_plain
      by (simp add: html_raw_plain lexstr.uni)
  qed
qed

fun html_json :: "json \<Rightarrow> json" where
  "html_json (JStr r) = JStr (html_raw r)"
| "html_json (JArr vs) = JArr (map html_json vs)"
| "html_json (JObj ms) = JObj (map (\<lambda>(k, v). (html_raw k, html_json v)) ms)"
| "html_json v = v"

lemma json_ok_html: "json_ok v \<Longrightarrow> json_ok (html_json v)"
  by (induction v rule: html_json.induct) (auto simp: lexstr_html_raw)

lemma depth_html [simp]: "depth (html_json v) = depth v"
proof (induction v rule: html_json.induct)
  case (2 vs)
  then have "map depth (map html_json vs) = map depth vs" by simp
  then show ?case by (simp del: map_map)
next
  case (3 ms)
  then have "map (\<lambda>(k, v). depth v) (map (\<lambda>(k, v). (html_raw k, html_json v)) ms) = map (\<lambda>(k, v). depth v) ms"
    by auto
  then show ?case by (simp del: map_map)
qed auto

text \<open>
  A \<open>json.RawMessage\<close> as \<open>Marshal\<close> writes it: \<open>null\<close> for a nil message (the empty
  text here), an error (\<open>None\<close>) for a text that is not JSON, else the compacted text.
\<close>

definition raw_json :: "bytes \<Rightarrow> json option" where
  "raw_json p = (if p = [] then Some JNull else map_option html_json (parse_text p))"

lemma raw_json_ok: "raw_json p = Some v \<Longrightarrow> json_ok v \<and> depth v \<le> maxNestingDepth"
  by (auto simp: raw_json_def dest: parse_text_sound intro: json_ok_html split: if_splits)

subsection \<open>Struct fields\<close>

definition to_upper :: "char \<Rightarrow> char" where
  "to_upper c = (if 97 \<le> code c \<and> code c \<le> 122 then byte (code c - 32) else c)"

text \<open>
  Case folding of keys against ASCII field names: ASCII letters, and the two other runes that fold to
  one, U+017F (to S) and U+212A (to K).
\<close>

function fold_name :: "bytes \<Rightarrow> bytes" where
  "fold_name s =
     (case s of
        [] \<Rightarrow> []
      | c # r \<Rightarrow>
          if take 2 s = [byte 197, byte 191] then CHR ''S'' # fold_name (drop 2 s)
          else if take 3 s = [byte 226, byte 132, byte 170] then CHR ''K'' # fold_name (drop 3 s)
          else to_upper c # fold_name r)"
  by pat_completeness auto
termination
  by (relation "measure length") auto

declare fold_name.simps [simp del]

text \<open>The field a key denotes: the exact name first, then a name equal up to case.\<close>

definition field_of :: "bytes list \<Rightarrow> bytes \<Rightarrow> bytes option" where
  "field_of names key =
     (if key \<in> set names then Some key
      else find (\<lambda>n. fold_name n = fold_name key) names)"

text \<open>Storing a value in a field of string kind: \<open>null\<close> changes nothing, other kinds are an error.\<close>

fun set_string :: "json \<Rightarrow> bytes \<Rightarrow> bytes option" where
  "set_string (JStr r) old = Some (unquote r)"
| "set_string JNull old = Some old"
| "set_string _ old = None"

lemma set_string_json_string [simp]: "valid_utf8 s \<Longrightarrow> set_string (json_string s) old = Some s"
  by (simp add: json_string_def unquote_quote_body)

subsection \<open>Numbers decoded into any\<close>

definition num_mantissa :: "bytes \<Rightarrow> bytes" where
  "num_mantissa n = takeWhile (\<lambda>c. \<not> is_exp c) n"

definition num_exponent :: "bytes \<Rightarrow> int" where
  "num_exponent n =
     (case dropWhile (\<lambda>c. \<not> is_exp c) n of
        _ # c # ds \<Rightarrow>
          if c = CHR ''-'' then - int (digits_val ds)
          else if c = CHR ''+'' then int (digits_val ds)
          else int (digits_val (c # ds))
      | _ \<Rightarrow> 0)"

definition num_fraction :: "bytes \<Rightarrow> bytes" where
  "num_fraction n = drop 1 (dropWhile (\<lambda>c. c \<noteq> CHR ''.'') (num_mantissa n))"

text \<open>
  \<open>strconv.ParseFloat\<close> reports a range error when the value rounds to infinity, that is from
  \<open>2^1024 - 2^970\<close> on.
\<close>

definition float64_fits :: "bytes \<Rightarrow> bool" where
  "float64_fits n =
     (let m = int (digits_val (filter is_digit (num_mantissa n)));
          e = num_exponent n - int (length (num_fraction n));
          limit = 2 ^ 1024 - 2 ^ 970
      in m = 0 \<or> (if 0 \<le> e then m * 10 ^ nat e < limit else m < limit * 10 ^ nat (- e)))"

fun any_ok :: "json \<Rightarrow> bool" where
  "any_ok (JNum n) = float64_fits n"
| "any_ok (JArr vs) = (\<forall>v \<in> set vs. any_ok v)"
| "any_ok (JObj ms) = (\<forall>(k, v) \<in> set ms. any_ok v)"
| "any_ok _ = True"

subsection \<open>Timestamps\<close>

definition num2 :: "bytes \<Rightarrow> (nat \<times> bytes) option" where
  "num2 s =
     (case s of
        a # b # r \<Rightarrow> if is_digit a \<and> is_digit b then Some (digits_val [a, b], r) else None
      | _ \<Rightarrow> None)"

definition num12 :: "bytes \<Rightarrow> (nat \<times> bytes) option" where
  "num12 s =
     (case num2 s of
        Some x \<Rightarrow> Some x
      | None \<Rightarrow> (case s of a # r \<Rightarrow> if is_digit a then Some (digits_val [a], r) else None | [] \<Rightarrow> None))"

definition lit :: "char \<Rightarrow> bytes \<Rightarrow> bytes option" where
  "lit c s = (case s of a # r \<Rightarrow> if a = c then Some r else None | [] \<Rightarrow> None)"

definition days_in :: "nat \<Rightarrow> nat \<Rightarrow> nat" where
  "days_in month year =
     (if month = 2 then (if (4 dvd year \<and> \<not> 100 dvd year) \<or> 400 dvd year then 29 else 28)
      else if month \<in> {4, 6, 9, 11} then 30 else 31)"

definition zone_ok :: "bytes \<Rightarrow> bool" where
  "zone_ok s =
     (case s of
        [c] \<Rightarrow> c = CHR ''Z''
      | [g, a, b, k, c, d] \<Rightarrow>
          (g = CHR ''+'' \<or> g = CHR ''-'') \<and> k = CHR '':'' \<and>
          list_all is_digit [a, b, c, d] \<and> digits_val [a, b] \<le> 24 \<and> digits_val [c, d] \<le> 60
      | _ \<Rightarrow> False)"

definition skip_fraction :: "bytes \<Rightarrow> bytes" where
  "skip_fraction s =
     (case s of
        p # d # r \<Rightarrow>
          if (p = CHR ''.'' \<or> p = CHR '','') \<and> is_digit d then dropWhile is_digit r else s
      | _ \<Rightarrow> s)"

text \<open>
  \<open>Time.UnmarshalJSON\<close> accepts what \<open>time.Parse\<close> accepts for the layout RFC3339: a four
  digit year, two digit month, day, minute and second, a one or two digit hour, an optional fraction,
  and a zone.
\<close>

definition rfc3339_ok :: "bytes \<Rightarrow> bool" where
  "rfc3339_ok s =
     (list_all is_digit (take 4 s) \<and> 4 \<le> length s \<and>
      (case Option.bind (lit (CHR ''-'') (drop 4 s)) num2 of
         None \<Rightarrow> False
       | Some (month, s1) \<Rightarrow>
      (case Option.bind (lit (CHR ''-'') s1) num2 of
         None \<Rightarrow> False
       | Some (day, s2) \<Rightarrow>
      (case Option.bind (lit (CHR ''T'') s2) num12 of
         None \<Rightarrow> False
       | Some (hour, s3) \<Rightarrow>
      (case Option.bind (lit (CHR '':'') s3) num2 of
         None \<Rightarrow> False
       | Some (minute, s4) \<Rightarrow>
      (case Option.bind (lit (CHR '':'') s4) num2 of
         None \<Rightarrow> False
       | Some (second, s5) \<Rightarrow>
           1 \<le> month \<and> month \<le> 12 \<and> hour < 24 \<and> minute < 60 \<and> second < 60 \<and>
           1 \<le> day \<and> day \<le> days_in month (digits_val (take 4 s)) \<and>
           zone_ok (skip_fraction s5)))))))"

text \<open>
  Storing a value in a field of type \<open>*time.Time\<close>: \<open>null\<close> resets it, a quoted time is
  parsed in its source form, anything else is an error. The field keeps the source text: no code
  reads the time itself.
\<close>

fun set_time :: "json \<Rightarrow> bytes option option" where
  "set_time JNull = Some None"
| "set_time (JStr r) = (if rfc3339_ok r then Some (Some r) else None)"
| "set_time _ = None"

end
