(* ===== verification/Message.thy ===== *)
theory Message
  imports GoJsonCodec
begin

text \<open>
  The version-one message protocol of \<open>internal/realtime/message.go\<close>: the inbound envelope, its
  decoding and validation, the outbound envelope and its marshalling. Errors keep the classification
  and the request id the client sees.
\<close>

subsection \<open>Types and constants\<close>

abbreviation ProtocolVersion :: bytes where "ProtocolVersion \<equiv> ''1''"

type_synonym MessageType = bytes

abbreviation CommandRoomJoin :: MessageType where "CommandRoomJoin \<equiv> ''room.join''"
abbreviation CommandRoomLeave :: MessageType where "CommandRoomLeave \<equiv> ''room.leave''"
abbreviation CommandRoomBroadcast :: MessageType where "CommandRoomBroadcast \<equiv> ''room.broadcast''"
abbreviation CommandPrivateSend :: MessageType where "CommandPrivateSend \<equiv> ''private.send''"
abbreviation EventConnectionReady :: MessageType where "EventConnectionReady \<equiv> ''connection.ready''"
abbreviation EventCommandAck :: MessageType where "EventCommandAck \<equiv> ''command.ack''"
abbreviation EventError :: MessageType where "EventError \<equiv> ''error''"
abbreviation EventServerDraining :: MessageType where "EventServerDraining \<equiv> ''server.draining''"

datatype ErrorCode =
    ErrorInvalidJSON
  | ErrorInvalidMessage
  | ErrorUnsupportedVersion
  | ErrorUnknownMessageType
  | ErrorUnauthorized
  | ErrorRecipientOffline
  | ErrorRecipientOverloaded
  | ErrorRateLimitExceeded

fun error_code_text :: "ErrorCode \<Rightarrow> bytes" where
  "error_code_text ErrorInvalidJSON = ''invalid_json''"
| "error_code_text ErrorInvalidMessage = ''invalid_message''"
| "error_code_text ErrorUnsupportedVersion = ''unsupported_version''"
| "error_code_text ErrorUnknownMessageType = ''unknown_message_type''"
| "error_code_text ErrorUnauthorized = ''unauthorized''"
| "error_code_text ErrorRecipientOffline = ''recipient_offline''"
| "error_code_text ErrorRecipientOverloaded = ''recipient_overloaded''"
| "error_code_text ErrorRateLimitExceeded = ''rate_limit_exceeded''"

text \<open>
  \<open>in_Payload\<close> is a \<open>json.RawMessage\<close> (the source text of the value, empty for nil);
  \<open>in_SentAt\<close> keeps the accepted timestamp text, nil as \<open>None\<close>.
\<close>

record InboundMessage =
  in_Version :: bytes
  in_Type :: MessageType
  in_RequestID :: bytes
  in_RoomID :: bytes
  in_RecipientID :: bytes
  in_Payload :: bytes
  in_SentAt :: "bytes option"

definition zero_message :: InboundMessage where
  "zero_message = \<lparr>in_Version = [], in_Type = [], in_RequestID = [], in_RoomID = [],
     in_RecipientID = [], in_Payload = [], in_SentAt = None\<rparr>"

record ProtocolError =
  pe_Code :: ErrorCode
  pe_Message :: bytes
  pe_RequestID :: bytes

definition ProtocolError_Error :: "ProtocolError \<Rightarrow> bytes" where
  "ProtocolError_Error e = error_code_text (pe_Code e) @ '': '' @ pe_Message e"

subsection \<open>Validation\<close>

definition invalidField :: "bytes \<Rightarrow> bytes \<Rightarrow> ProtocolError" where
  "invalidField requestID message =
     \<lparr>pe_Code = ErrorInvalidMessage, pe_Message = message, pe_RequestID = requestID\<rparr>"

text \<open>
  \<open>json.Unmarshal\<close> into \<open>map[string]any\<close>: the whole text is one JSON value, it is an
  object (\<open>null\<close> leaves the map nil) and every number in it fits a float64.
\<close>

definition validPayload :: "bytes \<Rightarrow> bool" where
  "validPayload payload =
     (if length payload = 0 then False
      else (case parse_text payload of
              Some (JObj ms) \<Rightarrow> any_ok (JObj ms)
            | _ \<Rightarrow> False))"

definition Validate :: "InboundMessage \<Rightarrow> ProtocolError option" where
  "Validate m =
     (let requestID = TrimSpace (in_RequestID m);
          routing = (if length (in_RoomID m) > 256 \<or> length (in_RecipientID m) > 256
                     then Some (invalidField requestID ''routing identifiers must not exceed 256 characters.'')
                     else None)
      in
      if TrimSpace (in_Version m) \<noteq> ProtocolVersion then
        Some \<lparr>pe_Code = ErrorUnsupportedVersion,
              pe_Message = ''Only protocol version 1 is supported.'', pe_RequestID = requestID\<rparr>
      else if requestID = [] then
        Some \<lparr>pe_Code = ErrorInvalidMessage, pe_Message = ''request_id is required.'', pe_RequestID = []\<rparr>
      else if length requestID > 128 then
        Some \<lparr>pe_Code = ErrorInvalidMessage,
              pe_Message = ''request_id must not exceed 128 characters.'', pe_RequestID = requestID\<rparr>
      else if in_Type m = CommandRoomJoin then
        (if TrimSpace (in_RoomID m) = [] then Some (invalidField requestID ''room_id is required for room.join.'')
         else routing)
      else if in_Type m = CommandRoomLeave then
        (if TrimSpace (in_RoomID m) = [] then Some (invalidField requestID ''room_id is required for room.leave.'')
         else routing)
      else if in_Type m = CommandRoomBroadcast then
        (if TrimSpace (in_RoomID m) = [] then Some (invalidField requestID ''room_id is required for room.broadcast.'')
         else if \<not> validPayload (in_Payload m) then
           Some (invalidField requestID ''payload must be a JSON object for room.broadcast.'')
         else routing)
      else if in_Type m = CommandPrivateSend then
        (if TrimSpace (in_RecipientID m) = [] then
           Some (invalidField requestID ''recipient_id is required for private.send.'')
         else if \<not> validPayload (in_Payload m) then
           Some (invalidField requestID ''payload must be a JSON object for private.send.'')
         else routing)
      else
        Some \<lparr>pe_Code = ErrorUnknownMessageType,
              pe_Message = ''The message type is not supported.'', pe_RequestID = requestID\<rparr>)"

subsection \<open>Decoding\<close>

definition inbound_fields :: "bytes list" where
  "inbound_fields = [''version'', ''type'', ''request_id'', ''room_id'', ''recipient_id'', ''payload'', ''sent_at'']"

text \<open>One object member stored into the struct, by its JSON tag; unknown keys are ignored.\<close>

definition store_inbound :: "member \<Rightarrow> InboundMessage \<Rightarrow> InboundMessage option" where
  "store_inbound mem m =
     (case mem of (k, text, v) \<Rightarrow>
        (case field_of inbound_fields (unquote k) of
           None \<Rightarrow> Some m
         | Some f \<Rightarrow>
             if f = ''version'' then
               map_option (\<lambda>x. m\<lparr>in_Version := x\<rparr>) (set_string v (in_Version m))
             else if f = ''type'' then
               map_option (\<lambda>x. m\<lparr>in_Type := x\<rparr>) (set_string v (in_Type m))
             else if f = ''request_id'' then
               map_option (\<lambda>x. m\<lparr>in_RequestID := x\<rparr>) (set_string v (in_RequestID m))
             else if f = ''room_id'' then
               map_option (\<lambda>x. m\<lparr>in_RoomID := x\<rparr>) (set_string v (in_RoomID m))
             else if f = ''recipient_id'' then
               map_option (\<lambda>x. m\<lparr>in_RecipientID := x\<rparr>) (set_string v (in_RecipientID m))
             else if f = ''payload'' then Some (m\<lparr>in_Payload := text\<rparr>)
             else map_option (\<lambda>x. m\<lparr>in_SentAt := x\<rparr>) (set_time v)))"

fun store_members :: "('m \<Rightarrow> 's \<Rightarrow> 's option) \<Rightarrow> 'm list \<Rightarrow> 's \<Rightarrow> 's option" where
  "store_members f [] s = Some s"
| "store_members f (m # ms) s = (case f m s of None \<Rightarrow> None | Some s' \<Rightarrow> store_members f ms s')"

text \<open>
  \<open>decoder.Decode(\&message)\<close> on a text whose first byte after white space is an opening brace: the
  decoded struct and the unread rest, \<open>None\<close> for a syntax or type error.
\<close>

definition decode_first :: "bytes \<Rightarrow> (InboundMessage \<times> bytes) option" where
  "decode_first payload =
     (case parse_object payload of
        None \<Rightarrow> None
      | Some (ms, rest) \<Rightarrow>
          (case store_members store_inbound ms zero_message of
             None \<Rightarrow> None
           | Some m \<Rightarrow> Some (m, rest)))"

definition DecodeInbound :: "bytes \<Rightarrow> InboundMessage \<times> ProtocolError option" where
  "DecodeInbound payload =
     (let trimmed = TrimSpace payload in
      if length trimmed = 0 \<or> hd trimmed \<noteq> CHR ''{'' then
        (zero_message, Some \<lparr>pe_Code = ErrorInvalidJSON,
           pe_Message = ''The message must contain one valid JSON object.'', pe_RequestID = []\<rparr>)
      else
        (case decode_first payload of
           None \<Rightarrow>
             (zero_message, Some \<lparr>pe_Code = ErrorInvalidJSON,
                pe_Message = ''The message must contain one valid JSON object.'', pe_RequestID = []\<rparr>)
         | Some (message, rest) \<Rightarrow>
             if skip_ws rest \<noteq> [] then
               (zero_message, Some \<lparr>pe_Code = ErrorInvalidJSON,
                  pe_Message = ''The frame must contain exactly one JSON object.'',
                  pe_RequestID = in_RequestID message\<rparr>)
             else
               (case Validate message of
                  Some e \<Rightarrow> (zero_message, Some e)
                | None \<Rightarrow> (message, None))))"

subsection \<open>Outbound messages\<close>

text \<open>A UTC wall-clock time, as \<open>time.Now().UTC()\<close> gives it.\<close>

record wall_time =
  w_year :: int
  w_month :: nat
  w_day :: nat
  w_hour :: nat
  w_minute :: nat
  w_second :: nat
  w_nsec :: nat

record Acknowledgement =
  ack_Status :: bytes
  ack_CommandType :: MessageType

record ErrorPayload =
  ep_Code :: ErrorCode
  ep_Message :: bytes
  ep_Retryable :: bool

text \<open>The values the code passes as \<open>Payload any\<close>: two named and four anonymous structs.\<close>

datatype event_payload =
    PReady bytes bytes
  | PAck Acknowledgement
  | PError ErrorPayload
  | PBroadcast bytes bytes bytes
  | PPrivate bytes bytes bytes
  | PDraining bytes

record OutboundMessage =
  out_Version :: bytes
  out_Type :: MessageType
  out_RequestID :: bytes
  out_EventID :: bytes
  out_Payload :: event_payload
  out_SentAt :: wall_time

definition newEventID :: "bytes option \<Rightarrow> bytes option" where
  "newEventID rnd = (case rnd of None \<Rightarrow> None | Some value \<Rightarrow> Some (''evt_'' @ hex_EncodeToString value))"

text \<open>\<open>rnd\<close> is what \<open>rand.Read\<close> filled in (\<open>None\<close> for its error), \<open>now\<close> the clock.\<close>

definition newOutboundMessage ::
    "bytes option \<Rightarrow> wall_time \<Rightarrow> MessageType \<Rightarrow> bytes \<Rightarrow> event_payload \<Rightarrow> OutboundMessage option" where
  "newOutboundMessage rnd now messageType requestID payload =
     (case newEventID rnd of
        None \<Rightarrow> None
      | Some eventID \<Rightarrow>
          Some \<lparr>out_Version = ProtocolVersion, out_Type = messageType, out_RequestID = requestID,
                out_EventID = eventID, out_Payload = payload, out_SentAt = now\<rparr>)"

subsection \<open>Marshalling\<close>

definition dec_digit :: "nat \<Rightarrow> char" where
  "dec_digit n = byte (48 + n mod 10)"

definition pad2 :: "nat \<Rightarrow> bytes" where
  "pad2 n = [dec_digit (n div 10), dec_digit n]"

definition pad4 :: "nat \<Rightarrow> bytes" where
  "pad4 n = [dec_digit (n div 1000), dec_digit (n div 100), dec_digit (n div 10), dec_digit n]"

definition pad9 :: "nat \<Rightarrow> bytes" where
  "pad9 n = map (\<lambda>k. dec_digit (n div 10 ^ k)) [8, 7, 6, 5, 4, 3, 2, 1, 0]"

definition fraction_text :: "nat \<Rightarrow> bytes" where
  "fraction_text ns =
     (let ds = rev (dropWhile (\<lambda>c. c = CHR ''0'') (rev (pad9 ns)))
      in if ds = [] then [] else CHR ''.'' # ds)"

text \<open>\<open>Time.MarshalJSON\<close>: RFC3339Nano in UTC, an error for a year outside 0 to 9999.\<close>

definition time_json :: "wall_time \<Rightarrow> json option" where
  "time_json t =
     (if 0 \<le> w_year t \<and> w_year t \<le> 9999 then
        Some (JStr (pad4 (nat (w_year t)) @ ''-'' @ pad2 (w_month t) @ ''-'' @ pad2 (w_day t) @ ''T'' @
                    pad2 (w_hour t) @ '':'' @ pad2 (w_minute t) @ '':'' @ pad2 (w_second t) @
                    fraction_text (w_nsec t) @ ''Z''))
      else None)"

definition str_member :: "bytes \<Rightarrow> bytes \<Rightarrow> bytes \<times> json" where
  "str_member k s = (k, json_string s)"

fun payload_json :: "event_payload \<Rightarrow> json option" where
  "payload_json (PReady connectionID userID) =
     Some (JObj [str_member ''connection_id'' connectionID, str_member ''user_id'' userID])"
| "payload_json (PAck a) =
     Some (JObj [str_member ''status'' (ack_Status a), str_member ''command_type'' (ack_CommandType a)])"
| "payload_json (PError e) =
     Some (JObj [str_member ''code'' (error_code_text (ep_Code e)),
                 str_member ''message'' (ep_Message e), (''retryable'', JBool (ep_Retryable e))])"
| "payload_json (PBroadcast roomID senderID payload) =
     map_option (\<lambda>p. JObj [str_member ''room_id'' roomID, str_member ''sender_id'' senderID, (''payload'', p)])
       (raw_json payload)"
| "payload_json (PPrivate senderID recipientID payload) =
     map_option (\<lambda>p. JObj [str_member ''sender_id'' senderID, str_member ''recipient_id'' recipientID, (''payload'', p)])
       (raw_json payload)"
| "payload_json (PDraining message) = Some (JObj [str_member ''message'' message])"

definition outbound_json :: "OutboundMessage \<Rightarrow> json option" where
  "outbound_json m =
     (case (payload_json (out_Payload m), time_json (out_SentAt m)) of
        (Some p, Some t) \<Rightarrow>
          Some (JObj ([str_member ''version'' (out_Version m), str_member ''type'' (out_Type m)] @
                      (if out_RequestID m = [] then [] else [str_member ''request_id'' (out_RequestID m)]) @
                      [str_member ''event_id'' (out_EventID m), (''payload'', p), (''sent_at'', t)]))
      | _ \<Rightarrow> None)"

definition MarshalOutbound :: "OutboundMessage \<Rightarrow> bytes option" where
  "MarshalOutbound m = map_option render (outbound_json m)"

subsection \<open>The validation rules, characterised\<close>

definition is_command :: "MessageType \<Rightarrow> bool" where
  "is_command t = (t \<in> {CommandRoomJoin, CommandRoomLeave, CommandRoomBroadcast, CommandPrivateSend})"

definition well_formed_command :: "InboundMessage \<Rightarrow> bool" where
  "well_formed_command m =
     (TrimSpace (in_Version m) = ProtocolVersion \<and>
      TrimSpace (in_RequestID m) \<noteq> [] \<and> length (TrimSpace (in_RequestID m)) \<le> 128 \<and>
      is_command (in_Type m) \<and>
      length (in_RoomID m) \<le> 256 \<and> length (in_RecipientID m) \<le> 256 \<and>
      (in_Type m \<noteq> CommandPrivateSend \<longrightarrow> TrimSpace (in_RoomID m) \<noteq> []) \<and>
      (in_Type m = CommandPrivateSend \<longrightarrow> TrimSpace (in_RecipientID m) \<noteq> []) \<and>
      (in_Type m = CommandRoomBroadcast \<or> in_Type m = CommandPrivateSend \<longrightarrow> validPayload (in_Payload m)))"

lemma Validate_iff: "Validate m = None \<longleftrightarrow> well_formed_command m"
  unfolding Validate_def well_formed_command_def is_command_def Let_def
  by (simp split: if_splits)

lemma Validate_request_id: "Validate m = Some e \<Longrightarrow> pe_RequestID e = TrimSpace (in_RequestID m)"
  unfolding Validate_def Let_def invalidField_def by (auto split: if_splits)

lemma Validate_code:
  "Validate m = Some e \<Longrightarrow>
     pe_Code e =
       (if TrimSpace (in_Version m) \<noteq> ProtocolVersion then ErrorUnsupportedVersion
        else if TrimSpace (in_RequestID m) \<noteq> [] \<and> length (TrimSpace (in_RequestID m)) \<le> 128 \<and>
                \<not> is_command (in_Type m) then ErrorUnknownMessageType
        else ErrorInvalidMessage)"
  unfolding Validate_def Let_def invalidField_def is_command_def by (auto split: if_splits)

subsection \<open>Decoding what the struct tags encode\<close>

text \<open>\<open>json.Marshal\<close> of an \<open>InboundMessage\<close> by its tags (\<open>omitempty\<close> on the last four).\<close>

definition opt_member :: "bytes \<Rightarrow> bytes \<Rightarrow> (bytes \<times> json) list" where
  "opt_member k s = (if s = [] then [] else [str_member k s])"

definition inbound_members :: "InboundMessage \<Rightarrow> (bytes \<times> json) list option" where
  "inbound_members m =
     map_option (\<lambda>p.
       [str_member ''version'' (in_Version m), str_member ''type'' (in_Type m),
        str_member ''request_id'' (in_RequestID m)] @
       opt_member ''room_id'' (in_RoomID m) @ opt_member ''recipient_id'' (in_RecipientID m) @
       (if in_Payload m = [] then [] else [(''payload'', p)]) @
       (case in_SentAt m of None \<Rightarrow> [] | Some t \<Rightarrow> [(''sent_at'', JStr t)]))
     (raw_json (in_Payload m))"

definition MarshalInbound :: "InboundMessage \<Rightarrow> bytes option" where
  "MarshalInbound m = map_option (\<lambda>ms. render (JObj ms)) (inbound_members m)"

definition payload_nesting :: "bytes \<Rightarrow> nat" where
  "payload_nesting p = (case raw_json p of None \<Rightarrow> 0 | Some v \<Rightarrow> depth v)"

definition compact_payload :: "bytes \<Rightarrow> bytes" where
  "compact_payload p = (if p = [] then [] else (case raw_json p of None \<Rightarrow> p | Some v \<Rightarrow> render v))"

text \<open>Text fields are valid UTF-8 and the payload is JSON that still fits one level deeper.\<close>

definition encodable :: "InboundMessage \<Rightarrow> bool" where
  "encodable m =
     (valid_utf8 (in_Version m) \<and> valid_utf8 (in_Type m) \<and> valid_utf8 (in_RequestID m) \<and>
      valid_utf8 (in_RoomID m) \<and> valid_utf8 (in_RecipientID m) \<and>
      raw_json (in_Payload m) \<noteq> None \<and> payload_nesting (in_Payload m) < maxNestingDepth \<and>
      (case in_SentAt m of None \<Rightarrow> True | Some t \<Rightarrow> rfc3339_ok t \<and> lexstr t))"

lemma inbound_field_names [simp]:
  "field_of inbound_fields (unquote ''version'') = Some ''version''"
  "field_of inbound_fields (unquote ''type'') = Some ''type''"
  "field_of inbound_fields (unquote ''request_id'') = Some ''request_id''"
  "field_of inbound_fields (unquote ''room_id'') = Some ''room_id''"
  "field_of inbound_fields (unquote ''recipient_id'') = Some ''recipient_id''"
  "field_of inbound_fields (unquote ''payload'') = Some ''payload''"
  "field_of inbound_fields (unquote ''sent_at'') = Some ''sent_at''"
  by code_simp+

lemma lexstr_ascii_name: "list_all (\<lambda>c. 35 \<le> code c \<and> c \<noteq> bslash) k \<Longrightarrow> lexstr k"
proof (induction k)
  case Nil
  then show ?case by (simp add: lexstr.Nil)
next
  case (Cons c k)
  then have "c \<noteq> dquote" "c \<noteq> bslash" "32 \<le> code c" by auto
  with Cons show ?case by (simp add: lexstr.plain)
qed

lemma store_members_append:
  "store_members f (xs @ ys) s = (case store_members f xs s of None \<Rightarrow> None | Some s' \<Rightarrow> store_members f ys s')"
  by (induction xs arbitrary: s) (auto split: option.splits)

lemma lead_space_brace [simp]: "lead_space (CHR ''{'' # r) = 0"
  by (auto simp: lead_space_def ascii_space_def space2_def space3_def split: list.splits)

lemma trail_space_brace [simp]: "trail_space (r @ ''}'') = 0"
  by (auto simp: trail_space_def ascii_space_def space2_def space3_def split: list.splits)

lemma TrimSpace_object: "TrimSpace (render (JObj ms)) = render (JObj ms)"
  unfolding render_obj TrimSpace_def
  by (simp add: trim_left_id trim_right_id trail_space_brace [of "CHR ''{'' # commas (map render_member ms)", simplified])

lemma any_ok_html: "any_ok (html_json v) = any_ok v"
  by (induction v rule: html_json.induct) auto

lemma validPayload_compact:
  assumes "validPayload p"
  shows "validPayload (compact_payload p)"
proof -
  from assms obtain ms where p: "p \<noteq> []" "parse_text p = Some (JObj ms)" "any_ok (JObj ms)"
    by (auto simp: validPayload_def split: if_splits option.splits json.splits)
  let ?v = "html_json (JObj ms)"
  have raw: "raw_json p = Some ?v" using p by (simp add: raw_json_def del: html_json.simps)
  have "parse_text (render ?v) = Some ?v"
    using raw_json_ok [OF raw] by (intro parse_text_render) auto
  moreover have "any_ok ?v" using p(3) by (simp only: any_ok_html)
  moreover have "render ?v \<noteq> []" by simp
  ultimately show ?thesis using p(1) raw by (simp add: validPayload_def compact_payload_def)
qed

lemma json_ok_inbound:
  assumes "encodable m" and "inbound_members m = Some ms"
  shows "json_ok (JObj ms)" and "depth (JObj ms) \<le> maxNestingDepth"
proof -
  from assms obtain p where p: "raw_json (in_Payload m) = Some p" "depth p < maxNestingDepth"
    by (auto simp: encodable_def payload_nesting_def)
  have names: "lexstr ''version''" "lexstr ''type''" "lexstr ''request_id''" "lexstr ''room_id''"
    "lexstr ''recipient_id''" "lexstr ''payload''" "lexstr ''sent_at''"
    by (rule lexstr_ascii_name, simp)+
  show "json_ok (JObj ms)"
    using assms p raw_json_ok [OF p(1)] names
    by (auto simp: inbound_members_def opt_member_def str_member_def encodable_def
        split: option.splits if_splits)
  show "depth (JObj ms) \<le> maxNestingDepth"
    using assms p
    by (auto simp: inbound_members_def opt_member_def str_member_def maxNestingDepth_def
        split: option.splits if_splits)
qed

lemma store_inbound_members:
  assumes "encodable m" and "inbound_members m = Some ms"
  shows "store_members store_inbound (map with_text ms) zero_message =
           Some (m\<lparr>in_Payload := compact_payload (in_Payload m)\<rparr>)"
  using assms
  by (auto simp: inbound_members_def opt_member_def str_member_def encodable_def with_text_def
      store_inbound_def zero_message_def compact_payload_def store_members_append
      split: option.splits if_splits)

subsection \<open>Marshalled events are JSON\<close>

fun payload_raw :: "event_payload \<Rightarrow> bytes" where
  "payload_raw (PBroadcast r s p) = p"
| "payload_raw (PPrivate s r p) = p"
| "payload_raw _ = []"

lemma payload_json_None: "payload_json p = None \<longleftrightarrow> raw_json (payload_raw p) = None"
  by (cases p) (auto simp: raw_json_def)

lemma code_dec_digit: "48 \<le> code (dec_digit n) \<and> code (dec_digit n) \<le> 57"
proof -
  have "n mod 10 < 10" by simp
  then show ?thesis by (simp add: dec_digit_def of_char_of)
qed

lemma dec_digit_plain: "35 \<le> code (dec_digit n) \<and> dec_digit n \<noteq> bslash"
proof -
  have "dec_digit n \<noteq> bslash" using code_dec_digit [of n] by auto
  with code_dec_digit [of n] show ?thesis by simp
qed

lemma fraction_plain: "list_all (\<lambda>c. 35 \<le> code c \<and> c \<noteq> bslash) (fraction_text ns)"
proof -
  have "list_all (\<lambda>c. 35 \<le> code c \<and> c \<noteq> bslash) (pad9 ns)"
    by (auto simp: pad9_def dec_digit_plain)
  moreover have "set (rev (dropWhile (\<lambda>c. c = CHR ''0'') (rev (pad9 ns)))) \<subseteq> set (pad9 ns)"
    using set_dropWhileD by fastforce
  ultimately show ?thesis by (auto simp: fraction_text_def Let_def list_all_iff)
qed

lemma time_json_ok: "time_json t = Some v \<Longrightarrow> json_ok v \<and> depth v = 0"
  by (auto simp: time_json_def pad4_def pad2_def dec_digit_plain fraction_plain
      split: if_splits intro!: lexstr_ascii_name)

lemma payload_json_ok:
  assumes "payload_json p = Some v"
  shows "json_ok v" and "depth v \<le> Suc (payload_nesting (payload_raw p))"
proof -
  have names: "lexstr ''connection_id''" "lexstr ''user_id''" "lexstr ''status''" "lexstr ''command_type''"
    "lexstr ''code''" "lexstr ''message''" "lexstr ''retryable''" "lexstr ''room_id''"
    "lexstr ''sender_id''" "lexstr ''recipient_id''" "lexstr ''payload''"
    by (rule lexstr_ascii_name, simp)+
  from assms names show "json_ok v"
    by (cases p) (auto simp: str_member_def dest: raw_json_ok)
  from assms show "depth v \<le> Suc (payload_nesting (payload_raw p))"
    by (cases p) (auto simp: str_member_def payload_nesting_def)
qed

lemma outbound_json_ok:
  assumes "outbound_json m = Some v" and "payload_nesting (payload_raw (out_Payload m)) + 2 \<le> maxNestingDepth"
  shows "json_ok v" and "depth v \<le> maxNestingDepth"
proof -
  from assms(1) obtain p t where pt: "payload_json (out_Payload m) = Some p" "time_json (out_SentAt m) = Some t"
    and v: "v = JObj ([str_member ''version'' (out_Version m), str_member ''type'' (out_Type m)] @
                      (if out_RequestID m = [] then [] else [str_member ''request_id'' (out_RequestID m)]) @
                      [str_member ''event_id'' (out_EventID m), (''payload'', p), (''sent_at'', t)])"
    by (auto simp: outbound_json_def split: option.splits)
  have names: "lexstr ''version''" "lexstr ''type''" "lexstr ''request_id''" "lexstr ''event_id''"
    "lexstr ''payload''" "lexstr ''sent_at''"
    by (rule lexstr_ascii_name, simp)+
  show "json_ok v"
    using names time_json_ok [OF pt(2)] payload_json_ok [OF pt(1)] by (simp add: v str_member_def)
  show "depth v \<le> maxNestingDepth"
    using time_json_ok [OF pt(2)] payload_json_ok(2) [OF pt(1)] assms(2) by (simp add: v str_member_def)
qed

text \<open>A frame that is exactly one JSON object, with its decoded fields.\<close>

definition one_object :: "bytes \<Rightarrow> InboundMessage option" where
  "one_object payload =
     (if TrimSpace payload = [] \<or> hd (TrimSpace payload) \<noteq> CHR ''{'' then None
      else (case decode_first payload of
              Some (m, rest) \<Rightarrow> if skip_ws rest = [] then Some m else None
            | None \<Rightarrow> None))"

lemma decode_marshalled:
  assumes "encodable m" and "inbound_members m = Some ms"
  shows "one_object (render (JObj ms)) = Some (m\<lparr>in_Payload := compact_payload (in_Payload m)\<rparr>)"
proof -
  have "decode_first (render (JObj ms)) = Some (m\<lparr>in_Payload := compact_payload (in_Payload m)\<rparr>, [])"
    using parse_object_render [OF json_ok_inbound [OF assms]] store_inbound_members [OF assms]
    by (simp add: decode_first_def del: render.simps)
  then show ?thesis
    unfolding one_object_def TrimSpace_object by simp
qed

lemma DecodeInbound_one_object:
  "one_object payload = Some m \<Longrightarrow>
     DecodeInbound payload = (case Validate m of Some e \<Rightarrow> (zero_message, Some e) | None \<Rightarrow> (m, None))"
  by (auto simp: one_object_def DecodeInbound_def Let_def split: if_splits option.splits)

lemma DecodeInbound_not_one_object:
  "one_object payload = None \<Longrightarrow>
     \<exists>e. DecodeInbound payload = (zero_message, Some e) \<and> pe_Code e = ErrorInvalidJSON"
  by (auto simp: one_object_def DecodeInbound_def Let_def split: if_splits option.splits)

lemma Validate_not_json: "Validate m = Some e \<Longrightarrow> pe_Code e \<noteq> ErrorInvalidJSON"
  using Validate_code [of m e] by (auto split: if_splits)

lemma Validate_compact:
  "Validate m = None \<Longrightarrow> Validate (m\<lparr>in_Payload := compact_payload (in_Payload m)\<rparr>) = None"
  by (auto simp: Validate_iff well_formed_command_def validPayload_compact)

definition decode_accepted :: "bytes \<Rightarrow> InboundMessage option" where
  "decode_accepted payload = (case DecodeInbound payload of (m, None) \<Rightarrow> Some m | _ \<Rightarrow> None)"

lemma decode_accepted_iff: "decode_accepted p = Some m \<longleftrightarrow> DecodeInbound p = (m, None)"
  by (auto simp: decode_accepted_def split: prod.splits option.splits)

interpretation inbound: codec MarshalInbound decode_accepted
  "\<lambda>m. encodable m \<and> Validate m = None" "\<lambda>m. m\<lparr>in_Payload := compact_payload (in_Payload m)\<rparr>"
proof
  fix m
  assume "encodable m \<and> Validate m = None"
  then show "\<exists>s. MarshalInbound m = Some s"
    by (auto simp: encodable_def MarshalInbound_def inbound_members_def)
next
  fix m s
  assume good: "encodable m \<and> Validate m = None" and "MarshalInbound m = Some s"
  then obtain ms where ms: "inbound_members m = Some ms" "s = render (JObj ms)"
    by (auto simp: MarshalInbound_def simp del: render.simps)
  from good have "one_object s = Some (m\<lparr>in_Payload := compact_payload (in_Payload m)\<rparr>)"
    unfolding ms(2) by (intro decode_marshalled [OF _ ms(1)]) simp
  from DecodeInbound_one_object [OF this] good
  show "decode_accepted s = Some (m\<lparr>in_Payload := compact_payload (in_Payload m)\<rparr>)"
    by (simp add: decode_accepted_iff Validate_compact)
qed

subsection \<open>Properties of the protocol layer\<close>

text \<open>
  C25: a decoded command passes validation exactly when its trimmed version is 1,
  its trimmed request id is present and at most 128 bytes long, its type is one of the four commands,
  the identifiers are within 256 bytes, and the fields its type requires are there (a target, and an
  object payload for the two delivery commands); a refusal always carries the trimmed request id.
\<close>

theorem Validate_accepts_exactly:
  "(Validate m = None) = well_formed_command m \<and>
   (case Validate m of None \<Rightarrow> True | Some e \<Rightarrow> pe_RequestID e = TrimSpace (in_RequestID m))"
  by (auto simp: Validate_iff Validate_request_id split: option.splits)

text \<open>
  C26: decoding a frame gives either the one object it holds, satisfying every
  validation rule, and no error, or an error and the zero message; the error is \<open>invalid_json\<close>
  exactly when the frame is not one JSON object of the right field types, else it is the one of
  \<open>Validate\<close>.
\<close>

theorem DecodeInbound_classifies:
  "(case DecodeInbound payload of
      (m, None) \<Rightarrow> one_object payload = Some m \<and> well_formed_command m
    | (m, Some err) \<Rightarrow>
        m = zero_message \<and> (pe_Code err = ErrorInvalidJSON) = (one_object payload = None) \<and>
        (case one_object payload of None \<Rightarrow> True | Some m' \<Rightarrow> Validate m' = Some err))"
proof (cases "one_object payload")
  case None
  with DecodeInbound_not_one_object [OF None] show ?thesis by auto
next
  case (Some m)
  with DecodeInbound_one_object [OF Some] show ?thesis
    by (auto simp: Validate_iff dest: Validate_not_json split: option.splits)
qed

text \<open>
  C27: a valid command whose texts are UTF-8, marshalled by its struct tags,
  decodes to itself, its payload in compact form.
\<close>

theorem DecodeInbound_roundtrip:
  assumes "encodable m" and "Validate m = None"
  shows "\<exists>s. MarshalInbound m = Some s \<and>
             DecodeInbound s = (m\<lparr>in_Payload := compact_payload (in_Payload m)\<rparr>, None)"
  using inbound.dec_after_enc [of m] assms
  by (simp add: bind_eq_Some_conv decode_accepted_iff)

definition sample_join :: InboundMessage where
  "sample_join = zero_message\<lparr>in_Version := ''1'', in_Type := CommandRoomJoin,
     in_RequestID := ''r1'', in_RoomID := ''lobby''\<rparr>"

theorem DecodeInbound_roundtrip_witness:
  "encodable sample_join \<and> Validate sample_join = None \<and>
   (\<exists>s. MarshalInbound sample_join = Some s \<and>
        DecodeInbound s = (sample_join\<lparr>in_Payload := compact_payload (in_Payload sample_join)\<rparr>, None))"
proof -
  have e: "encodable sample_join" by code_simp
  have v: "Validate sample_join = None" by code_simp
  from e v DecodeInbound_roundtrip [OF e v] show ?thesis by blast
qed

text \<open>
  every frame the server marshals is one JSON text, the one of its envelope;
  marshalling fails only for a payload that is not JSON or a clock outside the years 0 to 9999.
\<close>

theorem MarshalOutbound_parses:
  assumes "payload_nesting (payload_raw (out_Payload m)) + 2 \<le> maxNestingDepth"
  shows "(case MarshalOutbound m of
            Some s \<Rightarrow> parse_text s = outbound_json m
          | None \<Rightarrow> raw_json (payload_raw (out_Payload m)) = None \<or>
                    \<not> (0 \<le> w_year (out_SentAt m) \<and> w_year (out_SentAt m) \<le> 9999))"
proof (cases "outbound_json m")
  case None
  then show ?thesis
    by (auto simp: MarshalOutbound_def outbound_json_def payload_json_None time_json_def
        split: option.splits if_splits)
next
  case (Some v)
  with parse_text_render [OF outbound_json_ok [OF Some assms]] show ?thesis
    by (simp add: MarshalOutbound_def)
qed

definition sample_time :: wall_time where
  "sample_time = \<lparr>w_year = 2026, w_month = 6, w_day = 22, w_hour = 15, w_minute = 0, w_second = 0,
     w_nsec = 250000000\<rparr>"

definition sample_event :: OutboundMessage where
  "sample_event = \<lparr>out_Version = ProtocolVersion, out_Type = EventServerDraining, out_RequestID = [],
     out_EventID = ''evt_00'', out_Payload = PDraining ''bye'', out_SentAt = sample_time\<rparr>"

theorem MarshalOutbound_parses_witness:
  "payload_nesting (payload_raw (out_Payload sample_event)) + 2 \<le> maxNestingDepth \<and>
   (case MarshalOutbound sample_event of
      Some s \<Rightarrow> parse_text s = outbound_json sample_event | None \<Rightarrow> False)"
proof -
  have n: "payload_nesting (payload_raw (out_Payload sample_event)) + 2 \<le> maxNestingDepth" by code_simp
  have r: "raw_json (payload_raw (out_Payload sample_event)) \<noteq> None" by code_simp
  have y: "w_year (out_SentAt sample_event) = 2026" by code_simp
  from MarshalOutbound_parses [OF n] n r y show ?thesis by (auto split: option.splits)
qed

end
