(* ===== verification/BrokerEvents.thy ===== *)
theory BrokerEvents
  imports Message
begin

text \<open>
  The envelope of \<open>internal/broker/event.go\<close> that nodes exchange, with \<open>Encode\<close> and
  \<open>DecodeBrokerEvent\<close> over the JSON model, and its round trip as an instance of \<open>codec\<close>.
\<close>

record BrokerEvent =
  be_NodeID :: bytes
  be_Type :: bytes
  be_RoomID :: bytes
  be_SenderID :: bytes
  be_RecipientID :: bytes
  be_Payload :: bytes

definition zero_event :: BrokerEvent where
  "zero_event = \<lparr>be_NodeID = [], be_Type = [], be_RoomID = [], be_SenderID = [],
     be_RecipientID = [], be_Payload = []\<rparr>"

text \<open>\<open>room_id\<close> and \<open>recipient_id\<close> are \<open>omitempty\<close>; a nil payload is written as \<open>null\<close>.\<close>

definition event_members :: "BrokerEvent \<Rightarrow> (bytes \<times> json) list option" where
  "event_members e =
     map_option (\<lambda>p.
       [str_member ''node_id'' (be_NodeID e), str_member ''type'' (be_Type e)] @
       opt_member ''room_id'' (be_RoomID e) @ [str_member ''sender_id'' (be_SenderID e)] @
       opt_member ''recipient_id'' (be_RecipientID e) @ [(''payload'', p)])
     (raw_json (be_Payload e))"

definition Encode :: "BrokerEvent \<Rightarrow> bytes option" where
  "Encode e = map_option (\<lambda>ms. render (JObj ms)) (event_members e)"

definition event_fields :: "bytes list" where
  "event_fields = [''node_id'', ''type'', ''room_id'', ''sender_id'', ''recipient_id'', ''payload'']"

definition store_event :: "member \<Rightarrow> BrokerEvent \<Rightarrow> BrokerEvent option" where
  "store_event mem e =
     (case mem of (k, text, v) \<Rightarrow>
        (case field_of event_fields (unquote k) of
           None \<Rightarrow> Some e
         | Some f \<Rightarrow>
             if f = ''node_id'' then map_option (\<lambda>x. e\<lparr>be_NodeID := x\<rparr>) (set_string v (be_NodeID e))
             else if f = ''type'' then map_option (\<lambda>x. e\<lparr>be_Type := x\<rparr>) (set_string v (be_Type e))
             else if f = ''room_id'' then map_option (\<lambda>x. e\<lparr>be_RoomID := x\<rparr>) (set_string v (be_RoomID e))
             else if f = ''sender_id'' then map_option (\<lambda>x. e\<lparr>be_SenderID := x\<rparr>) (set_string v (be_SenderID e))
             else if f = ''recipient_id'' then
               map_option (\<lambda>x. e\<lparr>be_RecipientID := x\<rparr>) (set_string v (be_RecipientID e))
             else Some (e\<lparr>be_Payload := text\<rparr>)))"

text \<open>
  \<open>json.Unmarshal\<close> into the struct: one complete JSON text is required, \<open>null\<close> leaves the zero
  event, any other value that is not an object is a type error. The event of a failed decode is
  not used by the caller, so an error is \<open>None\<close>.
\<close>

definition DecodeBrokerEvent :: "bytes \<Rightarrow> BrokerEvent option" where
  "DecodeBrokerEvent data =
     (case parse_text data of
        Some JNull \<Rightarrow> Some zero_event
      | Some (JObj _) \<Rightarrow>
          (case parse_object data of
             Some (ms, _) \<Rightarrow> store_members store_event ms zero_event
           | None \<Rightarrow> None)
      | _ \<Rightarrow> None)"

subsection \<open>Round trip\<close>

definition event_text :: "bytes \<Rightarrow> bytes" where
  "event_text p = (case raw_json p of None \<Rightarrow> p | Some v \<Rightarrow> render v)"

definition event_encodable :: "BrokerEvent \<Rightarrow> bool" where
  "event_encodable e =
     (valid_utf8 (be_NodeID e) \<and> valid_utf8 (be_Type e) \<and> valid_utf8 (be_RoomID e) \<and>
      valid_utf8 (be_SenderID e) \<and> valid_utf8 (be_RecipientID e) \<and>
      raw_json (be_Payload e) \<noteq> None \<and> payload_nesting (be_Payload e) < maxNestingDepth)"

lemma event_field_names [simp]:
  "field_of event_fields (unquote ''node_id'') = Some ''node_id''"
  "field_of event_fields (unquote ''type'') = Some ''type''"
  "field_of event_fields (unquote ''room_id'') = Some ''room_id''"
  "field_of event_fields (unquote ''sender_id'') = Some ''sender_id''"
  "field_of event_fields (unquote ''recipient_id'') = Some ''recipient_id''"
  "field_of event_fields (unquote ''payload'') = Some ''payload''"
  by code_simp+

lemma json_ok_event:
  assumes "event_encodable e" and "event_members e = Some ms"
  shows "json_ok (JObj ms)" and "depth (JObj ms) \<le> maxNestingDepth"
proof -
  from assms obtain p where p: "raw_json (be_Payload e) = Some p" "depth p < maxNestingDepth"
    by (auto simp: event_encodable_def payload_nesting_def)
  have names: "lexstr ''node_id''" "lexstr ''type''" "lexstr ''room_id''" "lexstr ''sender_id''"
    "lexstr ''recipient_id''" "lexstr ''payload''"
    by (rule lexstr_ascii_name, simp)+
  show "json_ok (JObj ms)"
    using assms p raw_json_ok [OF p(1)] names
    by (auto simp: event_members_def opt_member_def str_member_def split: if_splits)
  show "depth (JObj ms) \<le> maxNestingDepth"
    using assms p
    by (auto simp: event_members_def opt_member_def str_member_def maxNestingDepth_def split: if_splits)
qed

lemma store_event_members:
  assumes "event_encodable e" and "event_members e = Some ms"
  shows "store_members store_event (map with_text ms) zero_event =
           Some (e\<lparr>be_Payload := event_text (be_Payload e)\<rparr>)"
  using assms
  by (auto simp: event_members_def opt_member_def str_member_def event_encodable_def with_text_def
      store_event_def zero_event_def event_text_def store_members_append
      split: option.splits if_splits)

interpretation node_event: codec Encode DecodeBrokerEvent event_encodable
  "\<lambda>e. e\<lparr>be_Payload := event_text (be_Payload e)\<rparr>"
proof
  fix e
  assume "event_encodable e"
  then show "\<exists>s. Encode e = Some s"
    by (auto simp: event_encodable_def Encode_def event_members_def)
next
  fix e s
  assume good: "event_encodable e" and "Encode e = Some s"
  then obtain ms where ms: "event_members e = Some ms" "s = render (JObj ms)"
    by (auto simp: Encode_def simp del: render.simps)
  have "parse_text s = Some (JObj ms)" and "parse_object s = Some (map with_text ms, [])"
    unfolding ms(2) using json_ok_event [OF good ms(1)]
    by (auto intro: parse_text_render parse_object_render simp del: render.simps)
  then show "DecodeBrokerEvent s = Some (e\<lparr>be_Payload := event_text (be_Payload e)\<rparr>)"
    using store_event_members [OF good ms(1)] by (simp add: DecodeBrokerEvent_def)
qed

text \<open>
  an event whose texts are UTF-8 and whose payload is JSON is decoded by the
  receiving node with every field as sent, the payload in compact form; it is refused by \<open>Encode\<close>
  exactly when its payload is not JSON.
\<close>

theorem BrokerEvent_roundtrip:
  assumes "event_encodable e"
  shows "Option.bind (Encode e) DecodeBrokerEvent = Some (e\<lparr>be_Payload := event_text (be_Payload e)\<rparr>) \<and>
         (Encode e' = None) = (be_Payload e' \<noteq> [] \<and> parse_text (be_Payload e') = None)"
  using node_event.dec_after_enc [OF assms]
  by (simp add: Encode_def event_members_def raw_json_def)

definition sample_broadcast :: BrokerEvent where
  "sample_broadcast = \<lparr>be_NodeID = ''n1'', be_Type = ''room_broadcast'', be_RoomID = ''lobby'',
     be_SenderID = ''alice'', be_RecipientID = [], be_Payload = ''{ }''\<rparr>"

theorem BrokerEvent_roundtrip_witness:
  "event_encodable sample_broadcast \<and>
   Option.bind (Encode sample_broadcast) DecodeBrokerEvent = Some (sample_broadcast\<lparr>be_Payload := ''{}''\<rparr>)"
proof -
  have e: "event_encodable sample_broadcast" by code_simp
  have t: "event_text (be_Payload sample_broadcast) = ''{}''" by code_simp
  from e t BrokerEvent_roundtrip [OF e] show ?thesis by metis
qed

end
