(* ===== verification/Brokers.thy ===== *)
theory Brokers
  imports GoText
begin

text \<open>
  The publish/subscribe layer of \<open>internal/broker\<close>: the in-memory bus (\<open>memory.go\<close>), the
  NATS JetStream backend (\<open>nats.go\<close>) and the contract of the \<open>Broker\<close> interface
  (\<open>broker.go\<close>) as the locale \<open>broker_contract\<close>, interpreted on both.
\<close>

definition ErrBrokerClosed :: goerror where
  "ErrBrokerClosed = ''broker is closed''"

subsection \<open>Subject patterns\<close>

definition matchSubject :: "bytes \<Rightarrow> bytes \<Rightarrow> bool" where
  "matchSubject pattern subject =
     (if pattern = subject then True
      else if HasSuffix pattern ''.>'' then HasPrefix subject (TrimSuffix pattern ''.>'' @ ''.'')
      else if pattern = ''>'' then True
      else False)"

subsection \<open>The in-memory bus\<close>

record 'h memorySubscription =
  ms_subject :: bytes
  ms_handler :: 'h

record 'h MemoryBroker =
  mb_subscribers :: "(nat, 'h memorySubscription) gomap"
  mb_nextID :: nat
  mb_closed :: bool

definition NewMemoryBroker :: "'h MemoryBroker" where
  "NewMemoryBroker = \<lparr>mb_subscribers = [], mb_nextID = 0, mb_closed = False\<rparr>"

text \<open>
  The matching subscriptions are collected in map order (\<open>pick\<close>) under the lock, then every handler
  runs on the publisher's goroutine; \<open>run h subject data\<close> is the effect of calling the handler
  \<open>h\<close> on the state \<open>'w\<close>.
\<close>

definition mem_matches :: "(nat list \<Rightarrow> nat list) \<Rightarrow> bytes \<Rightarrow> 'h MemoryBroker \<Rightarrow> 'h memorySubscription list" where
  "mem_matches pick subject b =
     filter (\<lambda>sub. matchSubject (ms_subject sub) subject)
       (List.map_filter (mget (mb_subscribers b)) (range_order pick (mkeys (mb_subscribers b))))"

definition mem_Publish ::
    "('h \<Rightarrow> bytes \<Rightarrow> bytes \<Rightarrow> 'w \<Rightarrow> 'w) \<Rightarrow> (nat list \<Rightarrow> nat list) \<Rightarrow> bytes \<Rightarrow> bytes \<Rightarrow>
     'h MemoryBroker \<Rightarrow> 'w \<Rightarrow> goerror option \<times> 'w" where
  "mem_Publish run pick subject data b w =
     (if mb_closed b then (Some ErrBrokerClosed, w)
      else (None, fold (\<lambda>sub. run (ms_handler sub) subject data) (mem_matches pick subject b) w))"

definition mem_Subscribe :: "bytes \<Rightarrow> 'h \<Rightarrow> 'h MemoryBroker \<Rightarrow> (goerror + nat) \<times> 'h MemoryBroker" where
  "mem_Subscribe subject handler b =
     (if mb_closed b then (Inl ErrBrokerClosed, b)
      else (let subID = mb_nextID b in
            (Inr subID,
             b\<lparr>mb_nextID := subID + 1,
               mb_subscribers := mset_key subID \<lparr>ms_subject = subject, ms_handler = handler\<rparr> (mb_subscribers b)\<rparr>)))"

text \<open>The function \<open>Subscribe\<close> returns, for the subscription \<open>subID\<close>.\<close>

definition mem_cancel :: "nat \<Rightarrow> 'h MemoryBroker \<Rightarrow> 'h MemoryBroker" where
  "mem_cancel subID b = b\<lparr>mb_subscribers := mdel subID (mb_subscribers b)\<rparr>"

definition mem_Ready :: "'h MemoryBroker \<Rightarrow> bool" where
  "mem_Ready b = (\<not> mb_closed b)"

definition mem_Close :: "'h MemoryBroker \<Rightarrow> 'h MemoryBroker" where
  "mem_Close b = b\<lparr>mb_closed := True, mb_subscribers := []\<rparr>"

subsection \<open>The NATS backend\<close>

text \<open>
  The \<open>nats.go\<close> client library is third-party code: the results of its calls are arguments, and
  the calls that release its resources are recorded. \<open>'c\<close> is a \<open>jetstream.ConsumeContext\<close>.
\<close>

datatype 'c nats_call = StopConsumer 'c | CloseConnection

record 'c NATSBroker =
  nb_nodeID :: bytes
  nb_subs :: "'c list"
  nb_closed :: bool
  nb_subSeq :: nat

definition streamName :: bytes where
  "streamName = ''BLOCKFORGE''"

definition streamSubjects :: bytes where
  "streamSubjects = ''blockforge.>''"

definition consumerPrefix :: bytes where
  "consumerPrefix = ''blockforge-node-''"

text \<open>\<open>connect\<close>, \<open>newJS\<close> and \<open>stream\<close> are the errors of the three library calls.\<close>

definition NewNATSBroker ::
    "goerror option \<Rightarrow> goerror option \<Rightarrow> goerror option \<Rightarrow> bytes \<Rightarrow> (goerror + 'c NATSBroker) \<times> 'c nats_call list" where
  "NewNATSBroker connect newJS stream nodeID =
     (case connect of
        Some err \<Rightarrow> (Inl err, [])
      | None \<Rightarrow>
          (case newJS of
             Some err \<Rightarrow> (Inl err, [CloseConnection])
           | None \<Rightarrow>
               (case stream of
                  Some err \<Rightarrow> (Inl err, [CloseConnection])
                | None \<Rightarrow>
                    (Inr \<lparr>nb_nodeID = nodeID, nb_subs = [], nb_closed = False, nb_subSeq = 0\<rparr>, []))))"

definition nats_Publish :: "goerror option \<Rightarrow> 'c NATSBroker \<Rightarrow> goerror option" where
  "nats_Publish jsPublish b = (if nb_closed b then Some ErrBrokerClosed else jsPublish)"

definition sanitizeConsumerName :: "bytes \<Rightarrow> bytes" where
  "sanitizeConsumerName name =
     map (\<lambda>ch. if ch = CHR ''.'' \<or> ch = CHR ''>'' \<or> ch = CHR ''*'' \<or> ch = CHR '' '' then CHR ''-'' else ch) name"

definition consumerName :: "bytes \<Rightarrow> 'c NATSBroker \<Rightarrow> bytes" where
  "consumerName subject b = sanitizeConsumerName (consumerPrefix @ nb_nodeID b @ ''-'' @ subject)"

text \<open>
  \<open>create\<close> is the error of \<open>CreateOrUpdateConsumer\<close> for the durable name it is given,
  \<open>consume\<close> what \<open>Consume\<close> returns.
\<close>

definition nats_Subscribe ::
    "(bytes \<Rightarrow> goerror option) \<Rightarrow> (goerror + 'c) \<Rightarrow> bytes \<Rightarrow> 'c NATSBroker \<Rightarrow> (goerror + 'c) \<times> 'c NATSBroker" where
  "nats_Subscribe create consume subject b =
     (if nb_closed b then (Inl ErrBrokerClosed, b)
      else
        (let b1 = b\<lparr>nb_subSeq := nb_subSeq b + 1\<rparr> in
         case create (consumerName subject b1) of
           Some err \<Rightarrow> (Inl err, b1)
         | None \<Rightarrow>
             (case consume of
                Inl err \<Rightarrow> (Inl err, b1)
              | Inr ctx \<Rightarrow> (Inr ctx, b1\<lparr>nb_subs := nb_subs b1 @ [ctx]\<rparr>))))"

definition nats_Ready :: "bool \<Rightarrow> 'c NATSBroker \<Rightarrow> bool" where
  "nats_Ready isConnected b = (if nb_closed b then False else isConnected)"

definition nats_Close :: "'c NATSBroker \<Rightarrow> 'c NATSBroker \<times> 'c nats_call list" where
  "nats_Close b =
     (if nb_closed b then (b, [])
      else (b\<lparr>nb_closed := True, nb_subs := []\<rparr>, map StopConsumer (nb_subs b) @ [CloseConnection]))"

subsection \<open>The contract of the interface\<close>

text \<open>
  What callers rely on: \<open>Close\<close> is final. A closed broker is not ready and refuses every
  publication and subscription with \<open>ErrBrokerClosed\<close>, and no call reopens it.
\<close>

datatype 'm broker_call = CallPublish bytes bytes | CallSubscribe bytes 'm | CallClose

fun run_call :: "(bytes \<Rightarrow> bytes \<Rightarrow> 'b \<Rightarrow> goerror option) \<Rightarrow> (bytes \<Rightarrow> 'm \<Rightarrow> 'b \<Rightarrow> (goerror + 'i) \<times> 'b) \<Rightarrow>
    ('b \<Rightarrow> 'b) \<Rightarrow> 'm broker_call \<Rightarrow> 'b \<Rightarrow> goerror option \<times> 'b" where
  "run_call publish subscribe close (CallPublish s d) b = (publish s d b, b)"
| "run_call publish subscribe close (CallSubscribe s m) b =
     (case subscribe s m b of (Inl err, b') \<Rightarrow> (Some err, b') | (Inr i, b') \<Rightarrow> (None, b'))"
| "run_call publish subscribe close CallClose b = (None, close b)"

fun run_calls :: "(bytes \<Rightarrow> bytes \<Rightarrow> 'b \<Rightarrow> goerror option) \<Rightarrow> (bytes \<Rightarrow> 'm \<Rightarrow> 'b \<Rightarrow> (goerror + 'i) \<times> 'b) \<Rightarrow>
    ('b \<Rightarrow> 'b) \<Rightarrow> 'm broker_call list \<Rightarrow> 'b \<Rightarrow> goerror option list \<times> 'b" where
  "run_calls publish subscribe close [] b = ([], b)"
| "run_calls publish subscribe close (c # cs) b =
     (case run_call publish subscribe close c b of
        (e, b') \<Rightarrow> (case run_calls publish subscribe close cs b' of (es, b'') \<Rightarrow> (e # es, b'')))"

text \<open>What a series of calls answers on a closed broker.\<close>

definition refusals :: "'m broker_call list \<Rightarrow> goerror option list" where
  "refusals cs = map (\<lambda>c. case c of CallClose \<Rightarrow> None | _ \<Rightarrow> Some ErrBrokerClosed) cs"

locale broker_contract =
  fixes closed :: "'b \<Rightarrow> bool"
    and ready :: "'b \<Rightarrow> bool"
    and publish :: "bytes \<Rightarrow> bytes \<Rightarrow> 'b \<Rightarrow> goerror option"
    and subscribe :: "bytes \<Rightarrow> 'm \<Rightarrow> 'b \<Rightarrow> (goerror + 'i) \<times> 'b"
    and close :: "'b \<Rightarrow> 'b"
  assumes close_closes: "closed (close b)"
    and closed_not_ready: "closed b \<Longrightarrow> \<not> ready b"
    and closed_publish: "closed b \<Longrightarrow> publish s d b = Some ErrBrokerClosed"
    and closed_subscribe: "closed b \<Longrightarrow> subscribe s m b = (Inl ErrBrokerClosed, b)"
begin

abbreviation bcall where "bcall \<equiv> run_call publish subscribe close"
abbreviation bcalls where "bcalls \<equiv> run_calls publish subscribe close"

lemma closed_call: "closed b \<Longrightarrow> closed (snd (bcall c b))"
  by (cases c) (auto simp: closed_subscribe close_closes)

lemma closed_calls: "closed b \<Longrightarrow> closed (snd (bcalls cs b)) \<and> fst (bcalls cs b) = refusals cs"
proof (induction cs arbitrary: b)
  case Nil
  then show ?case by (simp add: refusals_def)
next
  case (Cons c cs)
  have "fst (bcall c b) = (case c of CallClose \<Rightarrow> None | _ \<Rightarrow> Some ErrBrokerClosed)"
    using Cons.prems by (cases c) (auto simp: closed_publish closed_subscribe)
  with Cons.IH [OF closed_call [OF Cons.prems, of c]] show ?case
    by (auto simp: refusals_def split: prod.splits)
qed

lemma close_is_final: "\<not> ready (snd (bcalls cs (close b))) \<and> fst (bcalls cs (close b)) = refusals cs"
  using closed_calls [OF close_closes] closed_not_ready by blast

end

interpretation memory: broker_contract mb_closed mem_Ready
  "\<lambda>s d b. fst (mem_Publish run pick s d b w)" mem_Subscribe mem_Close
  for run :: "'h \<Rightarrow> bytes \<Rightarrow> bytes \<Rightarrow> 'w \<Rightarrow> 'w" and pick and w
  by unfold_locales (simp_all add: mem_Close_def mem_Ready_def mem_Publish_def mem_Subscribe_def)

interpretation nats: broker_contract nb_closed "nats_Ready isConnected"
  "\<lambda>s d. nats_Publish (jsPublish s d)" "\<lambda>s m. nats_Subscribe (create s) (m :: goerror + 'c) s"
  "\<lambda>b. fst (nats_Close b)"
  for isConnected and jsPublish :: "bytes \<Rightarrow> bytes \<Rightarrow> goerror option" and create
  by unfold_locales (simp_all add: nats_Close_def nats_Ready_def nats_Publish_def nats_Subscribe_def)

text \<open>
  C35: once closed, either broker stays closed whatever is called on it: it is not
  ready, and every later publication or subscription returns \<open>ErrBrokerClosed\<close>.
\<close>

theorem broker_close_final:
  "fst (run_calls (\<lambda>s d b. fst (mem_Publish run pick s d b w)) mem_Subscribe mem_Close cs (mem_Close b)) =
     refusals cs \<and>
   \<not> mem_Ready (snd (run_calls (\<lambda>s d b. fst (mem_Publish run pick s d b w)) mem_Subscribe mem_Close
                   cs (mem_Close b))) \<and>
   fst (run_calls (\<lambda>s d. nats_Publish (jsPublish s d)) (\<lambda>s m. nats_Subscribe (create s) m s)
          (\<lambda>b. fst (nats_Close b)) ns (fst (nats_Close n))) = refusals ns \<and>
   \<not> nats_Ready isConnected
       (snd (run_calls (\<lambda>s d. nats_Publish (jsPublish s d)) (\<lambda>s m. nats_Subscribe (create s) m s)
          (\<lambda>b. fst (nats_Close b)) ns (fst (nats_Close n))))"
  using memory.close_is_final [of run pick w cs b] nats.close_is_final [of isConnected jsPublish create ns n]
  by simp

subsection \<open>Subject matching is token-wise\<close>

text \<open>
  The reference semantics of NATS subjects: patterns and subjects are sequences of tokens separated
  by dots, and a final \<open>>\<close> stands for one or more tokens.
\<close>

fun token_match :: "bytes list \<Rightarrow> bytes list \<Rightarrow> bool" where
  "token_match [] ss = (ss = [])"
| "token_match (p # ps) [] = False"
| "token_match (p # ps) (s # ss) = (if p = ''>'' \<and> ps = [] then True else p = s \<and> token_match ps ss)"

definition subject_tokens :: "bytes \<Rightarrow> bytes list" where
  "subject_tokens s = SplitByte (CHR ''.'') s"

fun join_tokens :: "bytes list \<Rightarrow> bytes" where
  "join_tokens [] = []"
| "join_tokens [p] = p"
| "join_tokens (p # ps) = p @ CHR ''.'' # join_tokens ps"

lemma subject_tokens_not_Nil [simp]: "subject_tokens s \<noteq> []"
  by (simp add: subject_tokens_def)

lemma join_subject_tokens [simp]: "join_tokens (subject_tokens s) = s"
proof (induction s)
  case Nil
  then show ?case by (simp add: subject_tokens_def)
next
  case (Cons c s)
  then obtain p ps where t: "subject_tokens s = p # ps" "join_tokens (p # ps) = s"
    by (metis subject_tokens_not_Nil list.exhaust)
  then show ?case by (cases ps) (auto simp: subject_tokens_def)
qed

lemma join_tokens_append:
  "ps \<noteq> [] \<Longrightarrow> qs \<noteq> [] \<Longrightarrow> join_tokens (ps @ qs) = join_tokens ps @ CHR ''.'' # join_tokens qs"
proof (induction ps rule: join_tokens.induct)
  case (2 p)
  then show ?case by (cases qs) auto
qed auto

lemma token_match_iff:
  "token_match ps ss \<longleftrightarrow> ps = ss \<or> (\<exists>qs rs. ps = qs @ [''>''] \<and> ss = qs @ rs \<and> rs \<noteq> [])"
proof (induction ps ss rule: token_match.induct)
  case (3 p ps s ss)
  show ?case
  proof (cases "p = ''>'' \<and> ps = []")
    case True
    then have "p # ps = [] @ [''>''] \<and> s # ss = [] @ (s # ss) \<and> s # ss \<noteq> []" by simp
    with True show ?thesis by (metis token_match.simps(3))
  next
    case False
    have "(\<exists>qs rs. p # ps = qs @ [''>''] \<and> s # ss = qs @ rs \<and> rs \<noteq> []) \<longleftrightarrow>
          p = s \<and> (\<exists>qs rs. ps = qs @ [''>''] \<and> ss = qs @ rs \<and> rs \<noteq> [])" (is "?l \<longleftrightarrow> ?r")
    proof
      assume ?l
      then obtain qs rs where "p # ps = qs @ [''>'']" "s # ss = qs @ rs" "rs \<noteq> []" by blast
      with False show ?r by (cases qs) auto
    next
      assume ?r
      then obtain qs rs where "p = s" "ps = qs @ [''>'']" "ss = qs @ rs" "rs \<noteq> []" by blast
      then have "p # ps = (p # qs) @ [''>'']" "s # ss = (p # qs) @ rs" "rs \<noteq> []" by auto
      then show ?l by blast
    qed
    with 3 [OF False] False show ?thesis by auto
  qed
qed auto

lemma wildcard_tokens: "subject_tokens (q @ ''.>'') = subject_tokens q @ [''>'']"
  by (simp add: subject_tokens_def SplitByte_append_sep [of _ q "''>''", simplified])

lemma prefix_tokens:
  "HasPrefix s (q @ ''.'') \<longleftrightarrow> (\<exists>rs. rs \<noteq> [] \<and> subject_tokens s = subject_tokens q @ rs)"
proof
  assume "HasPrefix s (q @ ''.'')"
  then obtain t where "s = q @ CHR ''.'' # t" by (auto simp: HasPrefix_iff)
  then have "subject_tokens s = subject_tokens q @ subject_tokens t"
    by (simp add: subject_tokens_def SplitByte_append_sep)
  then show "\<exists>rs. rs \<noteq> [] \<and> subject_tokens s = subject_tokens q @ rs" by (metis subject_tokens_not_Nil)
next
  assume "\<exists>rs. rs \<noteq> [] \<and> subject_tokens s = subject_tokens q @ rs"
  then obtain rs where rs: "rs \<noteq> []" "subject_tokens s = subject_tokens q @ rs" by blast
  then have "s = join_tokens (subject_tokens q @ rs)" by (metis join_subject_tokens)
  then have "s = q @ CHR ''.'' # join_tokens rs"
    using rs(1) by (simp add: join_tokens_append)
  then show "HasPrefix s (q @ ''.'')" by (simp add: HasPrefix_iff)
qed

text \<open>
  the string comparison of the in-memory bus is exactly token-wise NATS
  matching: equal tokens, or a final \<open>>\<close> in the pattern that stands for at least one token.
\<close>

theorem matchSubject_tokens:
  "matchSubject pattern subject = token_match (subject_tokens pattern) (subject_tokens subject)"
proof -
  have eq: "subject_tokens pattern = subject_tokens subject \<longleftrightarrow> pattern = subject"
    by (metis join_subject_tokens)
  show ?thesis
  proof (cases "HasSuffix pattern ''.>''")
    case True
    then obtain q where q: "pattern = q @ ''.>''" by (auto simp: HasSuffix_iff)
    have "token_match (subject_tokens pattern) (subject_tokens subject) \<longleftrightarrow>
          pattern = subject \<or> (\<exists>rs. rs \<noteq> [] \<and> subject_tokens subject = subject_tokens q @ rs)"
      unfolding token_match_iff eq by (auto simp: q wildcard_tokens)
    then show ?thesis using True by (simp add: matchSubject_def q prefix_tokens)
  next
    case False
    have only: "qs = []" if "subject_tokens pattern = qs @ [''>'']" for qs
    proof (rule ccontr)
      assume "qs \<noteq> []"
      then have "join_tokens (qs @ [''>'']) = join_tokens qs @ ''.>''" by (simp add: join_tokens_append)
      then have "pattern = join_tokens qs @ ''.>''" using that by (metis join_subject_tokens)
      with False show False by (auto simp: HasSuffix_iff)
    qed
    have "subject_tokens ''>'' = [''>'']" by (simp add: subject_tokens_def)
    then have one: "subject_tokens pattern = [''>''] \<longleftrightarrow> pattern = ''>''" by (metis join_subject_tokens)
    have "token_match (subject_tokens pattern) (subject_tokens subject) \<longleftrightarrow> pattern = subject \<or> pattern = ''>''"
      unfolding token_match_iff eq one [symmetric]
      using only by (metis append_Nil subject_tokens_not_Nil)
    then show ?thesis using False by (simp add: matchSubject_def)
  qed
qed

subsection \<open>Delivery by the in-memory bus\<close>

text \<open>Identifiers are handed out once: every live one is below the next.\<close>

definition mem_ok :: "'h MemoryBroker \<Rightarrow> bool" where
  "mem_ok b = (mwf (mb_subscribers b) \<and> (\<forall>k \<in> set (mkeys (mb_subscribers b)). k < mb_nextID b))"

lemma mem_ok_New: "mem_ok NewMemoryBroker"
  by (simp add: mem_ok_def NewMemoryBroker_def)

lemma mem_ok_Subscribe: "mem_ok b \<Longrightarrow> mem_ok (snd (mem_Subscribe s h b))"
  by (auto simp: mem_ok_def mem_Subscribe_def Let_def mkeys_mset_key)

lemma mem_ok_cancel: "mem_ok b \<Longrightarrow> mem_ok (mem_cancel i b)"
  by (auto simp: mem_ok_def mem_cancel_def mkeys_mdel)

lemma mem_ok_Close: "mem_ok (mem_Close b)"
  by (simp add: mem_ok_def mem_Close_def)

definition live_matches :: "bytes \<Rightarrow> 'h MemoryBroker \<Rightarrow> (nat \<times> 'h memorySubscription) set" where
  "live_matches subject b =
     {(i, sub). mget (mb_subscribers b) i = Some sub \<and> matchSubject (ms_subject sub) subject}"

lemma mem_matches_live:
  assumes "mwf (mb_subscribers b)"
  shows "\<exists>ps. distinct (map fst ps) \<and> set ps = live_matches subject b \<and> mem_matches pick subject b = map snd ps"
proof -
  let ?m = "mb_subscribers b" and ?ks = "range_order pick (mkeys (mb_subscribers b))"
  let ?g = "\<lambda>k. the (mget ?m k)"
  let ?ps = "map (\<lambda>k. (k, ?g k)) (filter (\<lambda>k. matchSubject (ms_subject (?g k)) subject) ?ks)"
  have keys: "set ?ks = dom (mget ?m)" by (simp add: set_mkeys)
  then have "List.map_filter (mget ?m) ?ks = map ?g ?ks" by (intro map_filter_total) auto
  then have "mem_matches pick subject b = map snd ?ps"
    by (simp add: mem_matches_def filter_map o_def)
  moreover have "distinct (map fst ?ps)" using assms by (simp add: o_def mwf_def)
  moreover have "set ?ps = live_matches subject b"
    using keys by (auto simp: live_matches_def image_def domIff)
  ultimately show ?thesis by blast
qed

text \<open>
  publishing on an open in-memory bus runs the handler of every live
  subscription whose pattern matches exactly once, in some order, and no other handler.
\<close>

theorem mem_Publish_delivers:
  assumes "mem_ok b" and "\<not> mb_closed b"
  shows "\<exists>ps. distinct (map fst ps) \<and> set ps = live_matches subject b \<and>
              mem_Publish run pick subject data b w =
                (None, fold (\<lambda>(i, sub). run (ms_handler sub) subject data) ps w)"
proof -
  from assms(1) obtain ps where ps: "distinct (map fst ps)" "set ps = live_matches subject b"
      "mem_matches pick subject b = map snd ps"
    using mem_matches_live [of b subject pick] by (auto simp: mem_ok_def)
  have "mem_Publish run pick subject data b w = (None, fold (\<lambda>(i, sub). run (ms_handler sub) subject data) ps w)"
    using assms(2) by (simp add: mem_Publish_def ps(3) fold_map o_def case_prod_beta')
  with ps show ?thesis by blast
qed

definition sample_bus :: "bytes MemoryBroker" where
  "sample_bus = snd (mem_Subscribe ''blockforge.>'' ''hub'' NewMemoryBroker)"

theorem mem_Publish_delivers_witness:
  "mem_ok sample_bus \<and> \<not> mb_closed sample_bus \<and>
   (\<exists>ps. distinct (map fst ps) \<and> set ps = live_matches ''blockforge.rooms.a'' sample_bus \<and>
         mem_Publish (\<lambda>h s d w. (h, d) # w) rev ''blockforge.rooms.a'' ''x'' sample_bus [] =
           (None, fold (\<lambda>(i, sub). (#) (ms_handler sub, ''x'')) ps []))"
proof -
  have ok: "mem_ok sample_bus" unfolding sample_bus_def by (intro mem_ok_Subscribe mem_ok_New)
  have op: "\<not> mb_closed sample_bus" by code_simp
  from ok op mem_Publish_delivers [OF ok op, of "''blockforge.rooms.a''" "\<lambda>h s d w. (h, d) # w" rev "''x''" "[]"]
  show ?thesis by blast
qed

text \<open>
  a new subscription gets an identifier no live subscription has, so it
  replaces none; cancelling it restores exactly the subscriptions there were before, and a closed bus
  holds none.
\<close>

theorem mem_subscription_lifecycle:
  assumes "mem_ok b" and "\<not> mb_closed b"
  shows "(case mem_Subscribe subject handler b of
            (Inl err, b') \<Rightarrow> False
          | (Inr i, b') \<Rightarrow>
              mget (mb_subscribers b) i = None \<and> mem_ok b' \<and>
              mget (mb_subscribers b') =
                (mget (mb_subscribers b))(i \<mapsto> \<lparr>ms_subject = subject, ms_handler = handler\<rparr>) \<and>
              mget (mb_subscribers (mem_cancel i b')) = mget (mb_subscribers b) \<and>
              mb_subscribers (mem_Close b') = [])"
proof -
  have new: "mget (mb_subscribers b) (mb_nextID b) = None"
    using assms(1) by (auto simp: mem_ok_def set_mkeys dom_def)
  show ?thesis
    using assms new mem_ok_Subscribe [OF assms(1), of subject handler]
    by (auto simp: mem_Subscribe_def mem_cancel_def mem_Close_def Let_def fun_eq_iff)
qed

theorem mem_subscription_lifecycle_witness:
  "mem_ok sample_bus \<and> \<not> mb_closed sample_bus \<and>
   (case mem_Subscribe ''a'' ''h'' sample_bus of
      (Inl err, b') \<Rightarrow> False
    | (Inr i, b') \<Rightarrow> mget (mb_subscribers (mem_cancel i b')) = mget (mb_subscribers sample_bus))"
proof -
  have ok: "mem_ok sample_bus" unfolding sample_bus_def by (intro mem_ok_Subscribe mem_ok_New)
  have op: "\<not> mb_closed sample_bus" by code_simp
  from ok op mem_subscription_lifecycle [OF ok op, of "''a''" "''h''"]
  show ?thesis by (auto split: prod.splits sum.splits)
qed

subsection \<open>Resources of the NATS backend\<close>

text \<open>A series of subscriptions: for each its subject and what the library answers.\<close>

fun nats_subscribe_all ::
    "(bytes \<times> (bytes \<Rightarrow> goerror option) \<times> (goerror + 'c)) list \<Rightarrow> 'c NATSBroker \<Rightarrow> 'c list \<times> 'c NATSBroker" where
  "nats_subscribe_all [] b = ([], b)"
| "nats_subscribe_all ((subject, create, consume) # rs) b =
     (case nats_Subscribe create consume subject b of
        (Inl err, b') \<Rightarrow> nats_subscribe_all rs b'
      | (Inr ctx, b') \<Rightarrow> apfst (\<lambda>cs. ctx # cs) (nats_subscribe_all rs b'))"

lemma nats_subscribe_all_subs:
  "\<not> nb_closed b \<Longrightarrow>
     \<not> nb_closed (snd (nats_subscribe_all rs b)) \<and>
     nb_subs (snd (nats_subscribe_all rs b)) = nb_subs b @ fst (nats_subscribe_all rs b)"
  by (induction rs b rule: nats_subscribe_all.induct)
    (auto simp: nats_Subscribe_def Let_def split: option.splits sum.splits prod.splits)

text \<open>
  a NATS broker that was constructed without error and then served any series of
  subscriptions stops, on \<open>Close\<close>, exactly the consumers that were started, in order, then closes
  the connection; a second \<open>Close\<close> does nothing. A failed construction releases the connection it opened.
\<close>

theorem nats_Close_releases:
  "(case NewNATSBroker connect newJS stream nodeID of
      (Inl err, released) \<Rightarrow> released = (if connect = None then [CloseConnection] else [])
    | (Inr b, released) \<Rightarrow>
        released = [] \<and>
        (case nats_subscribe_all rs b of
           (started, b') \<Rightarrow>
             snd (nats_Close b') = map StopConsumer started @ [CloseConnection] \<and>
             snd (nats_Close (fst (nats_Close b'))) = []))"
proof (cases "connect = None \<and> newJS = None \<and> stream = None")
  case True
  let ?b = "\<lparr>nb_nodeID = nodeID, nb_subs = [], nb_closed = False, nb_subSeq = 0\<rparr>"
  obtain started b' where r: "nats_subscribe_all rs ?b = (started, b')" by fastforce
  with nats_subscribe_all_subs [of ?b rs] have "nb_subs b' = started" "\<not> nb_closed b'" by simp_all
  with True r show ?thesis by (simp add: NewNATSBroker_def nats_Close_def)
next
  case False
  then show ?thesis by (auto simp: NewNATSBroker_def split: option.splits)
qed

text \<open>
  the durable consumer name keeps its length and its valid bytes, and
  contains none of the bytes the code excludes, whatever the node and subject.
\<close>

theorem sanitizeConsumerName_valid:
  "length (sanitizeConsumerName name) = length name \<and>
   set (sanitizeConsumerName name) \<inter> set ''.>* '' = {} \<and>
   sanitizeConsumerName (sanitizeConsumerName name) = sanitizeConsumerName name \<and>
   set (consumerName subject b) \<inter> set ''.>* '' = {}"
  by (auto simp: sanitizeConsumerName_def consumerName_def)

end
