(* ===== verification/Routing.thy ===== *)
theory Routing
  imports Membership Metrics BrokerEvents Brokers
begin

text \<open>
  The process as a whole: the sessions, hubs, brokers, counters and log of one process, and the
  operations of \<open>client.go\<close> and \<open>hub.go\<close> that hand messages from one to the other. Locks are held
  for the pieces defined in \<open>Hub\<close>; each operation here is the sequence of such pieces the code runs.
\<close>

subsection \<open>The world\<close>

text \<open>
  What the code obtains from its environment, indexed by a counter of the draws made so far: random
  bytes, the clock (monotonic nanoseconds and wall time), map iteration orders, the answers of NATS and
  of the socket, and the texts of two library errors.
\<close>

record env =
  e_rand :: "nat \<Rightarrow> bytes option"
  e_clock :: "nat \<Rightarrow> int \<times> wall_time"
  e_order :: "nat \<Rightarrow> bytes list \<Rightarrow> bytes list"
  e_subs :: "nat \<Rightarrow> nat list \<Rightarrow> nat list"
  e_js :: "nat \<Rightarrow> goerror option"
  e_sock :: "nat \<Rightarrow> bool"
  e_randErr :: goerror
  e_marshalErr :: goerror

text \<open>A broker of either kind; the handler of a subscription is the hub it feeds.\<close>

datatype broker_impl = Mem "href MemoryBroker" | Nats "nat NATSBroker"

record world =
  w_clients :: "cref \<Rightarrow> Client"
  w_next :: cref
  w_hubs :: "href \<Rightarrow> Hub"
  w_brokers :: "bref \<Rightarrow> broker_impl"
  w_metrics :: Metrics
  w_log :: "log_entry list"
  w_env :: env
  w_tick :: nat

definition upd_client :: "cref \<Rightarrow> (Client \<Rightarrow> Client) \<Rightarrow> world \<Rightarrow> world" where
  "upd_client c f w = w\<lparr>w_clients := (w_clients w)(c := f (w_clients w c))\<rparr>"

definition upd_hub :: "href \<Rightarrow> (Hub \<Rightarrow> Hub) \<Rightarrow> world \<Rightarrow> world" where
  "upd_hub hb f w = w\<lparr>w_hubs := (w_hubs w)(hb := f (w_hubs w hb))\<rparr>"

definition metric :: "(Metrics \<Rightarrow> Metrics) \<Rightarrow> world \<Rightarrow> world" where
  "metric f w = w\<lparr>w_metrics := f (w_metrics w)\<rparr>"

definition logged :: "log_level \<Rightarrow> bytes \<Rightarrow> (bytes \<times> log_value) list \<Rightarrow> world \<Rightarrow> world" where
  "logged level message attrs w = w\<lparr>w_log := w_log w @ [(level, message, attrs)]\<rparr>"

definition tick :: "world \<Rightarrow> world" where
  "tick w = w\<lparr>w_tick := w_tick w + 1\<rparr>"

definition draw_rand :: "world \<Rightarrow> bytes option \<times> world" where
  "draw_rand w = (e_rand (w_env w) (w_tick w), tick w)"

definition draw_clock :: "world \<Rightarrow> (int \<times> wall_time) \<times> world" where
  "draw_clock w = (e_clock (w_env w) (w_tick w), tick w)"

definition new_event :: "MessageType \<Rightarrow> bytes \<Rightarrow> event_payload \<Rightarrow> world \<Rightarrow> OutboundMessage option \<times> world" where
  "new_event messageType requestID payload w =
     (case draw_rand w of (r, w1) \<Rightarrow>
      case draw_clock w1 of (t, w2) \<Rightarrow> (newOutboundMessage r (snd t) messageType requestID payload, w2))"

subsection \<open>Sessions\<close>

record ClientOptions =
  co_ConnectionID :: bytes
  co_UserID :: bytes
  co_QueueCapacity :: int
  co_ReadTimeout :: int
  co_WriteTimeout :: int
  co_OnClose :: "href option"
  co_Hub :: "href option"
  co_PingInterval :: int
  co_MaxMessageSize :: int
  co_RateLimiter :: "RateLimiter option"

text \<open>
  \<open>make(chan outboundMessage, n)\<close> panics for a negative \<open>n\<close>. Validation of the configuration admits only
  positive capacities, so that branch has no counterpart here.
\<close>

definition client_of :: "socket option \<Rightarrow> ClientOptions \<Rightarrow> Client" where
  "client_of connection options =
     \<lparr>c_connection = (if 0 < co_MaxMessageSize options
                       then map_option (\<lambda>s. s\<lparr>so_readLimit := Some (co_MaxMessageSize options)\<rparr>) connection
                       else connection),
      c_connectionID = co_ConnectionID options, c_userID = co_UserID options,
      c_readTimeout = co_ReadTimeout options, c_writeTimeout = co_WriteTimeout options,
      c_onClose = co_OnClose options, c_hub = co_Hub options, c_pingInterval = co_PingInterval options,
      c_maxMessageSize = co_MaxMessageSize options, c_limiter = co_RateLimiter options,
      c_send = make_chan (nat (co_QueueCapacity options)), c_closed = False, c_closeOnce = False\<rparr>"

definition newClient :: "socket option \<Rightarrow> ClientOptions \<Rightarrow> world \<Rightarrow> cref \<times> world" where
  "newClient connection options w =
     (w_next w,
      metric IncrementActiveConnections
        (w\<lparr>w_clients := (w_clients w)(w_next w := client_of connection options), w_next := w_next w + 1\<rparr>))"

definition close_counters :: "bytes \<Rightarrow> Metrics \<Rightarrow> Metrics" where
  "close_counters reason m =
     (let m1 = DecrementActiveConnections m in
      if reason = ''heartbeat_timeout'' then IncrementHeartbeatTimeouts m1
      else if reason = ''outbound_queue_full'' then IncrementQueueFullDisconnects m1
      else m1)"

definition mark_closed :: "Client \<Rightarrow> Client" where
  "mark_closed x = x\<lparr>c_closeOnce := True, c_closed := True,
     c_connection := map_option (\<lambda>s. s\<lparr>so_closed := True\<rparr>) (c_connection x)\<rparr>"

definition run_onClose :: "cref \<Rightarrow> world \<Rightarrow> world" where
  "run_onClose c w =
     (case c_onClose (w_clients w c) of
        None \<Rightarrow> w
      | Some hb \<Rightarrow> upd_hub hb (\<lambda>h. snd (Unregister (w_clients w) c h)) w)"

definition Close :: "cref \<Rightarrow> bytes \<Rightarrow> world \<Rightarrow> world" where
  "Close c reason w =
     (if c_closeOnce (w_clients w c) then w
      else
        (let w1 = run_onClose c (upd_client c mark_closed w)
         in metric (close_counters reason)
              (logged Info ''websocket_session_closed''
                 [(''connection_id'', LStr (c_connectionID (w_clients w c))),
                  (''user_id'', LStr (c_userID (w_clients w c))), (''reason'', LStr reason)] w1)))"

definition TextMessage :: int where "TextMessage = 1"

definition PingMessage :: int where "PingMessage = 9"

definition Send :: "cref \<Rightarrow> int \<Rightarrow> bytes \<Rightarrow> world \<Rightarrow> bool \<times> world" where
  "Send c messageType payload w =
     (let cl = w_clients w c;
          message = \<lparr>om_messageType = messageType, om_payload = payload\<rparr>
      in if c_closed cl then (False, w)
         else
           (case try_send message (c_send cl) of
              (True, ch) \<Rightarrow>
                (True, metric (UpdateMaxQueueDepth (of_nat (length (ch_buf ch))))
                         (upd_client c (\<lambda>x. x\<lparr>c_send := ch\<rparr>) w))
            | (False, _) \<Rightarrow>
                (False, Close c ''outbound_queue_full''
                          (logged Warn ''websocket_queue_full''
                             [(''connection_id'', LStr (c_connectionID cl)), (''user_id'', LStr (c_userID cl)),
                              (''queue_depth'', LInt (len (ch_buf (c_send cl)))),
                              (''queue_capacity'', LInt (int (ch_cap (c_send cl))))] w))))"

definition SendJSON :: "cref \<Rightarrow> OutboundMessage \<Rightarrow> world \<Rightarrow> bool \<times> world" where
  "SendJSON c value w =
     (case MarshalOutbound value of
        None \<Rightarrow>
          (False, Close c ''message_encode_failed''
                    (logged Error ''websocket_message_encode_failed''
                       [(''connection_id'', LStr (c_connectionID (w_clients w c))),
                        (''user_id'', LStr (c_userID (w_clients w c))), (''error'', LErr)] w))
      | Some payload \<Rightarrow> Send c TextMessage payload w)"

definition QueueDepth :: "cref \<Rightarrow> world \<Rightarrow> int" where
  "QueueDepth c w = len (ch_buf (c_send (w_clients w c)))"

subsection \<open>The hub and its sessions\<close>

definition Register :: "href \<Rightarrow> cref \<Rightarrow> world \<Rightarrow> world" where
  "Register hb c w =
     (case register_locked (w_clients w) c (w_hubs w hb) of
        (replaced, h) \<Rightarrow>
          (let w1 = upd_hub hb (\<lambda>_. h) w in
           case replaced of
             None \<Rightarrow> w1
           | Some old \<Rightarrow> if old \<noteq> c then Close old ''duplicate_session_replaced'' w1 else w1))"

definition deliver :: "bytes \<Rightarrow> OutboundMessage \<Rightarrow> cref \<Rightarrow> world \<Rightarrow> world" where
  "deliver roomID event c w =
     (case SendJSON c event w of
        (True, w1) \<Rightarrow> w1
      | (False, w1) \<Rightarrow>
          logged Warn ''websocket_broadcast_recipient_unavailable''
            [(''room_id'', LStr roomID), (''recipient_user_id'', LStr (UserID (w_clients w1 c))),
             (''recipient_connection_id'', LStr (ConnectionID (w_clients w1 c))),
             (''queue_depth'', LInt (QueueDepth c w1))] w1)"

definition localBroadcast :: "href \<Rightarrow> bytes \<Rightarrow> bytes \<Rightarrow> bytes \<Rightarrow> world \<Rightarrow> world" where
  "localBroadcast hb senderID roomID payload w =
     (case recipients (e_order (w_env w) (w_tick w)) (w_clients w) senderID roomID (w_hubs w hb) of
        None \<Rightarrow> w
      | Some rs \<Rightarrow>
          (case new_event CommandRoomBroadcast [] (PBroadcast roomID senderID payload) (tick w) of
             (None, w1) \<Rightarrow>
               logged Error ''websocket_broadcast_event_failed'' [(''room_id'', LStr roomID), (''error'', LErr)] w1
           | (Some event, w1) \<Rightarrow> fold (deliver roomID event) rs w1))"

definition localSendPrivate :: "href \<Rightarrow> bytes \<Rightarrow> bytes \<Rightarrow> bytes \<Rightarrow> world \<Rightarrow> world" where
  "localSendPrivate hb senderID recipientID payload w =
     (case Lookup recipientID (w_hubs w hb) of
        None \<Rightarrow> w
      | Some recipient \<Rightarrow>
          (case new_event CommandPrivateSend [] (PPrivate senderID recipientID payload) w of
             (None, w1) \<Rightarrow> logged Error ''websocket_private_event_failed'' [(''error'', LErr)] w1
           | (Some event, w1) \<Rightarrow>
               (case SendJSON recipient event w1 of
                  (True, w2) \<Rightarrow> w2
                | (False, w2) \<Rightarrow>
                    logged Warn ''websocket_private_recipient_overloaded_broker''
                      [(''sender_user_id'', LStr senderID), (''recipient_user_id'', LStr recipientID),
                       (''recipient_connection_id'', LStr (ConnectionID (w_clients w2 recipient))),
                       (''queue_depth'', LInt (QueueDepth recipient w2))] w2)))"

definition HandleBrokerEvent :: "href \<Rightarrow> BrokerEvent \<Rightarrow> world \<Rightarrow> world" where
  "HandleBrokerEvent hb event w =
     (let nid = h_nodeID (w_hubs w hb) in
      if nid \<noteq> [] \<and> be_NodeID event = nid then w
      else
        (let w1 = metric IncrementBrokerReceiveCount w in
         if be_Type event = ''room_broadcast'' then
           localBroadcast hb (be_SenderID event) (be_RoomID event) (be_Payload event) w1
         else if be_Type event = ''private_send'' then
           localSendPrivate hb (be_SenderID event) (be_RecipientID event) (be_Payload event) w1
         else logged Warn ''websocket_broker_event_unknown_type'' [(''type'', LStr (be_Type event))] w1))"

text \<open>The subscription callback of \<open>Serve\<close> (\<open>server.go\<close>), for the hub it captured.\<close>

definition broker_callback :: "href \<Rightarrow> bytes \<Rightarrow> bytes \<Rightarrow> world \<Rightarrow> world" where
  "broker_callback hb subject data w =
     (case DecodeBrokerEvent data of
        None \<Rightarrow> logged Error ''server_broker_decode_failed'' [(''subject'', LStr subject), (''error'', LErr)] w
      | Some event \<Rightarrow> HandleBrokerEvent hb event w)"

text \<open>The \<open>Publish\<close> of the \<open>Broker\<close> interface, by the implementation behind it.\<close>

definition Publish :: "bref \<Rightarrow> bytes \<Rightarrow> bytes \<Rightarrow> world \<Rightarrow> goerror option \<times> world" where
  "Publish b subject data w =
     (case w_brokers w b of
        Mem mb \<Rightarrow> mem_Publish broker_callback (e_subs (w_env w) (w_tick w)) subject data mb (tick w)
      | Nats nb \<Rightarrow> (nats_Publish (e_js (w_env w) (w_tick w)) nb, tick w))"

definition note_publish_failed :: "bytes \<Rightarrow> world \<Rightarrow> world" where
  "note_publish_failed subject w =
     metric IncrementBrokerPublishErrors
       (logged Error ''websocket_broker_publish_failed'' [(''subject'', LStr subject), (''error'', LErr)] w)"

definition note_encode_failed :: "world \<Rightarrow> world" where
  "note_encode_failed w =
     metric IncrementBrokerPublishErrors (logged Error ''websocket_broker_encode_failed'' [(''error'', LErr)] w)"

definition Broadcast :: "href \<Rightarrow> bytes \<Rightarrow> bytes \<Rightarrow> bytes \<Rightarrow> world \<Rightarrow> world" where
  "Broadcast hb senderID roomID payload w =
     (let w1 = localBroadcast hb senderID roomID payload w in
      case h_broker (w_hubs w1 hb) of
        None \<Rightarrow> w1
      | Some br \<Rightarrow>
          (case Encode \<lparr>be_NodeID = h_nodeID (w_hubs w1 hb), be_Type = ''room_broadcast'', be_RoomID = roomID,
                        be_SenderID = senderID, be_RecipientID = [], be_Payload = payload\<rparr> of
             None \<Rightarrow> note_encode_failed w1
           | Some data \<Rightarrow>
               (let subject = ''blockforge.rooms.'' @ roomID in
                case Publish br subject data w1 of
                  (Some err, w2) \<Rightarrow> note_publish_failed subject w2
                | (None, w2) \<Rightarrow> metric IncrementBrokerPublishCount w2)))"

datatype hub_error = ErrRecipientOffline | ErrRecipientOverloaded | OtherError goerror

fun hub_error_text :: "hub_error \<Rightarrow> bytes" where
  "hub_error_text ErrRecipientOffline = ''recipient is offline''"
| "hub_error_text ErrRecipientOverloaded = ''recipient queue is full''"
| "hub_error_text (OtherError e) = e"

text \<open>
  The part of \<open>SendPrivate\<close> after the local delivery: \<open>ok\<close> tells whether the recipient is
  registered here, \<open>localErr\<close> how the local delivery went.
\<close>

definition publish_private ::
    "bref option \<Rightarrow> bytes \<Rightarrow> bool \<Rightarrow> hub_error option \<Rightarrow> bytes \<Rightarrow> bytes \<Rightarrow> bytes \<Rightarrow> world \<Rightarrow> hub_error option \<times> world" where
  "publish_private broker nid ok localErr senderID recipientID payload w =
     (case broker of
        None \<Rightarrow> (if ok then localErr else Some ErrRecipientOffline, w)
      | Some br \<Rightarrow>
          (case Encode \<lparr>be_NodeID = nid, be_Type = ''private_send'', be_RoomID = [],
                        be_SenderID = senderID, be_RecipientID = recipientID, be_Payload = payload\<rparr> of
             None \<Rightarrow> (if ok then localErr else Some (OtherError (e_marshalErr (w_env w))), note_encode_failed w)
           | Some data \<Rightarrow>
               (let subject = ''blockforge.users.'' @ recipientID in
                case Publish br subject data w of
                  (Some err, w1) \<Rightarrow> (if ok then localErr else Some (OtherError err), note_publish_failed subject w1)
                | (None, w1) \<Rightarrow> (None, metric IncrementBrokerPublishCount w1))))"

definition SendPrivate :: "href \<Rightarrow> bytes \<Rightarrow> bytes \<Rightarrow> bytes \<Rightarrow> world \<Rightarrow> hub_error option \<times> world" where
  "SendPrivate hb senderID recipientID payload w =
     (let br = h_broker (w_hubs w hb); nid = h_nodeID (w_hubs w hb) in
      case Lookup recipientID (w_hubs w hb) of
        None \<Rightarrow> publish_private br nid False None senderID recipientID payload w
      | Some recipient \<Rightarrow>
          (case new_event CommandPrivateSend [] (PPrivate senderID recipientID payload) w of
             (None, w1) \<Rightarrow> (Some (OtherError (e_randErr (w_env w1))), w1)
           | (Some event, w1) \<Rightarrow>
               (case SendJSON recipient event w1 of
                  (True, w2) \<Rightarrow> publish_private br nid True None senderID recipientID payload w2
                | (False, w2) \<Rightarrow>
                    publish_private br nid True (Some ErrRecipientOverloaded) senderID recipientID payload
                      (logged Warn ''websocket_private_recipient_overloaded''
                         [(''sender_user_id'', LStr senderID), (''recipient_user_id'', LStr recipientID),
                          (''recipient_connection_id'', LStr (ConnectionID (w_clients w2 recipient))),
                          (''queue_depth'', LInt (QueueDepth recipient w2))] w2))))"

definition CloseAll :: "href \<Rightarrow> bytes \<Rightarrow> world \<Rightarrow> world" where
  "CloseAll hb reason w =
     fold (\<lambda>c. Close c reason) (Snapshot (e_order (w_env w) (w_tick w)) (w_hubs w hb)) (tick w)"

definition BroadcastDraining :: "href \<Rightarrow> world \<Rightarrow> world" where
  "BroadcastDraining hb w =
     (case new_event EventServerDraining [] (PDraining ''Server is shutting down. Please reconnect.'') w of
        (None, w1) \<Rightarrow> logged Error ''websocket_draining_event_failed'' [(''error'', LErr)] w1
      | (Some event, w1) \<Rightarrow>
          fold (\<lambda>c w. snd (SendJSON c event w))
            (Snapshot (e_order (w_env w1) (w_tick w1)) (w_hubs w1 hb)) (tick w1))"

end
