(* ===== verification/Session.thy ===== *)
theory Session
  imports Routing
begin

text \<open>
  The two loops of a session (\<open>client.go\<close>): one iteration of the read loop with its command
  dispatch, one iteration of the write loop, and \<open>Run\<close>, which interleaves them.
\<close>

subsection \<open>Replies\<close>

text \<open>The common tail of the three reply functions: enqueue the event, or close without an identifier.\<close>

definition send_reply :: "cref \<Rightarrow> MessageType \<Rightarrow> bytes \<Rightarrow> event_payload \<Rightarrow> world \<Rightarrow> bool \<times> world" where
  "send_reply c messageType requestID payload w =
     (case new_event messageType requestID payload w of
        (None, w1) \<Rightarrow>
          (False, Close c ''event_id_failed'' (logged Error ''websocket_event_id_failed'' [(''error'', LErr)] w1))
      | (Some event, w1) \<Rightarrow> SendJSON c event w1)"

definition sendAcknowledgement :: "cref \<Rightarrow> InboundMessage \<Rightarrow> world \<Rightarrow> bool \<times> world" where
  "sendAcknowledgement c message w =
     send_reply c EventCommandAck (in_RequestID message)
       (PAck \<lparr>ack_Status = ''accepted'', ack_CommandType = in_Type message\<rparr>) w"

definition sendProtocolError :: "cref \<Rightarrow> ProtocolError \<Rightarrow> world \<Rightarrow> bool \<times> world" where
  "sendProtocolError c protocolError w =
     send_reply c EventError (pe_RequestID protocolError)
       (PError \<lparr>ep_Code = pe_Code protocolError, ep_Message = pe_Message protocolError, ep_Retryable = False\<rparr>) w"

definition sendError :: "cref \<Rightarrow> bytes \<Rightarrow> ErrorCode \<Rightarrow> bytes \<Rightarrow> world \<Rightarrow> bool \<times> world" where
  "sendError c requestID errorCode message w =
     send_reply c EventError requestID
       (PError \<lparr>ep_Code = errorCode, ep_Message = message, ep_Retryable = False\<rparr>) w"

definition readyEvent :: "cref \<Rightarrow> world \<Rightarrow> OutboundMessage option \<times> world" where
  "readyEvent c w =
     new_event EventConnectionReady []
       (PReady (c_connectionID (w_clients w c)) (c_userID (w_clients w c))) w"

subsection \<open>Dispatch of one frame\<close>

text \<open>The exit reason after a reply: empty when the loop goes on.\<close>

definition exit_of :: "bool \<times> world \<Rightarrow> bytes \<times> world" where
  "exit_of r = (if fst r then [] else ''outbound_unavailable'', snd r)"

text \<open>An accepted command: success is recorded before the acknowledgement is attempted.\<close>

definition accept :: "cref \<Rightarrow> InboundMessage \<Rightarrow> world \<Rightarrow> (bool \<times> bytes) \<times> world" where
  "accept c message w =
     (case exit_of (sendAcknowledgement c message w) of (reason, w1) \<Rightarrow> ((True, reason), w1))"

definition refuse :: "cref \<Rightarrow> bytes \<Rightarrow> InboundMessage \<Rightarrow> ErrorCode \<Rightarrow> bytes \<Rightarrow> world \<Rightarrow> (bool \<times> bytes) \<times> world" where
  "refuse c event message errorCode text w =
     (let w1 = logged Warn event
                 [(''connection_id'', LStr (c_connectionID (w_clients w c))),
                  (''user_id'', LStr (c_userID (w_clients w c))),
                  (''request_id'', LStr (in_RequestID message)),
                  (''command_type'', LStr (in_Type message)), (''reason'', LStr text)] w
      in case exit_of (sendError c (in_RequestID message) errorCode text w1) of
           (reason, w2) \<Rightarrow> ((False, reason), w2))"

definition private_error_code :: "hub_error \<Rightarrow> ErrorCode" where
  "private_error_code err =
     (if err = ErrRecipientOverloaded then ErrorRecipientOverloaded else ErrorRecipientOffline)"

definition run_command :: "cref \<Rightarrow> InboundMessage \<Rightarrow> world \<Rightarrow> (bool \<times> bytes) \<times> world" where
  "run_command c message w =
     (case c_hub (w_clients w c) of
        None \<Rightarrow> accept c message w
      | Some hb \<Rightarrow>
          if in_Type message = CommandRoomJoin then
            (case Join (w_clients w) c (in_RoomID message) (w_hubs w hb) of
               (Some err, h) \<Rightarrow>
                 refuse c ''websocket_command_rejected'' message ErrorUnauthorized err (upd_hub hb (\<lambda>_. h) w)
             | (None, h) \<Rightarrow> accept c message (upd_hub hb (\<lambda>_. h) w))
          else if in_Type message = CommandRoomLeave then
            accept c message (upd_hub hb (Leave (w_clients w) c (in_RoomID message)) w)
          else if in_Type message = CommandRoomBroadcast then
            (case AuthorizeBroadcast (w_clients w) c (in_RoomID message) (w_hubs w hb) of
               Some err \<Rightarrow> refuse c ''websocket_command_rejected'' message ErrorUnauthorized err w
             | None \<Rightarrow>
                 accept c message
                   (Broadcast hb (UserID (w_clients w c)) (in_RoomID message) (in_Payload message) w))
          else if in_Type message = CommandPrivateSend then
            (case AuthorizePrivateSend (h_authorizer (w_hubs w hb)) (UserID (w_clients w c)) (in_RecipientID message) of
               Some err \<Rightarrow> refuse c ''websocket_command_rejected'' message ErrorUnauthorized err w
             | None \<Rightarrow>
                 (case SendPrivate hb (UserID (w_clients w c)) (in_RecipientID message) (in_Payload message) w of
                    (Some err, w1) \<Rightarrow>
                      refuse c ''websocket_command_failed'' message (private_error_code err) (hub_error_text err) w1
                  | (None, w1) \<Rightarrow> accept c message w1))
          else accept c message w)"

text \<open>
  The body of the closure up to its deferred counters: the reported type, whether the command
  succeeded, and the exit reason.
\<close>

definition handle_frame :: "cref \<Rightarrow> bool \<Rightarrow> int \<Rightarrow> bytes \<Rightarrow> world \<Rightarrow> (bytes \<times> bool \<times> bytes) \<times> world" where
  "handle_frame c rateLimitExceeded messageType payload w =
     (if messageType \<noteq> TextMessage then
        (case exit_of (sendProtocolError c \<lparr>pe_Code = ErrorInvalidMessage,
                         pe_Message = ''Only JSON text frames are supported.'', pe_RequestID = []\<rparr> w) of
           (reason, w1) \<Rightarrow> ((''unknown'', False, reason), w1))
      else
        (case DecodeInbound payload of
           (message, protocolError) \<Rightarrow>
             (let msgType = (if in_Type message \<noteq> [] then in_Type message else ''unknown'') in
              if rateLimitExceeded then
                (let reqID = (case protocolError of None \<Rightarrow> in_RequestID message | Some pe \<Rightarrow> pe_RequestID pe) in
                 case exit_of (sendError c reqID ErrorRateLimitExceeded ''Rate limit exceeded.'' w) of
                   (reason, w1) \<Rightarrow> ((msgType, False, reason), w1))
              else
                (case protocolError of
                   Some pe \<Rightarrow>
                     (case exit_of (sendProtocolError c pe w) of
                        (reason, w1) \<Rightarrow> ((msgType, False, reason), w1))
                 | None \<Rightarrow>
                     (case run_command c message w of
                        ((success, reason), w1) \<Rightarrow> ((msgType, success, reason), w1))))))"

definition process_frame :: "cref \<Rightarrow> bool \<Rightarrow> int \<Rightarrow> bytes \<Rightarrow> world \<Rightarrow> bytes \<times> world" where
  "process_frame c rateLimitExceeded messageType payload w =
     (case draw_clock w of (start, w1) \<Rightarrow>
      case handle_frame c rateLimitExceeded messageType payload w1 of ((msgType, success, reason), w2) \<Rightarrow>
      case draw_clock w2 of (now, w3) \<Rightarrow>
        (reason, metric (finish_frame (of_int (time_Sub (fst now) (fst start))) msgType success) w3))"

subsection \<open>The read loop\<close>

text \<open>
  What \<open>ReadMessage\<close> returns: a frame, or an error that is a close frame for an oversized message, a
  network timeout, or something else.
\<close>

datatype read_result = ReadFrame int bytes | ReadTooBig | ReadTimeout | ReadError

definition set_read_deadline :: "cref \<Rightarrow> world \<Rightarrow> bool \<times> world" where
  "set_read_deadline c w =
     (case draw_clock w of (t, w1) \<Rightarrow>
      if e_sock (w_env w1) (w_tick w1) then (False, tick w1)
      else (True, upd_client c (\<lambda>x. x\<lparr>c_connection := map_option
                    (\<lambda>s. s\<lparr>so_readDeadline := Some (fst t + c_readTimeout x)\<rparr>) (c_connection x)\<rparr>) (tick w1)))"

definition check_rate :: "cref \<Rightarrow> world \<Rightarrow> bool \<times> world" where
  "check_rate c w =
     (case c_limiter (w_clients w c) of
        None \<Rightarrow> (True, w)
      | Some rl \<Rightarrow>
          (case draw_clock w of (t, w1) \<Rightarrow>
           case Allow (fst t) rl of (allowed, rl') \<Rightarrow>
             (allowed, upd_client c (\<lambda>x. x\<lparr>c_limiter := Some rl'\<rparr>) w1)))"

definition read_error_reason :: "Client \<Rightarrow> read_result \<Rightarrow> bytes" where
  "read_error_reason cl r =
     (case r of
        ReadTooBig \<Rightarrow> ''oversized_message''
      | ReadTimeout \<Rightarrow> if 0 < c_pingInterval cl then ''heartbeat_timeout'' else ''read_failed''
      | _ \<Rightarrow> ''read_failed'')"

definition read_step :: "cref \<Rightarrow> read_result \<Rightarrow> world \<Rightarrow> bytes \<times> world" where
  "read_step c r w =
     (case r of
        ReadFrame messageType payload \<Rightarrow>
          (case check_rate c (metric IncrementMessagesReceived w) of (allowed, w1) \<Rightarrow>
           case (if 0 < c_readTimeout (w_clients w1 c) then set_read_deadline c w1 else (True, w1)) of
             (False, w2) \<Rightarrow> (''read_deadline_failed'', w2)
           | (True, w2) \<Rightarrow> process_frame c (\<not> allowed) messageType payload w2)
      | _ \<Rightarrow> (read_error_reason (w_clients w c) r, w))"

subsection \<open>The write loop\<close>

text \<open>The alternative the second \<open>select\<close> takes.\<close>

datatype write_choice = ChooseDone | ChooseMessage | ChoosePing

definition set_write_deadline :: "cref \<Rightarrow> world \<Rightarrow> bool \<times> world" where
  "set_write_deadline c w =
     (case draw_clock w of (t, w1) \<Rightarrow>
      if e_sock (w_env w1) (w_tick w1) then (False, tick w1)
      else (True, upd_client c (\<lambda>x. x\<lparr>c_connection := map_option
                    (\<lambda>s. s\<lparr>so_writeDeadline := Some (fst t + c_writeTimeout x)\<rparr>) (c_connection x)\<rparr>) (tick w1)))"

definition write_frame :: "cref \<Rightarrow> outboundMessage \<Rightarrow> world \<Rightarrow> bool \<times> world" where
  "write_frame c m w =
     (case (if 0 < c_writeTimeout (w_clients w c) then set_write_deadline c w else (True, w)) of
        (False, w1) \<Rightarrow> (False, Close c ''write_deadline_failed'' w1)
      | (True, w1) \<Rightarrow>
          if e_sock (w_env w1) (w_tick w1) then (False, Close c ''write_failed'' (tick w1))
          else (True, upd_client c (\<lambda>x. x\<lparr>c_connection := map_option
                        (\<lambda>s. s\<lparr>so_written := so_written s @ [m]\<rparr>) (c_connection x)\<rparr>) (tick w1)))"

definition write_select :: "cref \<Rightarrow> write_choice \<Rightarrow> world \<Rightarrow> bool \<times> world" where
  "write_select c choice w =
     (case choice of
        ChooseDone \<Rightarrow> (\<not> c_closed (w_clients w c), w)
      | ChooseMessage \<Rightarrow>
          (case try_recv (c_send (w_clients w c)) of
             None \<Rightarrow> (True, w)
           | Some (message, ch) \<Rightarrow>
               (case write_frame c message (upd_client c (\<lambda>x. x\<lparr>c_send := ch\<rparr>) w) of
                  (False, w1) \<Rightarrow> (False, w1)
                | (True, w1) \<Rightarrow> (True, metric IncrementMessagesSent w1)))
      | ChoosePing \<Rightarrow>
          if 0 < c_pingInterval (w_clients w c)
          then write_frame c \<lparr>om_messageType = PingMessage, om_payload = []\<rparr> w else (True, w))"

text \<open>One iteration; \<open>False\<close> when the loop returns. An alternative that is not ready does nothing.\<close>

definition write_step :: "cref \<Rightarrow> write_choice \<Rightarrow> world \<Rightarrow> bool \<times> world" where
  "write_step c choice w = (if c_closed (w_clients w c) then (False, w) else write_select c choice w)"

subsection \<open>Run\<close>

text \<open>
  A schedule of the two goroutines: each entry is one iteration of one loop. The result is the exit
  reason of the read loop, or \<open>None\<close> while it is still reading.
\<close>

datatype session_event = Reads read_result | Writes write_choice

fun session_loop :: "cref \<Rightarrow> session_event list \<Rightarrow> world \<Rightarrow> bytes option \<times> world" where
  "session_loop c [] w = (None, w)"
| "session_loop c (Reads r # evs) w =
     (case read_step c r w of (reason, w1) \<Rightarrow> if reason \<noteq> [] then (Some reason, w1) else session_loop c evs w1)"
| "session_loop c (Writes choice # evs) w = session_loop c evs (snd (write_step c choice w))"

definition readLoop :: "cref \<Rightarrow> session_event list \<Rightarrow> world \<Rightarrow> bytes option \<times> world" where
  "readLoop c evs w =
     (if 0 < c_readTimeout (w_clients w c) then
        (case set_read_deadline c w of
           (False, w1) \<Rightarrow> (Some ''read_deadline_failed'', w1)
         | (True, w1) \<Rightarrow> session_loop c evs w1)
      else session_loop c evs w)"

text \<open>\<open>True\<close> when \<open>Run\<close> has closed the session and only waits for the write loop.\<close>

definition Run :: "cref \<Rightarrow> session_event list \<Rightarrow> world \<Rightarrow> bool \<times> world" where
  "Run c evs w =
     (case readyEvent c w of
        (None, w1) \<Rightarrow> (True, Close c ''event_id_failed'' w1)
      | (Some event, w1) \<Rightarrow>
          (case SendJSON c event w1 of
             (False, w2) \<Rightarrow> (True, Close c ''ready_queue_unavailable'' w2)
           | (True, w2) \<Rightarrow>
               (case readLoop c evs w2 of
                  (Some reason, w3) \<Rightarrow> (True, Close c reason w3)
                | (None, w3) \<Rightarrow> (False, w3))))"

end
