(* ===== verification/Threads.thy ===== *)
theory Threads
  imports Main
begin

text \<open>
  Goroutines as programs of atomic actions. A program is either finished or an action on the shared state
  that leaves the rest of the program; \<open>exec\<close> runs one program alone, a pool interleaves any number of
  them action by action. The judgement \<open>rg\<close> states what every single action of a program guarantees,
  whatever the other programs did before it, and is the only thing a pool needs.
\<close>

subsection \<open>Programs\<close>

datatype ('s, 'a) prog = Return 'a | Act "'s \<Rightarrow> ('s, 'a) prog \<times> 's"

primrec andThen :: "('s, 'a) prog \<Rightarrow> ('a \<Rightarrow> ('s, 'b) prog) \<Rightarrow> ('s, 'b) prog" where
  "andThen (Return x) f = f x"
| "andThen (Act a) f = Act (\<lambda>s. map_prod (\<lambda>p. andThen p f) id (a s))"

definition atomic :: "('s \<Rightarrow> 'a \<times> 's) \<Rightarrow> ('s, 'a) prog" where
  "atomic f = Act (\<lambda>s. (Return (fst (f s)), snd (f s)))"

definition modify :: "('s \<Rightarrow> 's) \<Rightarrow> ('s, unit) prog" where
  "modify f = atomic (\<lambda>s. ((), f s))"

definition reading :: "('s \<Rightarrow> 'a) \<Rightarrow> ('s, 'a) prog" where
  "reading f = atomic (\<lambda>s. (f s, s))"

primrec each :: "('b \<Rightarrow> ('s, unit) prog) \<Rightarrow> 'b list \<Rightarrow> ('s, unit) prog" where
  "each f [] = Return ()"
| "each f (x # xs) = andThen (f x) (\<lambda>_. each f xs)"

subsection \<open>One program alone\<close>

primrec exec :: "('s, 'a) prog \<Rightarrow> 's \<Rightarrow> 'a \<times> 's" where
  "exec (Return x) = (\<lambda>s. (x, s))"
| "exec (Act a) = (\<lambda>s. case map_prod exec id (a s) of (run, s') \<Rightarrow> run s')"

named_theorems exec_simps \<open>what a program computes when it runs alone\<close>

lemma prog_induct [case_names Return Act, induct type: prog]:
  assumes "\<And>x. P (Return x)" and "\<And>a. (\<And>s. P (fst (a s))) \<Longrightarrow> P (Act a)"
  shows "P p"
proof (induction p rule: prog.induct)
  case (Act a)
  have "P (fst (a s))" for s by (rule Act.IH [of "a s"]) (auto intro: prod_set_simps simp: fsts.simps)
  then show ?case by (rule assms(2))
qed (rule assms(1))

lemma exec_Act: "exec (Act a) s = exec (fst (a s)) (snd (a s))"
  by (simp add: case_prod_beta)

lemma exec_Return [exec_simps]: "exec (Return x) s = (x, s)"
  by simp

lemma exec_andThen [exec_simps]: "exec (andThen p f) s = (case exec p s of (x, s') \<Rightarrow> exec (f x) s')"
  by (induction p arbitrary: s) (simp_all add: exec_Act case_prod_beta del: exec.simps(2))

lemma exec_atomic [exec_simps]: "exec (atomic f) s = f s"
  by (simp add: atomic_def)

lemma exec_modify [exec_simps]: "exec (modify f) s = ((), f s)"
  by (simp add: modify_def exec_atomic)

lemma exec_reading [exec_simps]: "exec (reading f) s = (f s, s)"
  by (simp add: reading_def exec_atomic)

lemma exec_each [exec_simps]: "exec (each f xs) s = ((), fold (\<lambda>x s. snd (exec (f x) s)) xs s)"
  by (induction xs arbitrary: s) (simp_all add: exec_andThen case_prod_beta)

subsection \<open>What every action guarantees\<close>

text \<open>
  A program has a private ghost value, \<open>idle\<close> at its start and at its end, that records what it is in the
  middle of. From every state that satisfies \<open>I\<close> for its ghost, each action leads to a state and a ghost
  related by \<open>G\<close> to the ones before, and the result satisfies \<open>Q\<close>. Between two actions the state may
  change in any way that keeps \<open>I\<close> for the ghost.
\<close>

primrec rg :: "('o \<Rightarrow> 's \<Rightarrow> bool) \<Rightarrow> ('o \<Rightarrow> 's \<Rightarrow> 'o \<Rightarrow> 's \<Rightarrow> bool) \<Rightarrow> 'o \<Rightarrow> ('a \<Rightarrow> bool) \<Rightarrow> ('s, 'a) prog \<Rightarrow> 'o \<Rightarrow> bool" where
  "rg I G idle Q (Return x) = (\<lambda>g. g = idle \<and> Q x)"
| "rg I G idle Q (Act a) =
     (\<lambda>g. \<forall>s. case map_prod (rg I G idle Q) id (a s) of (rest, s') \<Rightarrow> I g s \<longrightarrow> (\<exists>g'. G g s g' s' \<and> rest g'))"

lemma rg_Act:
  "rg I G idle Q (Act a) g = (\<forall>s. I g s \<longrightarrow> (\<exists>g'. G g s g' (snd (a s)) \<and> rg I G idle Q (fst (a s)) g'))"
  by (simp add: case_prod_beta)

lemma rg_Return: "Q x \<Longrightarrow> rg I G idle Q (Return x) idle"
  by simp

lemma rg_andThen:
  assumes "rg I G idle Q p g" and "\<And>x. Q x \<Longrightarrow> rg I G idle R (f x) idle"
  shows "rg I G idle R (andThen p f) g"
  using assms(1)
proof (induction p arbitrary: g)
  case (Act a)
  then show ?case by (fastforce simp: rg_Act simp del: rg.simps(2))
qed (auto simp: assms(2))

text \<open>An action in the middle of a program, which may change the ghost.\<close>

lemma rg_atomic_then:
  assumes "\<And>s. I g s \<Longrightarrow> \<exists>g'. G g s g' (snd (f s)) \<and> rg I G idle Q (h (fst (f s))) g'"
  shows "rg I G idle Q (andThen (atomic f) h) g"
  using assms by (simp add: atomic_def)

lemma rg_modify_then:
  assumes "\<And>s. I g s \<Longrightarrow> G g s g' (f s)" and "rg I G idle Q (h ()) g'"
  shows "rg I G idle Q (andThen (modify f) h) g"
  unfolding modify_def by (rule rg_atomic_then) (use assms in auto)

lemma rg_modify_last: "(\<And>s. I g s \<Longrightarrow> G g s idle (f s)) \<Longrightarrow> rg I G idle (\<lambda>_. True) (modify f) g"
  by (auto simp: modify_def atomic_def)

lemma rg_atomic: "(\<And>s. I idle s \<Longrightarrow> G idle s idle (snd (f s)) \<and> Q (fst (f s))) \<Longrightarrow> rg I G idle Q (atomic f) idle"
  by (auto simp: atomic_def)

lemma rg_modify: "(\<And>s. I idle s \<Longrightarrow> G idle s idle (f s)) \<Longrightarrow> rg I G idle (\<lambda>_. True) (modify f) idle"
  by (rule rg_modify_last)

lemma rg_reading: "(\<And>s. I idle s \<Longrightarrow> G idle s idle s) \<Longrightarrow> rg I G idle (\<lambda>_. True) (reading f) idle"
  by (simp add: reading_def rg_atomic)

lemma rg_each: "(\<And>x. x \<in> set xs \<Longrightarrow> rg I G idle (\<lambda>_. True) (f x) idle) \<Longrightarrow> rg I G idle (\<lambda>_. True) (each f xs) idle"
  by (induction xs) (auto intro: rg_andThen)

text \<open>A program alone keeps whatever its actions keep.\<close>

lemma rg_exec:
  assumes "rg I G idle Q p g" and "Inv g s" and "\<And>g s. Inv g s \<Longrightarrow> I g s"
    and "\<And>g s g' s'. Inv g s \<Longrightarrow> G g s g' s' \<Longrightarrow> Inv g' s'"
  shows "Inv idle (snd (exec p s)) \<and> Q (fst (exec p s))"
  using assms(1,2)
proof (induction p arbitrary: g s)
  case (Act a)
  from Act.prems(1) assms(3) [OF Act.prems(2)] obtain g' where g': "G g s g' (snd (a s))" "rg I G idle Q (fst (a s)) g'"
    unfolding rg_Act by blast
  from Act.IH [OF g'(2) assms(4) [OF Act.prems(2) g'(1)]] show ?case by (simp only: exec_Act)
qed simp

subsection \<open>Pools\<close>

text \<open>A step runs the next action of one program, or starts one of the programs \<open>code\<close> admits.\<close>

inductive pool_step :: "(('s, unit) prog \<Rightarrow> bool) \<Rightarrow> ('s, unit) prog list \<times> 's \<Rightarrow> ('s, unit) prog list \<times> 's \<Rightarrow> bool"
  for code where
  pool_run: "i < length ps \<Longrightarrow> ps ! i = Act a \<Longrightarrow> a s = (p, s') \<Longrightarrow> pool_step code (ps, s) (ps[i := p], s')"
| pool_spawn: "code p \<Longrightarrow> pool_step code (ps, s) (ps @ [p], s)"

abbreviation pool_steps :: "(('s, unit) prog \<Rightarrow> bool) \<Rightarrow> ('s, unit) prog list \<times> 's \<Rightarrow> ('s, unit) prog list \<times> 's \<Rightarrow> bool" where
  "pool_steps code \<equiv> (pool_step code)\<^sup>*\<^sup>*"

text \<open>A program that is over.\<close>

fun finished :: "('s, 'a) prog \<Rightarrow> bool" where
  "finished (Return _) = True"
| "finished (Act _) = False"

text \<open>A program run to some point without interruption is one of the schedules of a pool.\<close>

lemma pool_andThen:
  assumes "i < length ps" and "ps ! i = andThen p f" and "exec p s = (x, s')"
  shows "pool_steps code (ps, s) (ps[i := f x], s')"
  using assms
proof (induction p arbitrary: ps s)
  case (Return y)
  then show ?case by (metis Pair_inject andThen.simps(1) exec_Return list_update_id rtranclp.rtrancl_refl)
next
  case (Act a)
  let ?ps = "ps[i := andThen (fst (a s)) f]"
  have "pool_step code (ps, s) (?ps, snd (a s))"
    using Act.prems by (intro pool_run [where a = "\<lambda>s. map_prod (\<lambda>p. andThen p f) id (a s)"]) (simp_all add: map_prod_def case_prod_beta)
  moreover have "pool_steps code (?ps, snd (a s)) (?ps[i := f x], s')"
    using Act.prems by (intro Act.IH) (simp_all add: exec_Act del: exec.simps(2))
  ultimately show ?case by (simp add: converse_rtranclp_into_rtranclp)
qed

lemma andThen_assoc: "andThen (andThen p f) g = andThen p (\<lambda>x. andThen (f x) g)"
  by (induction p) (simp_all add: map_prod_def case_prod_beta)

lemma andThen_Return: "andThen p Return = p"
  by (induction p) (simp_all add: map_prod_def case_prod_beta)

lemma pool_exec:
  assumes "i < length ps" and "ps ! i = p" and "exec p s = ((), s')"
  shows "pool_steps code (ps, s) (ps[i := Return ()], s')"
  using pool_andThen [of i ps p Return] assms by (simp add: andThen_Return)

lemma pool_start:
  assumes "code (andThen p f)" and "exec p s = (x, s')"
  shows "pool_steps code (ps, s) (ps @ [f x], s')"
proof -
  have "pool_step code (ps, s) (ps @ [andThen p f], s)" by (rule pool_spawn [where code = code, OF assms(1)])
  moreover have "pool_steps code (ps @ [andThen p f], s) ((ps @ [andThen p f])[length ps := f x], s')"
    by (rule pool_andThen [OF _ _ assms(2)]) simp_all
  ultimately show ?thesis by (simp add: converse_rtranclp_into_rtranclp)
qed

text \<open>What the contract of an action may rely on, for the actions that leave the ghost idle.\<close>

locale guarantee =
  fixes I :: "'o \<Rightarrow> 's \<Rightarrow> bool" and G :: "'o \<Rightarrow> 's \<Rightarrow> 'o \<Rightarrow> 's \<Rightarrow> bool" and idle :: 'o
  assumes G_refl: "I idle s \<Longrightarrow> G idle s idle s"
    and G_inv: "I idle s \<Longrightarrow> G idle s idle t \<Longrightarrow> I idle t"
    and G_trans: "I idle s \<Longrightarrow> G idle s idle t \<Longrightarrow> G idle t idle u \<Longrightarrow> G idle s idle u"
begin

abbreviation guards :: "('a \<Rightarrow> bool) \<Rightarrow> ('s, 'a) prog \<Rightarrow> bool" where
  "guards Q p \<equiv> rg I G idle Q p idle"

end

text \<open>
  An invariant of a pool, over the ghosts of its programs and the shared state: it gives each program the
  condition of its ghost, and every action that meets its guarantee keeps it. It then holds in every
  state that a pool of such programs reaches.
\<close>

locale pool_invariant = guarantee I G idle
  for I :: "'o \<Rightarrow> 's \<Rightarrow> bool" and G :: "'o \<Rightarrow> 's \<Rightarrow> 'o \<Rightarrow> 's \<Rightarrow> bool" and idle :: 'o +
  fixes Inv :: "'o list \<Rightarrow> 's \<Rightarrow> bool"
  assumes Inv_ghost: "Inv gs s \<Longrightarrow> i < length gs \<Longrightarrow> I (gs ! i) s"
    and Inv_step: "Inv gs s \<Longrightarrow> i < length gs \<Longrightarrow> G (gs ! i) s g' s' \<Longrightarrow> Inv (gs[i := g']) s'"
    and Inv_spawn: "Inv gs s \<Longrightarrow> Inv (gs @ [idle]) s"
begin

definition pool_ok :: "('s, unit) prog list \<times> 's \<Rightarrow> bool" where
  "pool_ok st = (case st of (ps, s) \<Rightarrow> \<exists>gs. list_all2 (rg I G idle (\<lambda>_. True)) ps gs \<and> Inv gs s)"

lemma pool_ok_start: "Inv [] s \<Longrightarrow> pool_ok ([], s)"
  by (simp add: pool_ok_def)

lemma pool_ok_step:
  assumes "pool_step code st st'" and "\<And>p. code p \<Longrightarrow> guards (\<lambda>_. True) p" and "pool_ok st"
  shows "pool_ok st'"
  using assms(1)
proof cases
  case (pool_run i ps a s p s')
  from assms(3) pool_run(1) obtain gs where gs: "list_all2 (rg I G idle (\<lambda>_. True)) ps gs" "Inv gs s"
    by (auto simp: pool_ok_def)
  then have i: "i < length gs" using pool_run(3) by (simp add: list_all2_lengthD)
  have "rg I G idle (\<lambda>_. True) (Act a) (gs ! i)" using list_all2_nthD [OF gs(1) pool_run(3)] pool_run(4) by simp
  from rg_Act [THEN iffD1, OF this, rule_format, OF Inv_ghost [OF gs(2) i]] pool_run(5)
  obtain g' where g': "G (gs ! i) s g' s'" "rg I G idle (\<lambda>_. True) p g'" by auto
  from list_all2_update_cong [OF gs(1) g'(2)] Inv_step [OF gs(2) i g'(1)] pool_run(2) show ?thesis
    by (auto simp: pool_ok_def)
next
  case (pool_spawn p ps s)
  from assms(3) pool_spawn(1) obtain gs where gs: "list_all2 (rg I G idle (\<lambda>_. True)) ps gs" "Inv gs s"
    by (auto simp: pool_ok_def)
  then have "list_all2 (rg I G idle (\<lambda>_. True)) (ps @ [p]) (gs @ [idle])"
    using assms(2) [OF pool_spawn(3)] by (simp add: list_all2_appendI)
  with Inv_spawn [OF gs(2)] pool_spawn(2) show ?thesis by (auto simp: pool_ok_def)
qed

lemma pool_ok_steps:
  assumes "pool_steps code st st'" and "\<And>p. code p \<Longrightarrow> guards (\<lambda>_. True) p" and "pool_ok st"
  shows "pool_ok st'"
  using assms(1,3) by (induction rule: rtranclp_induct) (auto intro: pool_ok_step assms(2))

lemma pool_ok_finished:
  assumes "pool_ok (ps, s)" and "\<forall>p \<in> set ps. finished p"
  shows "Inv (replicate (length ps) idle) s"
proof -
  obtain gs where gs: "list_all2 (rg I G idle (\<lambda>_. True)) ps gs" "Inv gs s" using assms(1) by (auto simp: pool_ok_def)
  have "gs ! i = idle" if "i < length ps" for i
  proof -
    have "finished (ps ! i)" using assms(2) that by simp
    with list_all2_nthD [OF gs(1) that] show ?thesis by (cases "ps ! i") auto
  qed
  then have "gs = replicate (length ps) idle"
    using list_all2_lengthD [OF gs(1)] by (intro nth_equalityI) simp_all
  with gs(2) show ?thesis by simp
qed

end

end
