(* ===== verification/Programs.thy ===== *)
theory Programs
  imports Session Threads
begin

text \<open>
  The operations of \<open>hub.go\<close>, \<open>client.go\<close> and \<open>memory.go\<close> as programs of atomic actions: one action per
  critical section, channel operation, counter, log entry and use of the socket, in the order of the code.
  Run alone, each program computes the function of the same name (\<open>Routing\<close>, \<open>Session\<close>); a pool
  interleaves them with the programs of other goroutines.
\<close>

type_synonym 'a routine = "(world, 'a) prog"

abbreviation thenDo :: "'a routine \<Rightarrow> 'b routine \<Rightarrow> 'b routine" where
  "thenDo p q \<equiv> andThen p (\<lambda>_. q)"

subsection \<open>Closing\<close>

text \<open>
  The body of \<open>Close\<close> runs once but is no critical section: between marking the session, closing the socket,
  running \<open>onClose\<close>, logging and counting, the other goroutines go on. A second caller, which would wait for
  the first at the \<open>sync.Once\<close>, is let through here.
\<close>

definition mark :: "Client \<Rightarrow> Client" where
  "mark x = x\<lparr>c_closeOnce := True, c_closed := True\<rparr>"

definition close_socket :: "Client \<Rightarrow> Client" where
  "close_socket x = x\<lparr>c_connection := map_option (\<lambda>s. s\<lparr>so_closed := True\<rparr>) (c_connection x)\<rparr>"

definition log_close :: "cref \<Rightarrow> bytes \<Rightarrow> world \<Rightarrow> world" where
  "log_close c reason w =
     logged Info ''websocket_session_closed''
       [(''connection_id'', LStr (c_connectionID (w_clients w c))),
        (''user_id'', LStr (c_userID (w_clients w c))), (''reason'', LStr reason)] w"

definition count_reason :: "bytes \<Rightarrow> Metrics \<Rightarrow> Metrics" where
  "count_reason reason m =
     (if reason = ''heartbeat_timeout'' then IncrementHeartbeatTimeouts m
      else if reason = ''outbound_queue_full'' then IncrementQueueFullDisconnects m
      else m)"

definition first_close :: "cref \<Rightarrow> world \<Rightarrow> bool \<times> world" where
  "first_close c w = (if c_closeOnce (w_clients w c) then (False, w) else (True, upd_client c mark w))"

definition pClose :: "cref \<Rightarrow> bytes \<Rightarrow> unit routine" where
  "pClose c reason =
     andThen (atomic (first_close c)) (\<lambda>first.
       if first then
         thenDo (modify (upd_client c close_socket))
         (thenDo (modify (run_onClose c))
         (thenDo (modify (log_close c reason))
         (thenDo (modify (metric DecrementActiveConnections))
           (modify (metric (count_reason reason))))))
       else Return ())"

subsection \<open>Sending\<close>

definition pNewEvent :: "MessageType \<Rightarrow> bytes \<Rightarrow> event_payload \<Rightarrow> OutboundMessage option routine" where
  "pNewEvent messageType requestID payload =
     andThen (atomic draw_rand) (\<lambda>r.
     andThen (atomic draw_clock) (\<lambda>t.
     Return (newOutboundMessage r (snd t) messageType requestID payload)))"

text \<open>
  The critical section of \<open>Send\<close>: refused, queued, or full. It excludes other sends and closes of the session,
  but the write loop receives from the channel without it, so the depth that is counted is read separately.
\<close>

datatype enqueued = Refused_closed | Queued | Queue_full

definition enqueue :: "cref \<Rightarrow> outboundMessage \<Rightarrow> world \<Rightarrow> enqueued \<times> world" where
  "enqueue c message w =
     (if c_closed (w_clients w c) then (Refused_closed, w)
      else
        (case try_send message (c_send (w_clients w c)) of
           (True, _) \<Rightarrow> (Queued, upd_client c (\<lambda>x. x\<lparr>c_send := snd (try_send message (c_send x))\<rparr>) w)
         | (False, _) \<Rightarrow> (Queue_full, w)))"

definition note_queue_full :: "cref \<Rightarrow> world \<Rightarrow> world" where
  "note_queue_full c w =
     logged Warn ''websocket_queue_full''
       [(''connection_id'', LStr (c_connectionID (w_clients w c))), (''user_id'', LStr (c_userID (w_clients w c))),
        (''queue_depth'', LInt (len (ch_buf (c_send (w_clients w c))))),
        (''queue_capacity'', LInt (int (ch_cap (c_send (w_clients w c)))))] w"

definition pSend :: "cref \<Rightarrow> int \<Rightarrow> bytes \<Rightarrow> bool routine" where
  "pSend c messageType payload =
     andThen (atomic (enqueue c \<lparr>om_messageType = messageType, om_payload = payload\<rparr>)) (\<lambda>r.
       case r of
         Refused_closed \<Rightarrow> Return False
       | Queued \<Rightarrow>
           andThen (reading (\<lambda>w. length (ch_buf (c_send (w_clients w c))))) (\<lambda>depth.
           thenDo (modify (metric (UpdateMaxQueueDepth (of_nat depth)))) (Return True))
       | Queue_full \<Rightarrow>
           thenDo (modify (note_queue_full c)) (thenDo (pClose c ''outbound_queue_full'') (Return False)))"

definition note_unmarshalled :: "cref \<Rightarrow> world \<Rightarrow> world" where
  "note_unmarshalled c w =
     logged Error ''websocket_message_encode_failed''
       [(''connection_id'', LStr (c_connectionID (w_clients w c))),
        (''user_id'', LStr (c_userID (w_clients w c))), (''error'', LErr)] w"

definition pSendJSON :: "cref \<Rightarrow> OutboundMessage \<Rightarrow> bool routine" where
  "pSendJSON c v =
     (case MarshalOutbound v of
        None \<Rightarrow> thenDo (modify (note_unmarshalled c)) (thenDo (pClose c ''message_encode_failed'') (Return False))
      | Some payload \<Rightarrow> pSend c TextMessage payload)"

subsection \<open>The hub\<close>

definition pRegister :: "href \<Rightarrow> cref \<Rightarrow> unit routine" where
  "pRegister hb c =
     andThen (atomic (\<lambda>w. (fst (register_locked (w_clients w) c (w_hubs w hb)),
                           upd_hub hb (hub_step (w_clients w) (OpRegister c)) w)))
       (\<lambda>replaced.
          case replaced of
            None \<Rightarrow> Return ()
          | Some old \<Rightarrow> if old \<noteq> c then pClose old ''duplicate_session_replaced'' else Return ())"

definition note_unavailable :: "bytes \<Rightarrow> cref \<Rightarrow> world \<Rightarrow> world" where
  "note_unavailable roomID c w =
     logged Warn ''websocket_broadcast_recipient_unavailable''
       [(''room_id'', LStr roomID), (''recipient_user_id'', LStr (UserID (w_clients w c))),
        (''recipient_connection_id'', LStr (ConnectionID (w_clients w c))),
        (''queue_depth'', LInt (QueueDepth c w))] w"

definition pDeliver :: "bytes \<Rightarrow> OutboundMessage \<Rightarrow> cref \<Rightarrow> unit routine" where
  "pDeliver roomID event c =
     andThen (pSendJSON c event) (\<lambda>ok. if ok then Return () else modify (note_unavailable roomID c))"

text \<open>The recipients, collected under the read lock; the iteration order is one draw.\<close>

definition collect_recipients :: "href \<Rightarrow> bytes \<Rightarrow> bytes \<Rightarrow> world \<Rightarrow> cref list option \<times> world" where
  "collect_recipients hb senderID roomID w =
     (case recipients (e_order (w_env w) (w_tick w)) (w_clients w) senderID roomID (w_hubs w hb) of
        None \<Rightarrow> (None, w)
      | Some rs \<Rightarrow> (Some rs, tick w))"

definition pLocalBroadcast :: "href \<Rightarrow> bytes \<Rightarrow> bytes \<Rightarrow> bytes \<Rightarrow> unit routine" where
  "pLocalBroadcast hb senderID roomID payload =
     andThen (atomic (collect_recipients hb senderID roomID)) (\<lambda>collected.
       case collected of
         None \<Rightarrow> Return ()
       | Some rs \<Rightarrow>
           andThen (pNewEvent CommandRoomBroadcast [] (PBroadcast roomID senderID payload)) (\<lambda>e.
             case e of
               None \<Rightarrow>
                 modify (logged Error ''websocket_broadcast_event_failed'' [(''room_id'', LStr roomID), (''error'', LErr)])
             | Some event \<Rightarrow> each (pDeliver roomID event) rs))"

definition note_overloaded :: "bytes \<Rightarrow> bytes \<Rightarrow> bytes \<Rightarrow> cref \<Rightarrow> world \<Rightarrow> world" where
  "note_overloaded message senderID recipientID recipient w =
     logged Warn message
       [(''sender_user_id'', LStr senderID), (''recipient_user_id'', LStr recipientID),
        (''recipient_connection_id'', LStr (ConnectionID (w_clients w recipient))),
        (''queue_depth'', LInt (QueueDepth recipient w))] w"

definition pLocalSendPrivate :: "href \<Rightarrow> bytes \<Rightarrow> bytes \<Rightarrow> bytes \<Rightarrow> unit routine" where
  "pLocalSendPrivate hb senderID recipientID payload =
     andThen (reading (\<lambda>w. Lookup recipientID (w_hubs w hb))) (\<lambda>found.
       case found of
         None \<Rightarrow> Return ()
       | Some recipient \<Rightarrow>
           andThen (pNewEvent CommandPrivateSend [] (PPrivate senderID recipientID payload)) (\<lambda>e.
             case e of
               None \<Rightarrow> modify (logged Error ''websocket_private_event_failed'' [(''error'', LErr)])
             | Some event \<Rightarrow>
                 andThen (pSendJSON recipient event) (\<lambda>ok.
                   if ok then Return ()
                   else modify (note_overloaded ''websocket_private_recipient_overloaded_broker'' senderID recipientID recipient))))"

definition pHandleBrokerEvent :: "href \<Rightarrow> BrokerEvent \<Rightarrow> unit routine" where
  "pHandleBrokerEvent hb event =
     andThen (reading (\<lambda>w. h_nodeID (w_hubs w hb))) (\<lambda>nid.
       if nid \<noteq> [] \<and> be_NodeID event = nid then Return ()
       else
         thenDo (modify (metric IncrementBrokerReceiveCount))
           (if be_Type event = ''room_broadcast'' then
              pLocalBroadcast hb (be_SenderID event) (be_RoomID event) (be_Payload event)
            else if be_Type event = ''private_send'' then
              pLocalSendPrivate hb (be_SenderID event) (be_RecipientID event) (be_Payload event)
            else modify (logged Warn ''websocket_broker_event_unknown_type'' [(''type'', LStr (be_Type event))])))"

definition pBrokerCallback :: "bytes \<Rightarrow> bytes \<Rightarrow> href \<Rightarrow> unit routine" where
  "pBrokerCallback subject data hb =
     (case DecodeBrokerEvent data of
        None \<Rightarrow> modify (logged Error ''server_broker_decode_failed'' [(''subject'', LStr subject), (''error'', LErr)])
      | Some event \<Rightarrow> pHandleBrokerEvent hb event)"

text \<open>
  Publishing: the closed flag, then the matching handlers under the read lock, then the handlers one after
  the other; for NATS the one call of the library.
\<close>

definition begin_publish :: "bref \<Rightarrow> world \<Rightarrow> (goerror option + unit) \<times> world" where
  "begin_publish b w =
     (case w_brokers w b of
        Mem mb \<Rightarrow> if mb_closed mb then (Inl (Some ErrBrokerClosed), tick w) else (Inr (), w)
      | Nats nb \<Rightarrow> (Inl (nats_Publish (e_js (w_env w) (w_tick w)) nb), tick w))"

definition collect_handlers :: "bref \<Rightarrow> bytes \<Rightarrow> world \<Rightarrow> href list \<times> world" where
  "collect_handlers b subject w =
     ((case w_brokers w b of
         Mem mb \<Rightarrow> map ms_handler (mem_matches (e_subs (w_env w) (w_tick w)) subject mb)
       | Nats _ \<Rightarrow> []), tick w)"

definition pPublish :: "bref \<Rightarrow> bytes \<Rightarrow> bytes \<Rightarrow> goerror option routine" where
  "pPublish b subject data =
     andThen (atomic (begin_publish b)) (\<lambda>r.
       case r of
         Inl result \<Rightarrow> Return result
       | Inr _ \<Rightarrow>
           andThen (atomic (collect_handlers b subject)) (\<lambda>handlers.
           thenDo (each (pBrokerCallback subject data) handlers) (Return None)))"

definition pBroadcast :: "href \<Rightarrow> bytes \<Rightarrow> bytes \<Rightarrow> bytes \<Rightarrow> unit routine" where
  "pBroadcast hb senderID roomID payload =
     thenDo (pLocalBroadcast hb senderID roomID payload)
       (andThen (reading (\<lambda>w. (h_broker (w_hubs w hb), h_nodeID (w_hubs w hb)))) (\<lambda>(broker, nid).
          case broker of
            None \<Rightarrow> Return ()
          | Some br \<Rightarrow>
              (case Encode \<lparr>be_NodeID = nid, be_Type = ''room_broadcast'', be_RoomID = roomID,
                            be_SenderID = senderID, be_RecipientID = [], be_Payload = payload\<rparr> of
                 None \<Rightarrow> modify note_encode_failed
               | Some data \<Rightarrow>
                   andThen (pPublish br (''blockforge.rooms.'' @ roomID) data) (\<lambda>result.
                     case result of
                       Some err \<Rightarrow> modify (note_publish_failed (''blockforge.rooms.'' @ roomID))
                     | None \<Rightarrow> modify (metric IncrementBrokerPublishCount)))))"

definition pPublishPrivate ::
    "bref option \<Rightarrow> bytes \<Rightarrow> bool \<Rightarrow> hub_error option \<Rightarrow> bytes \<Rightarrow> bytes \<Rightarrow> bytes \<Rightarrow> hub_error option routine" where
  "pPublishPrivate broker nid ok localErr senderID recipientID payload =
     (case broker of
        None \<Rightarrow> Return (if ok then localErr else Some ErrRecipientOffline)
      | Some br \<Rightarrow>
          (case Encode \<lparr>be_NodeID = nid, be_Type = ''private_send'', be_RoomID = [],
                        be_SenderID = senderID, be_RecipientID = recipientID, be_Payload = payload\<rparr> of
             None \<Rightarrow>
               andThen (reading (\<lambda>w. e_marshalErr (w_env w))) (\<lambda>err.
               thenDo (modify note_encode_failed) (Return (if ok then localErr else Some (OtherError err))))
           | Some data \<Rightarrow>
               andThen (pPublish br (''blockforge.users.'' @ recipientID) data) (\<lambda>result.
                 case result of
                   Some err \<Rightarrow>
                     thenDo (modify (note_publish_failed (''blockforge.users.'' @ recipientID)))
                       (Return (if ok then localErr else Some (OtherError err)))
                 | None \<Rightarrow> thenDo (modify (metric IncrementBrokerPublishCount)) (Return None))))"

definition pSendPrivate :: "href \<Rightarrow> bytes \<Rightarrow> bytes \<Rightarrow> bytes \<Rightarrow> hub_error option routine" where
  "pSendPrivate hb senderID recipientID payload =
     andThen (reading (\<lambda>w. (Lookup recipientID (w_hubs w hb), h_broker (w_hubs w hb), h_nodeID (w_hubs w hb))))
       (\<lambda>(found, br, nid).
          case found of
            None \<Rightarrow> pPublishPrivate br nid False None senderID recipientID payload
          | Some recipient \<Rightarrow>
              andThen (pNewEvent CommandPrivateSend [] (PPrivate senderID recipientID payload)) (\<lambda>e.
                case e of
                  None \<Rightarrow> andThen (reading (\<lambda>w. e_randErr (w_env w))) (\<lambda>err. Return (Some (OtherError err)))
                | Some event \<Rightarrow>
                    andThen (pSendJSON recipient event) (\<lambda>ok.
                      if ok then pPublishPrivate br nid True None senderID recipientID payload
                      else
                        thenDo (modify (note_overloaded ''websocket_private_recipient_overloaded'' senderID recipientID recipient))
                          (pPublishPrivate br nid True (Some ErrRecipientOverloaded) senderID recipientID payload))))"

definition collect_sessions :: "href \<Rightarrow> world \<Rightarrow> cref list \<times> world" where
  "collect_sessions hb w = (Snapshot (e_order (w_env w) (w_tick w)) (w_hubs w hb), tick w)"

definition pCloseAll :: "href \<Rightarrow> bytes \<Rightarrow> unit routine" where
  "pCloseAll hb reason = andThen (atomic (collect_sessions hb)) (each (\<lambda>c. pClose c reason))"

definition pBroadcastDraining :: "href \<Rightarrow> unit routine" where
  "pBroadcastDraining hb =
     andThen (pNewEvent EventServerDraining [] (PDraining ''Server is shutting down. Please reconnect.'')) (\<lambda>e.
       case e of
         None \<Rightarrow> modify (logged Error ''websocket_draining_event_failed'' [(''error'', LErr)])
       | Some event \<Rightarrow>
           andThen (atomic (collect_sessions hb)) (each (\<lambda>c. thenDo (pSendJSON c event) (Return ()))))"

subsection \<open>Replies and commands\<close>

definition pReply :: "cref \<Rightarrow> MessageType \<Rightarrow> bytes \<Rightarrow> event_payload \<Rightarrow> bool routine" where
  "pReply c messageType requestID payload =
     andThen (pNewEvent messageType requestID payload) (\<lambda>e.
       case e of
         None \<Rightarrow>
           thenDo (modify (logged Error ''websocket_event_id_failed'' [(''error'', LErr)]))
             (thenDo (pClose c ''event_id_failed'') (Return False))
       | Some event \<Rightarrow> pSendJSON c event)"

definition pSendAcknowledgement :: "cref \<Rightarrow> InboundMessage \<Rightarrow> bool routine" where
  "pSendAcknowledgement c message =
     pReply c EventCommandAck (in_RequestID message) (PAck \<lparr>ack_Status = ''accepted'', ack_CommandType = in_Type message\<rparr>)"

definition pSendError :: "cref \<Rightarrow> bytes \<Rightarrow> ErrorCode \<Rightarrow> bytes \<Rightarrow> bool routine" where
  "pSendError c requestID errorCode message =
     pReply c EventError requestID (PError \<lparr>ep_Code = errorCode, ep_Message = message, ep_Retryable = False\<rparr>)"

definition pSendProtocolError :: "cref \<Rightarrow> ProtocolError \<Rightarrow> bool routine" where
  "pSendProtocolError c pe = pSendError c (pe_RequestID pe) (pe_Code pe) (pe_Message pe)"

definition exit_reason :: "bool \<Rightarrow> bytes" where
  "exit_reason sent = (if sent then [] else ''outbound_unavailable'')"

definition pAccept :: "cref \<Rightarrow> InboundMessage \<Rightarrow> (bool \<times> bytes) routine" where
  "pAccept c message = andThen (pSendAcknowledgement c message) (\<lambda>sent. Return (True, exit_reason sent))"

definition note_refused :: "cref \<Rightarrow> bytes \<Rightarrow> InboundMessage \<Rightarrow> bytes \<Rightarrow> world \<Rightarrow> world" where
  "note_refused c event message text w =
     logged Warn event
       [(''connection_id'', LStr (c_connectionID (w_clients w c))),
        (''user_id'', LStr (c_userID (w_clients w c))),
        (''request_id'', LStr (in_RequestID message)),
        (''command_type'', LStr (in_Type message)), (''reason'', LStr text)] w"

definition pRefuse :: "cref \<Rightarrow> bytes \<Rightarrow> InboundMessage \<Rightarrow> ErrorCode \<Rightarrow> bytes \<Rightarrow> (bool \<times> bytes) routine" where
  "pRefuse c event message errorCode text =
     thenDo (modify (note_refused c event message text))
       (andThen (pSendError c (in_RequestID message) errorCode text) (\<lambda>sent. Return (False, exit_reason sent)))"

definition pRunCommand :: "cref \<Rightarrow> InboundMessage \<Rightarrow> (bool \<times> bytes) routine" where
  "pRunCommand c message =
     andThen (reading (\<lambda>w. (c_hub (w_clients w c), UserID (w_clients w c)))) (\<lambda>(hub, user).
       case hub of
         None \<Rightarrow> pAccept c message
       | Some hb \<Rightarrow>
           if in_Type message = CommandRoomJoin then
             andThen (atomic (\<lambda>w. (fst (Join (w_clients w) c (in_RoomID message) (w_hubs w hb)),
                                   upd_hub hb (hub_step (w_clients w) (OpJoin c (in_RoomID message))) w)))
               (\<lambda>result. case result of
                  Some err \<Rightarrow> pRefuse c ''websocket_command_rejected'' message ErrorUnauthorized err
                | None \<Rightarrow> pAccept c message)
           else if in_Type message = CommandRoomLeave then
             thenDo (modify (\<lambda>w. upd_hub hb (hub_step (w_clients w) (OpLeave c (in_RoomID message))) w)) (pAccept c message)
           else if in_Type message = CommandRoomBroadcast then
             andThen (reading (\<lambda>w. AuthorizeBroadcast (w_clients w) c (in_RoomID message) (w_hubs w hb)))
               (\<lambda>result. case result of
                  Some err \<Rightarrow> pRefuse c ''websocket_command_rejected'' message ErrorUnauthorized err
                | None \<Rightarrow> thenDo (pBroadcast hb user (in_RoomID message) (in_Payload message)) (pAccept c message))
           else if in_Type message = CommandPrivateSend then
             andThen (reading (\<lambda>w. AuthorizePrivateSend (h_authorizer (w_hubs w hb)) user (in_RecipientID message)))
               (\<lambda>result. case result of
                  Some err \<Rightarrow> pRefuse c ''websocket_command_rejected'' message ErrorUnauthorized err
                | None \<Rightarrow>
                    andThen (pSendPrivate hb user (in_RecipientID message) (in_Payload message)) (\<lambda>sent.
                      case sent of
                        Some err \<Rightarrow>
                          pRefuse c ''websocket_command_failed'' message (private_error_code err) (hub_error_text err)
                      | None \<Rightarrow> pAccept c message))
           else pAccept c message)"

definition pHandleFrame :: "cref \<Rightarrow> bool \<Rightarrow> int \<Rightarrow> bytes \<Rightarrow> (bytes \<times> bool \<times> bytes) routine" where
  "pHandleFrame c rateLimitExceeded messageType payload =
     (if messageType \<noteq> TextMessage then
        andThen (pSendProtocolError c \<lparr>pe_Code = ErrorInvalidMessage,
                   pe_Message = ''Only JSON text frames are supported.'', pe_RequestID = []\<rparr>)
          (\<lambda>sent. Return (''unknown'', False, exit_reason sent))
      else
        (case DecodeInbound payload of
           (message, protocolError) \<Rightarrow>
             (let msgType = (if in_Type message \<noteq> [] then in_Type message else ''unknown'') in
              if rateLimitExceeded then
                andThen (pSendError c (case protocolError of None \<Rightarrow> in_RequestID message | Some pe \<Rightarrow> pe_RequestID pe)
                           ErrorRateLimitExceeded ''Rate limit exceeded.'')
                  (\<lambda>sent. Return (msgType, False, exit_reason sent))
              else
                (case protocolError of
                   Some pe \<Rightarrow> andThen (pSendProtocolError c pe) (\<lambda>sent. Return (msgType, False, exit_reason sent))
                 | None \<Rightarrow> andThen (pRunCommand c message) (\<lambda>(success, reason). Return (msgType, success, reason))))))"

definition pProcessFrame :: "cref \<Rightarrow> bool \<Rightarrow> int \<Rightarrow> bytes \<Rightarrow> bytes routine" where
  "pProcessFrame c rateLimitExceeded messageType payload =
     andThen (atomic draw_clock) (\<lambda>start.
     andThen (pHandleFrame c rateLimitExceeded messageType payload) (\<lambda>(msgType, success, reason).
     andThen (atomic draw_clock) (\<lambda>now.
     thenDo (modify (metric (finish_frame (of_int (time_Sub (fst now) (fst start))) msgType success)))
       (Return reason))))"

subsection \<open>The loops of a session\<close>

definition pReadStep :: "cref \<Rightarrow> read_result \<Rightarrow> bytes routine" where
  "pReadStep c r =
     (case r of
        ReadFrame messageType payload \<Rightarrow>
          thenDo (modify (metric IncrementMessagesReceived))
            (andThen (atomic (check_rate c)) (\<lambda>allowed.
             andThen (reading (\<lambda>w. c_readTimeout (w_clients w c))) (\<lambda>readTimeout.
             andThen (if 0 < readTimeout then atomic (set_read_deadline c) else Return True) (\<lambda>ok.
               if ok then pProcessFrame c (\<not> allowed) messageType payload else Return ''read_deadline_failed''))))
      | _ \<Rightarrow> reading (\<lambda>w. read_error_reason (w_clients w c) r))"

text \<open>One use of the socket: the frame is written, or the write fails.\<close>

definition socket_write :: "cref \<Rightarrow> outboundMessage \<Rightarrow> world \<Rightarrow> bool \<times> world" where
  "socket_write c m w =
     (if e_sock (w_env w) (w_tick w) then (False, tick w)
      else (True, upd_client c (\<lambda>x. x\<lparr>c_connection := map_option
                    (\<lambda>s. s\<lparr>so_written := so_written s @ [m]\<rparr>) (c_connection x)\<rparr>) (tick w)))"

definition pWriteFrame :: "cref \<Rightarrow> outboundMessage \<Rightarrow> bool routine" where
  "pWriteFrame c m =
     andThen (reading (\<lambda>w. c_writeTimeout (w_clients w c))) (\<lambda>writeTimeout.
     andThen (if 0 < writeTimeout then atomic (set_write_deadline c) else Return True) (\<lambda>ok.
       if ok then
         andThen (atomic (socket_write c m)) (\<lambda>written.
           if written then Return True else thenDo (pClose c ''write_failed'') (Return False))
       else thenDo (pClose c ''write_deadline_failed'') (Return False)))"

definition take_message :: "cref \<Rightarrow> world \<Rightarrow> outboundMessage option \<times> world" where
  "take_message c w =
     (case try_recv (c_send (w_clients w c)) of
        None \<Rightarrow> (None, w)
      | Some (message, ch) \<Rightarrow> (Some message, upd_client c (\<lambda>x. x\<lparr>c_send := ch\<rparr>) w))"

definition pWriteSelect :: "cref \<Rightarrow> write_choice \<Rightarrow> bool routine" where
  "pWriteSelect c choice =
     (case choice of
        ChooseDone \<Rightarrow> reading (\<lambda>w. \<not> c_closed (w_clients w c))
      | ChooseMessage \<Rightarrow>
          andThen (atomic (take_message c)) (\<lambda>taken.
            case taken of
              None \<Rightarrow> Return True
            | Some message \<Rightarrow>
                andThen (pWriteFrame c message) (\<lambda>ok.
                  if ok then thenDo (modify (metric IncrementMessagesSent)) (Return True) else Return False))
      | ChoosePing \<Rightarrow>
          andThen (reading (\<lambda>w. c_pingInterval (w_clients w c))) (\<lambda>pingInterval.
            if 0 < pingInterval then pWriteFrame c \<lparr>om_messageType = PingMessage, om_payload = []\<rparr> else Return True))"

definition pWriteStep :: "cref \<Rightarrow> write_choice \<Rightarrow> bool routine" where
  "pWriteStep c choice =
     andThen (reading (\<lambda>w. c_closed (w_clients w c))) (\<lambda>closed. if closed then Return False else pWriteSelect c choice)"

text \<open>The write loop for the alternatives it will choose; after them it waits.\<close>

primrec pWriteLoop :: "cref \<Rightarrow> write_choice list \<Rightarrow> unit routine" where
  "pWriteLoop c [] = Return ()"
| "pWriteLoop c (choice # choices) =
     andThen (pWriteStep c choice) (\<lambda>continues. if continues then pWriteLoop c choices else Return ())"

text \<open>The read loop for what it will read; \<open>None\<close> while it is still reading.\<close>

primrec pReads :: "cref \<Rightarrow> read_result list \<Rightarrow> bytes option routine" where
  "pReads c [] = Return None"
| "pReads c (r # rs) =
     andThen (pReadStep c r) (\<lambda>reason. if reason \<noteq> [] then Return (Some reason) else pReads c rs)"

definition pReadLoop :: "cref \<Rightarrow> read_result list \<Rightarrow> bytes option routine" where
  "pReadLoop c rs =
     andThen (reading (\<lambda>w. c_readTimeout (w_clients w c))) (\<lambda>readTimeout.
     andThen (if 0 < readTimeout then atomic (set_read_deadline c) else Return True) (\<lambda>ok.
       if ok then pReads c rs else Return (Some ''read_deadline_failed'')))"

text \<open>The goroutine of the session handler in \<open>Run\<close>, beside the one of the write loop.\<close>

definition pRun :: "cref \<Rightarrow> read_result list \<Rightarrow> bool routine" where
  "pRun c rs =
     andThen (reading (\<lambda>w. PReady (c_connectionID (w_clients w c)) (c_userID (w_clients w c)))) (\<lambda>ready.
     andThen (pNewEvent EventConnectionReady [] ready) (\<lambda>e.
       case e of
         None \<Rightarrow> thenDo (pClose c ''event_id_failed'') (Return True)
       | Some event \<Rightarrow>
           andThen (pSendJSON c event) (\<lambda>sent.
             if \<not> sent then thenDo (pClose c ''ready_queue_unavailable'') (Return True)
             else
               andThen (pReadLoop c rs) (\<lambda>result.
                 case result of
                   Some reason \<Rightarrow> thenDo (pClose c reason) (Return True)
                 | None \<Rightarrow> Return False))))"

subsection \<open>Alone, a program computes its function\<close>

lemma exec_if [exec_simps]: "exec (if b then p else q) s = (if b then exec p s else exec q s)"
  by simp

text \<open>Run without interruption, the pieces are exactly \<open>Close\<close>.\<close>

lemma Close_pieces:
  assumes "\<not> c_closeOnce (w_clients w c)"
  shows "Close c reason w =
    metric (count_reason reason) (metric DecrementActiveConnections (log_close c reason
      (run_onClose c (upd_client c close_socket (upd_client c mark w)))))"
proof -
  have "upd_client c close_socket (upd_client c mark w) = upd_client c mark_closed w"
    by (simp add: upd_client_def close_socket_def mark_def mark_closed_def)
  moreover have "metric (count_reason reason) (metric DecrementActiveConnections v) = metric (close_counters reason) v" for v
    by (simp add: metric_def close_counters_def count_reason_def)
  moreover have "w_clients (run_onClose c v) = w_clients v" for v
    by (simp add: run_onClose_def upd_hub_def split: option.split)
  ultimately show ?thesis
    using assms by (simp add: Close_def Let_def log_close_def mark_closed_def upd_client_def)
qed

lemma exec_pClose [exec_simps]: "exec (pClose c r) w = ((), Close c r w)"
  by (simp add: pClose_def first_close_def Close_pieces exec_simps) (simp add: Close_def)

lemma exec_pNewEvent [exec_simps]: "exec (pNewEvent t q p) w = new_event t q p w"
  by (simp add: pNewEvent_def new_event_def exec_simps draw_rand_def draw_clock_def)

lemma exec_pSend [exec_simps]: "exec (pSend c t p) w = Send c t p w"
  by (simp add: pSend_def Send_def enqueue_def note_queue_full_def try_send_def upd_client_def exec_simps Let_def)

lemma exec_pSendJSON [exec_simps]: "exec (pSendJSON c v) w = SendJSON c v w"
  by (simp add: pSendJSON_def SendJSON_def note_unmarshalled_def exec_simps split: option.split)

lemma exec_pRegister [exec_simps]: "exec (pRegister hb c) w = ((), Register hb c w)"
  by (auto simp: pRegister_def Register_def upd_hub_def exec_simps Let_def split: option.split prod.split)

lemma exec_pDeliver [exec_simps]: "exec (pDeliver r e c) w = ((), deliver r e c w)"
  by (simp add: pDeliver_def deliver_def note_unavailable_def exec_simps split: prod.split bool.split)

lemma exec_pLocalBroadcast [exec_simps]: "exec (pLocalBroadcast hb s r p) w = ((), localBroadcast hb s r p w)"
  by (simp add: pLocalBroadcast_def localBroadcast_def collect_recipients_def exec_simps split: option.split prod.split)

lemma exec_pLocalSendPrivate [exec_simps]: "exec (pLocalSendPrivate hb s r p) w = ((), localSendPrivate hb s r p w)"
  by (simp add: pLocalSendPrivate_def localSendPrivate_def note_overloaded_def exec_simps split: option.split prod.split bool.split)

lemma exec_pHandleBrokerEvent [exec_simps]: "exec (pHandleBrokerEvent hb e) w = ((), HandleBrokerEvent hb e w)"
  by (simp add: pHandleBrokerEvent_def HandleBrokerEvent_def exec_simps Let_def)

lemma exec_pBrokerCallback [exec_simps]: "exec (pBrokerCallback s d hb) w = ((), broker_callback hb s d w)"
  by (simp add: pBrokerCallback_def broker_callback_def exec_simps split: option.split)

lemma exec_pPublish [exec_simps]: "exec (pPublish b s d) w = Publish b s d w"
  by (simp add: pPublish_def Publish_def begin_publish_def collect_handlers_def mem_Publish_def exec_simps fold_map o_def
      split: broker_impl.split)

lemma exec_pBroadcast [exec_simps]: "exec (pBroadcast hb s r p) w = ((), Broadcast hb s r p w)"
  by (simp add: pBroadcast_def Broadcast_def exec_simps Let_def split: option.split prod.split)

lemma exec_pPublishPrivate [exec_simps]:
  "exec (pPublishPrivate b n ok l s r p) w = publish_private b n ok l s r p w"
  by (simp add: pPublishPrivate_def publish_private_def exec_simps Let_def split: option.split prod.split)

lemma exec_pSendPrivate [exec_simps]: "exec (pSendPrivate hb s r p) w = SendPrivate hb s r p w"
  by (simp add: pSendPrivate_def SendPrivate_def note_overloaded_def exec_simps Let_def split: option.split prod.split bool.split)

lemma exec_pCloseAll [exec_simps]: "exec (pCloseAll hb r) w = ((), CloseAll hb r w)"
  by (simp add: pCloseAll_def CloseAll_def collect_sessions_def exec_simps)

lemma exec_pBroadcastDraining [exec_simps]: "exec (pBroadcastDraining hb) w = ((), BroadcastDraining hb w)"
  by (simp add: pBroadcastDraining_def BroadcastDraining_def collect_sessions_def exec_simps case_prod_beta split: option.split)

lemma exec_pReply [exec_simps]: "exec (pReply c t q p) w = send_reply c t q p w"
  by (simp add: pReply_def send_reply_def exec_simps split: option.split prod.split)

lemma exec_replies [exec_simps]:
  "exec (pSendAcknowledgement c m) w = sendAcknowledgement c m w"
  "exec (pSendError c q ec txt) w = sendError c q ec txt w"
  "exec (pSendProtocolError c pe) w = sendProtocolError c pe w"
  by (simp_all add: pSendAcknowledgement_def sendAcknowledgement_def pSendError_def sendError_def
      pSendProtocolError_def sendProtocolError_def exec_simps)

lemma exec_pAccept [exec_simps]: "exec (pAccept c m) w = accept c m w"
  by (simp add: pAccept_def accept_def exit_of_def exit_reason_def exec_simps case_prod_beta)

lemma exec_pRefuse [exec_simps]: "exec (pRefuse c e m ec txt) w = refuse c e m ec txt w"
  by (simp add: pRefuse_def refuse_def note_refused_def exit_of_def exit_reason_def exec_simps Let_def case_prod_beta)

lemma exec_pRunCommand [exec_simps]: "exec (pRunCommand c m) w = run_command c m w"
  by (auto simp: pRunCommand_def run_command_def exec_simps upd_hub_def split: option.split prod.split)

lemma exec_pHandleFrame [exec_simps]: "exec (pHandleFrame c l t p) w = handle_frame c l t p w"
  by (simp add: pHandleFrame_def handle_frame_def exit_of_def exit_reason_def exec_simps Let_def case_prod_beta split: option.split)

lemma exec_pProcessFrame [exec_simps]: "exec (pProcessFrame c l t p) w = process_frame c l t p w"
  by (simp add: pProcessFrame_def process_frame_def exec_simps case_prod_beta)

lemma exec_pReadStep [exec_simps]: "exec (pReadStep c r) w = read_step c r w"
  by (simp add: pReadStep_def read_step_def exec_simps case_prod_beta split: read_result.split prod.split bool.split)

lemma exec_pWriteFrame [exec_simps]: "exec (pWriteFrame c m) w = write_frame c m w"
  by (simp add: pWriteFrame_def write_frame_def socket_write_def exec_simps split: prod.split bool.split)

lemma exec_pWriteSelect [exec_simps]: "exec (pWriteSelect c ch) w = write_select c ch w"
  by (simp add: pWriteSelect_def write_select_def take_message_def exec_simps split: write_choice.split option.split prod.split bool.split)

lemma exec_pWriteStep [exec_simps]: "exec (pWriteStep c ch) w = write_step c ch w"
  by (simp add: pWriteStep_def write_step_def exec_simps)

lemma exec_pReads [exec_simps]: "exec (pReads c rs) w = session_loop c (map Reads rs) w"
  by (induction rs arbitrary: w) (simp_all add: exec_simps split: prod.split)

lemma exec_pReadLoop [exec_simps]: "exec (pReadLoop c rs) w = readLoop c (map Reads rs) w"
  by (simp add: pReadLoop_def readLoop_def exec_simps split: prod.split bool.split)

lemma exec_pRun [exec_simps]: "exec (pRun c rs) w = Run c (map Reads rs) w"
  by (simp add: pRun_def Run_def readyEvent_def exec_simps split: option.split prod.split bool.split)

end
