(* ===== verification/Actions.thy ===== *)
theory Actions
  imports Programs
begin

text \<open>
  The contract between the programs of the process and the relations that are shown of them. A relation
  that covers each kind of atomic action covers every action of every program, in any interleaving; the
  locales below state what an instance has to provide.
\<close>

subsection \<open>Kinds of actions\<close>

text \<open>Counter updates that leave the session gauge and the inbound accounting as they are.\<close>

definition quiet :: "(Metrics \<Rightarrow> Metrics) \<Rightarrow> bool" where
  "quiet f = (\<forall>m. ActiveConnections (f m) = ActiveConnections m \<and> inbound_balanced (f m) = inbound_balanced m)"

text \<open>Updates of a session that touch only its limiter, its deadlines and the frames it has written.\<close>

definition quiet_client :: "(Client \<Rightarrow> Client) \<Rightarrow> bool" where
  "quiet_client f =
     (\<forall>x. f x = x\<lparr>c_connection := c_connection (f x), c_limiter := c_limiter (f x)\<rparr> \<and>
          map_option so_closed (c_connection (f x)) = map_option so_closed (c_connection x))"

text \<open>Those among them that write nothing, and the one that writes.\<close>

definition silent_client :: "(Client \<Rightarrow> Client) \<Rightarrow> bool" where
  "silent_client f =
     (quiet_client f \<and> (\<forall>x. map_option so_written (c_connection (f x)) = map_option so_written (c_connection x)))"

definition put_frame :: "outboundMessage \<Rightarrow> Client \<Rightarrow> Client" where
  "put_frame m x = x\<lparr>c_connection := map_option (\<lambda>s. s\<lparr>so_written := so_written s @ [m]\<rparr>) (c_connection x)\<rparr>"

lemma quiet_metrics [simp]:
  "quiet IncrementBrokerPublishErrors" "quiet IncrementBrokerPublishCount" "quiet IncrementBrokerReceiveCount"
  "quiet IncrementMessagesReceived" "quiet IncrementMessagesSent" "quiet IncrementUpgradesAttempted"
  "quiet IncrementUpgradesRejected"
  by (simp_all add: quiet_def metric_defs inbound_balanced_def inbound_total_def)

lemma quiet_depth [simp]: "quiet (UpdateMaxQueueDepth d)"
  by (simp add: quiet_def inbound_balanced_def inbound_total_def)

lemma quiet_finish [simp]: "quiet (finish_frame d t ok)"
proof -
  have "ActiveConnections (finish_frame d t ok m) = ActiveConnections m" for m
    by (simp add: finish_frame_def IncrementInboundResult_def IncrementInboundType_def
        RecordProcessingLatency_def Let_def)
  then show ?thesis by (simp add: quiet_def)
qed

lemma silent_deadlines [simp]:
  "silent_client (\<lambda>x. x\<lparr>c_connection := map_option (\<lambda>s. s\<lparr>so_readDeadline := Some (g x)\<rparr>) (c_connection x)\<rparr>)"
  "silent_client (\<lambda>x. x\<lparr>c_connection := map_option (\<lambda>s. s\<lparr>so_writeDeadline := Some (g x)\<rparr>) (c_connection x)\<rparr>)"
  "silent_client (\<lambda>x. x\<lparr>c_limiter := l\<rparr>)"
  by (simp_all add: silent_client_def quiet_client_def option.map_comp o_def)

lemma quiet_put_frame [simp]: "quiet_client (put_frame m)"
  by (simp add: quiet_client_def put_frame_def option.map_comp o_def)

text \<open>What the process puts on a wire: the text of one of its own events, or a ping.\<close>

definition own_event :: "OutboundMessage \<Rightarrow> bool" where
  "own_event v = (\<exists>rand now t q p. newOutboundMessage rand now t q p = Some v)"

lemma own_eventI: "newOutboundMessage r n t q p = Some v \<Longrightarrow> own_event v"
  unfolding own_event_def by blast

definition wire_frame :: "outboundMessage \<Rightarrow> bool" where
  "wire_frame m =
     (om_messageType m = TextMessage \<and> (\<exists>v. own_event v \<and> MarshalOutbound v = Some (om_payload m)) \<or>
      om_messageType m = PingMessage \<and> om_payload m = [])"

subsection \<open>The pieces of a close\<close>

text \<open>A close meets a guarantee when its pieces do, with a ghost for each point between two of them.\<close>

lemma rg_pClose:
  fixes I :: "'o \<Rightarrow> world \<Rightarrow> bool"
  assumes "\<And>w. I g w \<Longrightarrow> c_closeOnce (w_clients w c) \<Longrightarrow> G g w idle w"
    and "\<And>w. I g w \<Longrightarrow> \<not> c_closeOnce (w_clients w c) \<Longrightarrow> \<exists>x. G g w (marked x) (upd_client c mark w)"
    and "\<And>x w. I (marked x) w \<Longrightarrow> G (marked x) w (unplugged x) (upd_client c close_socket w)"
    and "\<And>x w. I (unplugged x) w \<Longrightarrow> G (unplugged x) w (called x) (run_onClose c w)"
    and "\<And>x w. I (called x) w \<Longrightarrow> G (called x) w (noted x) (log_close c r w)"
    and "\<And>x w. I (noted x) w \<Longrightarrow> G (noted x) w (uncounted x) (metric DecrementActiveConnections w)"
    and "\<And>x w. I (uncounted x) w \<Longrightarrow> G (uncounted x) w idle (metric (count_reason r) w)"
  shows "rg I G idle (\<lambda>_. True) (pClose c r) g"
proof -
  have "rg I G idle (\<lambda>_. True)
      (thenDo (modify (upd_client c close_socket)) (thenDo (modify (run_onClose c)) (thenDo (modify (log_close c r))
        (thenDo (modify (metric DecrementActiveConnections)) (modify (metric (count_reason r))))))) (marked x)" for x
    by (intro rg_modify_then [where g' = "unplugged x"] rg_modify_then [where g' = "called x"]
        rg_modify_then [where g' = "noted x"] rg_modify_then [where g' = "uncounted x"] rg_modify_last assms)
  then show ?thesis
    unfolding pClose_def first_close_def by (intro rg_atomic_then) (use assms(1,2) in fastforce)
qed

subsection \<open>The contract\<close>

locale session_actions = guarantee I G idle
  for I :: "'o \<Rightarrow> world \<Rightarrow> bool" and G :: "'o \<Rightarrow> world \<Rightarrow> 'o \<Rightarrow> world \<Rightarrow> bool" and idle :: 'o +
  fixes frame :: "outboundMessage \<Rightarrow> bool"
  assumes frame_wire: "wire_frame m \<Longrightarrow> frame m"
    and G_tick: "I idle w \<Longrightarrow> G idle w idle (tick w)"
    and G_log: "I idle w \<Longrightarrow> G idle w idle (logged level message attrs w)"
    and G_metric: "I idle w \<Longrightarrow> quiet f \<Longrightarrow> G idle w idle (metric f w)"
    and close_guards: "rg I G idle (\<lambda>_. True) (pClose c reason) idle"
    and G_join: "I idle w \<Longrightarrow> G idle w idle (upd_hub hb (hub_step (w_clients w) (OpJoin c r)) w)"
    and G_leave: "I idle w \<Longrightarrow> G idle w idle (upd_hub hb (hub_step (w_clients w) (OpLeave c r)) w)"
    and G_push: "I idle w \<Longrightarrow> frame m \<Longrightarrow> \<not> c_closed (w_clients w c) \<Longrightarrow> fst (try_send m (c_send (w_clients w c))) \<Longrightarrow>
      G idle w idle (upd_client c (\<lambda>x. x\<lparr>c_send := snd (try_send m (c_send x))\<rparr>) w)"
    and G_pop: "I idle w \<Longrightarrow> try_recv (c_send (w_clients w c)) = Some (m, ch) \<Longrightarrow>
      G idle w idle (upd_client c (\<lambda>x. x\<lparr>c_send := ch\<rparr>) w) \<and> frame m"
    and G_silent: "I idle w \<Longrightarrow> silent_client k \<Longrightarrow> G idle w idle (upd_client c k w)"
    and G_put: "I idle w \<Longrightarrow> frame m \<Longrightarrow> G idle w idle (upd_client c (put_frame m) w)"
begin

lemma guards_reading: "guards (\<lambda>_. True) (reading f)"
  by (simp add: rg_reading G_refl)

lemma guards_log: "guards (\<lambda>_. True) (modify (logged level message attrs))"
  by (rule rg_modify) (rule G_log)

lemma guards_notes:
  "guards (\<lambda>_. True) (modify (note_queue_full c))"
  "guards (\<lambda>_. True) (modify (note_unmarshalled c))"
  "guards (\<lambda>_. True) (modify (note_unavailable r c))"
  "guards (\<lambda>_. True) (modify (note_overloaded e s r c))"
  "guards (\<lambda>_. True) (modify (note_refused c e m t))"
  by (rule rg_modify, simp add: note_queue_full_def note_unmarshalled_def note_unavailable_def note_overloaded_def
      note_refused_def G_log)+

lemma guards_publish_notes:
  "guards (\<lambda>_. True) (modify (note_publish_failed subject))"
  "guards (\<lambda>_. True) (modify note_encode_failed)"
proof -
  have "G idle w idle (metric IncrementBrokerPublishErrors (logged l m a w))" if "I idle w" for w l m a
    using G_trans [OF that G_log [OF that] G_metric [OF G_inv [OF that G_log [OF that]]]] by simp
  then show "guards (\<lambda>_. True) (modify (note_publish_failed subject))" "guards (\<lambda>_. True) (modify note_encode_failed)"
    by (auto simp: note_publish_failed_def note_encode_failed_def intro: rg_modify)
qed

lemma guards_metric: "quiet f \<Longrightarrow> guards (\<lambda>_. True) (modify (metric f))"
  by (rule rg_modify) (rule G_metric)

lemma guards_draw: "guards (\<lambda>_. True) (atomic draw_rand)" "guards (\<lambda>_. True) (atomic draw_clock)"
  by (simp_all add: rg_atomic draw_rand_def draw_clock_def G_tick)

lemma guards_pNewEvent: "guards (\<lambda>e. case e of None \<Rightarrow> True | Some v \<Rightarrow> own_event v) (pNewEvent t q p)"
  unfolding pNewEvent_def
  by (intro rg_andThen [OF guards_draw(1)] rg_andThen [OF guards_draw(2)] rg_Return)
     (auto split: option.split intro: own_eventI)

lemma guards_enqueue: "frame m \<Longrightarrow> guards (\<lambda>_. True) (atomic (enqueue c m))"
proof (rule rg_atomic)
  fix w
  assume "frame m" and "I idle w"
  then show "G idle w idle (snd (enqueue c m w)) \<and> True"
    using G_push [of w m c]
    by (auto simp: enqueue_def G_refl try_send_def split: prod.split bool.split if_splits)
qed

text \<open>The forms of sequencing the programs use, for results that are not constrained.\<close>

lemma guards_then:
  "guards (\<lambda>_. True) p \<Longrightarrow> (\<And>x. guards Q (f x)) \<Longrightarrow> guards Q (andThen p f)"
  by (rule rg_andThen)

lemma guards_event:
  "(\<And>v. own_event v \<Longrightarrow> guards Q (f (Some v))) \<Longrightarrow> guards Q (f None) \<Longrightarrow> guards Q (andThen (pNewEvent t q p) f)"
  by (rule rg_andThen [OF guards_pNewEvent]) (auto split: option.splits)

lemma guards_each: "(\<And>x. guards (\<lambda>_. True) (f x)) \<Longrightarrow> guards (\<lambda>_. True) (each f xs)"
  by (rule rg_each)

lemmas guards_intros = guards_then guards_event guards_each guards_reading guards_metric close_guards rg_Return
  guards_draw guards_enqueue guards_log guards_notes guards_publish_notes

lemma guards_pSend: "frame \<lparr>om_messageType = t, om_payload = p\<rparr> \<Longrightarrow> guards (\<lambda>_. True) (pSend c t p)"
  unfolding pSend_def by (auto intro!: guards_intros split: enqueued.split)

lemma guards_pSendJSON: "own_event v \<Longrightarrow> guards (\<lambda>_. True) (pSendJSON c v)"
  unfolding pSendJSON_def
  by (auto intro!: guards_intros guards_pSend frame_wire simp: wire_frame_def split: option.split)

lemma guards_pDeliver: "own_event v \<Longrightarrow> guards (\<lambda>_. True) (pDeliver r v c)"
  unfolding pDeliver_def by (auto intro!: guards_intros guards_pSendJSON)

lemma guards_collect:
  "guards (\<lambda>_. True) (atomic (collect_recipients hb s r))"
  "guards (\<lambda>_. True) (atomic (collect_handlers b subject))"
  "guards (\<lambda>_. True) (atomic (collect_sessions hb))"
  "guards (\<lambda>_. True) (atomic (begin_publish b))"
  by (rule rg_atomic, auto simp: collect_recipients_def collect_handlers_def collect_sessions_def begin_publish_def
      G_refl G_tick split: option.split broker_impl.split)+

lemma guards_pLocalBroadcast: "guards (\<lambda>_. True) (pLocalBroadcast hb s r p)"
  unfolding pLocalBroadcast_def
  by (auto intro!: guards_intros guards_collect guards_pDeliver split: option.split)

lemma guards_pLocalSendPrivate: "guards (\<lambda>_. True) (pLocalSendPrivate hb s r p)"
  unfolding pLocalSendPrivate_def by (auto intro!: guards_intros guards_pSendJSON split: option.split)

lemma guards_pHandleBrokerEvent: "guards (\<lambda>_. True) (pHandleBrokerEvent hb e)"
  unfolding pHandleBrokerEvent_def
  by (auto intro!: guards_intros guards_pLocalBroadcast guards_pLocalSendPrivate)

lemma guards_pBrokerCallback: "guards (\<lambda>_. True) (pBrokerCallback s d hb)"
  unfolding pBrokerCallback_def by (auto intro!: guards_intros guards_pHandleBrokerEvent split: option.split)

lemma guards_pPublish: "guards (\<lambda>_. True) (pPublish b s d)"
  unfolding pPublish_def by (auto intro!: guards_intros guards_collect guards_pBrokerCallback split: sum.split)

lemma guards_pBroadcast: "guards (\<lambda>_. True) (pBroadcast hb s r p)"
  unfolding pBroadcast_def
  by (auto intro!: guards_intros guards_pLocalBroadcast guards_pPublish split: option.split prod.split)

lemma guards_pPublishPrivate: "guards (\<lambda>_. True) (pPublishPrivate b n ok l s r p)"
  unfolding pPublishPrivate_def by (auto intro!: guards_intros guards_pPublish split: option.split)

lemma guards_pSendPrivate: "guards (\<lambda>_. True) (pSendPrivate hb s r p)"
  unfolding pSendPrivate_def
  by (auto intro!: guards_intros guards_pSendJSON guards_pPublishPrivate split: option.split prod.split)

lemma guards_pCloseAll: "guards (\<lambda>_. True) (pCloseAll hb r)"
  unfolding pCloseAll_def by (intro guards_intros guards_collect)

lemma guards_pBroadcastDraining: "guards (\<lambda>_. True) (pBroadcastDraining hb)"
  unfolding pBroadcastDraining_def
  by (auto intro!: guards_intros guards_collect guards_pSendJSON split: option.split)

lemma guards_pReply: "guards (\<lambda>_. True) (pReply c t q p)"
  unfolding pReply_def by (auto intro!: guards_intros guards_pSendJSON)

lemma guards_replies:
  "guards (\<lambda>_. True) (pSendAcknowledgement c m)" "guards (\<lambda>_. True) (pSendError c q ec txt)"
  "guards (\<lambda>_. True) (pSendProtocolError c pe)"
  by (simp_all add: pSendAcknowledgement_def pSendError_def pSendProtocolError_def guards_pReply)

lemma guards_verdicts: "guards (\<lambda>_. True) (pAccept c m)" "guards (\<lambda>_. True) (pRefuse c e m ec txt)"
  unfolding pAccept_def pRefuse_def by (auto intro!: guards_intros guards_replies)

lemma guards_membership:
  "guards (\<lambda>_. True) (atomic (\<lambda>w. (f w, upd_hub hb (hub_step (w_clients w) (OpJoin c r)) w)))"
  "guards (\<lambda>_. True) (modify (\<lambda>w. upd_hub hb (hub_step (w_clients w) (OpLeave c r)) w))"
  by (simp_all add: rg_atomic rg_modify G_join G_leave del: hub_step.simps)

lemma guards_pRunCommand: "guards (\<lambda>_. True) (pRunCommand c m)"
  unfolding pRunCommand_def
  by (auto intro!: guards_intros guards_verdicts guards_membership guards_pBroadcast guards_pSendPrivate
      split: option.split prod.split simp del: hub_step.simps)

lemma guards_pHandleFrame: "guards (\<lambda>_. True) (pHandleFrame c l t p)"
  unfolding pHandleFrame_def Let_def
  by (auto intro!: guards_intros guards_replies guards_pRunCommand split: option.split prod.split)

lemma guards_pProcessFrame: "guards (\<lambda>_. True) (pProcessFrame c l t p)"
  unfolding pProcessFrame_def by (auto intro!: guards_intros guards_pHandleFrame split: prod.split)

lemma G_tick_silent: "I idle w \<Longrightarrow> silent_client k \<Longrightarrow> G idle w idle (upd_client c k (tick w))"
  by (meson G_inv G_silent G_tick G_trans)

lemma G_ticks: "I idle w \<Longrightarrow> G idle w idle (tick (tick w))"
  by (meson G_inv G_tick G_trans)

lemma G_ticks_silent: "I idle w \<Longrightarrow> silent_client k \<Longrightarrow> G idle w idle (upd_client c k (tick (tick w)))"
  by (meson G_inv G_ticks G_silent G_trans)

lemma guards_deadlines:
  "guards (\<lambda>_. True) (atomic (set_read_deadline c))" "guards (\<lambda>_. True) (atomic (set_write_deadline c))"
  "guards (\<lambda>_. True) (atomic (check_rate c))"
  by (rule rg_atomic, auto simp: set_read_deadline_def set_write_deadline_def check_rate_def draw_clock_def Let_def
      G_refl G_ticks intro!: G_ticks_silent G_tick_silent split: option.split prod.split)+

lemma guards_pReadStep: "guards (\<lambda>_. True) (pReadStep c r)"
  unfolding pReadStep_def
  by (auto intro!: guards_intros guards_deadlines guards_pProcessFrame split: read_result.split)

lemma guards_socket_write: "frame m \<Longrightarrow> guards (\<lambda>_. True) (atomic (socket_write c m))"
proof (rule rg_atomic)
  fix w
  assume "frame m" and i: "I idle w"
  then have "G idle (tick w) idle (upd_client c (put_frame m) (tick w))" 
    using G_put [OF G_inv [OF i G_tick [OF i]]] by blast
  then have "G idle w idle (upd_client c (put_frame m) (tick w))" using G_trans [OF i G_tick [OF i]] by blast
  then show "G idle w idle (snd (socket_write c m w)) \<and> True"
    using G_tick [OF i] by (simp add: socket_write_def put_frame_def [abs_def])
qed

lemma guards_take_message:
  "guards (\<lambda>taken. case taken of None \<Rightarrow> True | Some m \<Rightarrow> frame m) (atomic (take_message c))"
  by (rule rg_atomic) (auto simp: take_message_def G_refl G_pop split: option.split)

lemma guards_pWriteFrame: "frame m \<Longrightarrow> guards (\<lambda>_. True) (pWriteFrame c m)"
  unfolding pWriteFrame_def by (auto intro!: guards_intros guards_deadlines guards_socket_write)

lemma guards_pWriteSelect: "guards (\<lambda>_. True) (pWriteSelect c choice)"
proof (cases choice)
  case ChooseMessage
  show ?thesis
    unfolding pWriteSelect_def ChooseMessage write_choice.case
    by (rule rg_andThen [OF guards_take_message])
       (auto intro!: guards_intros guards_pWriteFrame split: option.splits)
qed (auto simp: pWriteSelect_def wire_frame_def intro!: guards_intros guards_pWriteFrame frame_wire)

lemma guards_pWriteStep: "guards (\<lambda>_. True) (pWriteStep c choice)"
  unfolding pWriteStep_def by (auto intro!: guards_intros guards_pWriteSelect)

lemma guards_pWriteLoop: "guards (\<lambda>_. True) (pWriteLoop c choices)"
  by (induction choices) (auto intro!: guards_intros guards_pWriteStep)

lemma guards_pReads: "guards (\<lambda>_. True) (pReads c rs)"
  by (induction rs) (auto intro!: guards_intros guards_pReadStep)

lemma guards_pReadLoop: "guards (\<lambda>_. True) (pReadLoop c rs)"
  unfolding pReadLoop_def by (auto intro!: guards_intros guards_deadlines guards_pReads)

lemma guards_pRun: "guards (\<lambda>_. True) (pRun c rs)"
  unfolding pRun_def by (auto intro!: guards_intros guards_pSendJSON guards_pReadLoop split: option.split)

end

text \<open>An instance that also covers the critical section of \<open>Register\<close>, for the sessions \<open>admits\<close> accepts.\<close>

locale registering_actions = session_actions I G idle frame
  for I :: "'o \<Rightarrow> world \<Rightarrow> bool" and G :: "'o \<Rightarrow> world \<Rightarrow> 'o \<Rightarrow> world \<Rightarrow> bool" and idle :: 'o and frame :: "outboundMessage \<Rightarrow> bool" +
  fixes admits :: "href \<Rightarrow> cref \<Rightarrow> bool"
  assumes G_register: "I idle w \<Longrightarrow> admits hb c \<Longrightarrow> G idle w idle (upd_hub hb (hub_step (w_clients w) (OpRegister c)) w)"
begin

lemma guards_pRegister: "admits hb c \<Longrightarrow> guards (\<lambda>_. True) (pRegister hb c)"
  unfolding pRegister_def
  by (rule rg_andThen [where Q = "\<lambda>_. True", OF rg_atomic])
     (auto intro!: guards_intros G_register split: option.split simp del: hub_step.simps)

end

end
