(* ===== verification/Steps.thy ===== *)
theory Steps
  imports Actions
begin

text \<open>
  The atomic steps of the process. Goroutines interleave at the granularity of these steps: a locked
  section of a hub, one channel operation, one use of the socket, one counter, one log entry, and a
  session close, whose body runs once under its \<open>sync.Once\<close>. Every operation of the code, run alone, is
  shown to be a sequence of such steps. A close, in the programs a sequence of actions, is one step here;
  \<open>Interleaving\<close> has the steps of its pieces.
\<close>

subsection \<open>The step relation\<close>

text \<open>
  \<open>pol w hb c\<close> says which sessions may be registered with which hub. The process as such is
  unrestricted (\<open>wstep\<close>, \<open>steps\<close>); a policy states how the session handler uses it.
\<close>

inductive pstep :: "(world \<Rightarrow> href \<Rightarrow> cref \<Rightarrow> bool) \<Rightarrow> world \<Rightarrow> world \<Rightarrow> bool" for pol where
  ws_tick: "pstep pol w (tick w)"
| ws_log: "pstep pol w (logged level message attrs w)"
| ws_metric: "quiet f \<Longrightarrow> pstep pol w (metric f w)"
| ws_close: "\<not> c_closeOnce (w_clients w c) \<Longrightarrow> pstep pol w (Close c reason w)"
| ws_hub: "(\<And>c. op = OpRegister c \<Longrightarrow> pol w hb c) \<Longrightarrow> pstep pol w (upd_hub hb (hub_step (w_clients w) op) w)"
| ws_push: "\<not> c_closed (w_clients w c) \<Longrightarrow> fst (try_send m (c_send (w_clients w c))) \<Longrightarrow>
    pstep pol w (upd_client c (\<lambda>x. x\<lparr>c_send := snd (try_send m (c_send x))\<rparr>) w)"
| ws_pop: "try_recv (c_send (w_clients w c)) = Some (m, ch) \<Longrightarrow>
    pstep pol w (upd_client c (\<lambda>x. x\<lparr>c_send := ch\<rparr>) w)"
| ws_client: "quiet_client f \<Longrightarrow> pstep pol w (upd_client c f w)"
| ws_new: "pstep pol w (snd (newClient connection options w))"
| ws_broker: "pstep pol w (w\<lparr>w_brokers := bs\<rparr>)"

abbreviation psteps :: "(world \<Rightarrow> href \<Rightarrow> cref \<Rightarrow> bool) \<Rightarrow> world \<Rightarrow> world \<Rightarrow> bool" where
  "psteps pol \<equiv> (pstep pol)\<^sup>*\<^sup>*"

abbreviation wstep :: "world \<Rightarrow> world \<Rightarrow> bool" where
  "wstep \<equiv> pstep (\<lambda>_ _ _. True)"

abbreviation steps :: "world \<Rightarrow> world \<Rightarrow> bool" where
  "steps \<equiv> wstep\<^sup>*\<^sup>*"

named_theorems step_intros \<open>an execution extended by one more operation\<close>

lemma steps_tick [step_intros]: "psteps pol w w' \<Longrightarrow> psteps pol w (tick w')"
  and steps_log [step_intros]: "psteps pol w w' \<Longrightarrow> psteps pol w (logged l m a w')"
  and steps_metric [step_intros]: "quiet f \<Longrightarrow> psteps pol w w' \<Longrightarrow> psteps pol w (metric f w')"
  and steps_client [step_intros]: "quiet_client g \<Longrightarrow> psteps pol w w' \<Longrightarrow> psteps pol w (upd_client c g w')"
  and steps_new [step_intros]: "psteps pol w w' \<Longrightarrow> psteps pol w (snd (newClient cn opts w'))"
  by (auto intro: rtranclp.rtrancl_into_rtrancl pstep.intros)

lemma steps_broker [step_intros]: "psteps pol w w' \<Longrightarrow> psteps pol w (w'\<lparr>w_brokers := bs\<rparr>)"
  by (auto intro: rtranclp.rtrancl_into_rtrancl ws_broker)

lemma steps_hub:
  "psteps pol w w' \<Longrightarrow> (\<And>c. op = OpRegister c \<Longrightarrow> pol w' hb c) \<Longrightarrow>
     psteps pol w (upd_hub hb (hub_step (w_clients w') op) w')"
  by (rule rtranclp.rtrancl_into_rtrancl [where r = "pstep pol" and b = w']) (auto intro: ws_hub)

lemma upd_hub_const: "upd_hub hb (\<lambda>_. f (w_hubs w hb)) w = upd_hub hb f w"
  by (simp add: upd_hub_def)

lemma steps_Close [step_intros]: "psteps pol w w' \<Longrightarrow> psteps pol w (Close c r w')"
proof (cases "c_closeOnce (w_clients w' c)")
  case True
  then show "psteps pol w w' \<Longrightarrow> ?thesis" by (simp add: Close_def)
qed (auto intro: rtranclp.rtrancl_into_rtrancl ws_close)

lemma steps_fold [step_intros]:
  assumes "\<And>x w'. psteps pol w w' \<Longrightarrow> psteps pol w (f x w')" and "psteps pol w w0"
  shows "psteps pol w (fold f xs w0)"
  using assms(2) by (induction xs arbitrary: w0) (auto intro: assms(1))

lemma quiet_client_deadline [simp]:
  "quiet_client (\<lambda>x. x\<lparr>c_connection := map_option (\<lambda>s. s\<lparr>so_readDeadline := Some (g x)\<rparr>) (c_connection x)\<rparr>)"
  "quiet_client (\<lambda>x. x\<lparr>c_connection := map_option (\<lambda>s. s\<lparr>so_writeDeadline := Some (g x)\<rparr>) (c_connection x)\<rparr>)"
  "quiet_client (\<lambda>x. x\<lparr>c_connection := map_option (\<lambda>s. s\<lparr>so_written := so_written s @ [m]\<rparr>) (c_connection x)\<rparr>)"
  "quiet_client (\<lambda>x. x\<lparr>c_limiter := l\<rparr>)"
  by (simp_all add: quiet_client_def option.map_comp o_def)

subsection \<open>Sending, by cases\<close>

lemma Send_closed: "c_closed (w_clients w c) \<Longrightarrow> Send c t p w = (False, w)"
  by (simp add: Send_def)

lemma Send_queued:
  assumes "\<not> c_closed (w_clients w c)"
    and "length (ch_buf (c_send (w_clients w c))) < ch_cap (c_send (w_clients w c))"
  shows "Send c t p w =
    (True, metric (UpdateMaxQueueDepth (of_nat (Suc (length (ch_buf (c_send (w_clients w c)))))))
       (upd_client c (\<lambda>x. x\<lparr>c_send := snd (try_send \<lparr>om_messageType = t, om_payload = p\<rparr> (c_send x))\<rparr>) w))"
proof -
  let ?ch = "c_send (w_clients w c)"
  have n: "length (ch_buf (?ch\<lparr>ch_buf := ch_buf ?ch @ [m]\<rparr>)) = Suc (length (ch_buf ?ch))" for m by simp
  show ?thesis
    using assms unfolding Send_def Let_def try_send_def upd_client_def
    by (simp only: if_False if_True prod.case bool.case fst_conv snd_conv n)
qed

lemma Send_full:
  assumes "\<not> c_closed (w_clients w c)"
    and "\<not> length (ch_buf (c_send (w_clients w c))) < ch_cap (c_send (w_clients w c))"
  shows "Send c t p w =
    (False, Close c ''outbound_queue_full''
       (logged Warn ''websocket_queue_full''
          [(''connection_id'', LStr (c_connectionID (w_clients w c))), (''user_id'', LStr (c_userID (w_clients w c))),
           (''queue_depth'', LInt (len (ch_buf (c_send (w_clients w c))))),
           (''queue_capacity'', LInt (int (ch_cap (c_send (w_clients w c)))))] w))"
  using assms unfolding Send_def Let_def try_send_def
  by (simp only: if_False if_True prod.case bool.case)

subsection \<open>Operations are sequences of steps\<close>

lemma steps_push:
  "\<not> c_closed (w_clients w' c) \<Longrightarrow> fst (try_send m (c_send (w_clients w' c))) \<Longrightarrow> psteps pol w w' \<Longrightarrow>
     psteps pol w (upd_client c (\<lambda>x. x\<lparr>c_send := snd (try_send m (c_send x))\<rparr>) w')"
  by (rule rtranclp.rtrancl_into_rtrancl [where r = "pstep pol" and b = w']) (assumption, rule ws_push)

lemma steps_pop:
  "try_recv (c_send (w_clients w' c)) = Some (m, ch) \<Longrightarrow> psteps pol w w' \<Longrightarrow>
     psteps pol w (upd_client c (\<lambda>x. x\<lparr>c_send := ch\<rparr>) w')"
  by (rule rtranclp.rtrancl_into_rtrancl [where r = "pstep pol" and b = w']) (assumption, rule ws_pop)

lemma hub_steps:
  "psteps pol w (upd_hub hb (hub_step (w_clients w) (OpJoin c r)) w)"
  "psteps pol w (upd_hub hb (hub_step (w_clients w) (OpLeave c r)) w)"
  by (rule steps_hub [OF rtranclp.rtrancl_refl], simp)+

text \<open>
  Sequences of steps meet the contract of the programs when these run alone, so each operation is a sequence
  of steps. In the middle of a close the ghost holds the pieces that are left and the state they lead to.
\<close>

fun reaches :: "(world \<Rightarrow> world \<Rightarrow> bool) \<Rightarrow> world \<Rightarrow> ((world \<Rightarrow> world) \<times> world) option \<Rightarrow> world \<Rightarrow> bool" where
  "reaches R base None w = R base w"
| "reaches R base (Some (rest, goal)) w = (R base goal \<and> rest w = goal)"

definition alone ::
    "(world \<Rightarrow> world \<Rightarrow> bool) \<Rightarrow> ((world \<Rightarrow> world) \<times> world) option \<Rightarrow> world \<Rightarrow>
     ((world \<Rightarrow> world) \<times> world) option \<Rightarrow> world \<Rightarrow> bool" where
  "alone R g w g' w' = (\<forall>base. reaches R base g w \<longrightarrow> reaches R base g' w')"

lemma alone_idle: "(\<And>base. R base w \<Longrightarrow> R base w') \<Longrightarrow> alone R None w None w'"
  by (simp add: alone_def)

lemma close_alone: "rg (\<lambda>_ _. True) (alone (psteps pol)) None (\<lambda>_. True) (pClose c r) None"
proof -
  define last where "last = metric (count_reason r)"
  define count where "count = last \<circ> metric DecrementActiveConnections"
  define log where "log = count \<circ> log_close c r"
  define call where "call = log \<circ> run_onClose c"
  define socket where "socket = call \<circ> upd_client c close_socket"
  note pieces = socket_def call_def log_def count_def last_def
  show ?thesis
  proof (rule rg_pClose [where marked = "\<lambda>goal. Some (socket, goal)" and unplugged = "\<lambda>goal. Some (call, goal)" and
        called = "\<lambda>goal. Some (log, goal)" and noted = "\<lambda>goal. Some (count, goal)" and uncounted = "\<lambda>goal. Some (last, goal)"])
    fix w :: world
    assume "\<not> c_closeOnce (w_clients w c)"
    then have "alone (psteps pol) None w (Some (socket, Close c r w)) (upd_client c mark w)"
      using steps_Close [of pol _ w c r] by (simp add: alone_def Close_pieces pieces)
    then show "\<exists>goal. alone (psteps pol) None w (Some (socket, goal)) (upd_client c mark w)" by blast
  qed (simp_all add: alone_def pieces)
qed

interpretation step_actions: session_actions "\<lambda>_ _. True" "alone (psteps pol)" None "\<lambda>_. True" for pol
proof unfold_locales
  show "alone (psteps pol) None w None (upd_client c (\<lambda>x. x\<lparr>c_send := ch\<rparr>) w) \<and> True"
    if "try_recv (c_send (w_clients w c)) = Some (m, ch)" for w c m ch
    using steps_pop [OF that] by (simp add: alone_def)
  show "alone (psteps pol) None w None (upd_client c k w)" if "silent_client k" for w c k
    using that by (auto simp: silent_client_def intro!: alone_idle steps_client)
  show "alone (psteps pol) None w None (upd_client c (\<lambda>x. x\<lparr>c_send := snd (try_send m (c_send x))\<rparr>) w)"
    if "\<not> c_closed (w_clients w c)" "fst (try_send m (c_send (w_clients w c)))" for w m c
    by (rule alone_idle) (rule steps_push [OF that])
  show "alone (psteps pol) None s None u" if "alone (psteps pol) None s None t" "alone (psteps pol) None t None u" for s t u
    using that by (auto simp: alone_def)
qed (auto intro!: alone_idle close_alone step_intros intro: rtranclp_trans [OF _ hub_steps(1)] rtranclp_trans [OF _ hub_steps(2)]
       simp del: hub_step.simps)

interpretation process_actions: registering_actions "\<lambda>_ _. True" "alone (psteps (\<lambda>_ _ _. True))" None "\<lambda>_. True" "\<lambda>_ _. True"
  by unfold_locales (auto intro!: alone_idle intro: rtranclp_trans steps_hub simp del: hub_step.simps)

lemma steps_exec:
  assumes "exec p w' = (x, w1)" and "psteps pol w w'" and "step_actions.guards pol (\<lambda>_. True) p"
  shows "psteps pol w w1"
  using rg_exec [OF assms(3), of "reaches (psteps pol) w" w'] assms(1,2) by (simp add: alone_def)

lemma steps_new_event: "new_event t r p w' = (e, w1) \<Longrightarrow> psteps pol w w' \<Longrightarrow> psteps pol w w1"
  by (auto simp: new_event_def draw_rand_def draw_clock_def intro: step_intros)

lemma steps_Send: "Send c t p w' = (ok, w1) \<Longrightarrow> psteps pol w w' \<Longrightarrow> psteps pol w w1"
  by (rule steps_exec [OF _ _ step_actions.guards_pSend]) (simp_all add: exec_simps)

lemma steps_SendJSON: "SendJSON c v w' = (ok, w1) \<Longrightarrow> psteps pol w w' \<Longrightarrow> psteps pol w w1"
  by (auto simp: SendJSON_def intro: step_intros steps_Send split: option.splits)

lemma steps_Publish: "Publish b s d w' = (e, w1) \<Longrightarrow> psteps pol w w' \<Longrightarrow> psteps pol w w1"
  by (rule steps_exec [OF _ _ step_actions.guards_pPublish]) (simp_all add: exec_simps)

lemma steps_SendPrivate: "SendPrivate hb s r p w' = (e, w1) \<Longrightarrow> psteps pol w w' \<Longrightarrow> psteps pol w w1"
  by (rule steps_exec [OF _ _ step_actions.guards_pSendPrivate]) (simp_all add: exec_simps)

lemma steps_read_step: "read_step c r w' = (x, w1) \<Longrightarrow> psteps pol w w' \<Longrightarrow> psteps pol w w1"
  by (rule steps_exec [OF _ _ step_actions.guards_pReadStep]) (simp_all add: exec_simps)

lemma steps_write_step: "write_step c ch w' = (x, w1) \<Longrightarrow> psteps pol w w' \<Longrightarrow> psteps pol w w1"
  by (rule steps_exec [OF _ _ step_actions.guards_pWriteStep]) (simp_all add: exec_simps)

lemma steps_set_deadline: "set_read_deadline c w' = (ok, w1) \<Longrightarrow> psteps pol w w' \<Longrightarrow> psteps pol w w1"
  by (rule steps_exec [OF _ _ step_actions.guards_deadlines(1)]) (simp_all add: exec_simps)

lemma steps_routines [step_intros]:
  assumes "psteps pol w w'"
  shows "psteps pol w (localBroadcast hb s r p w')" and "psteps pol w (HandleBrokerEvent hb e w')"
    and "psteps pol w (Broadcast hb s r p w')" and "psteps pol w (CloseAll hb reason w')"
    and "psteps pol w (BroadcastDraining hb w')"
  using steps_exec [OF exec_pLocalBroadcast assms step_actions.guards_pLocalBroadcast]
    steps_exec [OF exec_pHandleBrokerEvent assms step_actions.guards_pHandleBrokerEvent]
    steps_exec [OF exec_pBroadcast assms step_actions.guards_pBroadcast]
    steps_exec [OF exec_pCloseAll assms step_actions.guards_pCloseAll]
    steps_exec [OF exec_pBroadcastDraining assms step_actions.guards_pBroadcastDraining]
  by blast+

lemma steps_Register [step_intros]:
  assumes "pol w' hb c" and s: "psteps pol w w'"
  shows "psteps pol w (Register hb c w')"
proof -
  obtain r h where rl: "register_locked (w_clients w') c (w_hubs w' hb) = (r, h)" by fastforce
  then have "upd_hub hb (\<lambda>_. h) w' = upd_hub hb (hub_step (w_clients w') (OpRegister c)) w'"
    by (simp add: upd_hub_def)
  then have "psteps pol w (upd_hub hb (\<lambda>_. h) w')" using steps_hub [OF s, of "OpRegister c" hb] assms(1) by simp
  then show ?thesis using rl by (auto simp: Register_def Let_def intro: step_intros split: option.splits)
qed

lemma steps_Join:
  assumes "Join (w_clients w') c r (w_hubs w' hb) = (e, h)" and "psteps pol w w'"
  shows "psteps pol w (upd_hub hb (\<lambda>_. h) w')"
proof -
  have "upd_hub hb (\<lambda>_. h) w' = upd_hub hb (hub_step (w_clients w') (OpJoin c r)) w'"
    using assms(1) by (simp add: upd_hub_def)
  then show ?thesis using steps_hub [OF assms(2), of "OpJoin c r" hb] by simp
qed

lemma steps_Leave: "psteps pol w w' \<Longrightarrow> psteps pol w (upd_hub hb (Leave (w_clients w') c r) w')"
proof -
  assume s: "psteps pol w w'"
  have "hub_step (w_clients w') (OpLeave c r) = Leave (w_clients w') c r" by (rule ext) simp
  then show ?thesis using steps_hub [OF s, of "OpLeave c r" hb] by simp
qed

lemma steps_session_loop: "session_loop c evs w' = (x, w1) \<Longrightarrow> psteps pol w w' \<Longrightarrow> psteps pol w w1"
proof (induction c evs w' arbitrary: x w1 rule: session_loop.induct)
  case (2 c r evs w')
  then show ?case by (auto split: prod.splits if_splits dest: steps_read_step)
next
  case (3 c ch evs w')
  then show ?case by (metis session_loop.simps(3) prod.collapse steps_write_step)
qed auto

lemma steps_readLoop: "readLoop c evs w' = (x, w1) \<Longrightarrow> psteps pol w w' \<Longrightarrow> psteps pol w w1"
  by (auto simp: readLoop_def split: if_splits prod.splits bool.splits
      intro: steps_session_loop dest: steps_set_deadline)

lemma steps_Run:
  assumes "Run c evs w' = (x, w1)" and w: "psteps pol w w'"
  shows "psteps pol w w1"
proof -
  obtain ev wa where a: "readyEvent c w' = (ev, wa)" by fastforce
  have wa: "psteps pol w wa" using steps_new_event [OF _ w] a by (simp add: readyEvent_def)
  show ?thesis
  proof (cases ev)
    case (Some event)
    obtain ok wb where b: "SendJSON c event wa = (ok, wb)" by fastforce
    note wb = steps_SendJSON [OF b wa]
    obtain rs wc where r: "readLoop c evs wb = (rs, wc)" by fastforce
    note wc = steps_readLoop [OF r wb]
    show ?thesis using assms(1) a b r Some wb wc
      by (cases ok) (auto simp: Run_def intro: steps_Close split: option.splits)
  qed (use assms a wa in \<open>auto simp: Run_def intro: steps_Close\<close>)
qed

end
