(* ===== verification/Invariants.thy ===== *)
theory Invariants
  imports Steps
begin

text \<open>
  What every step keeps: the registry invariant of every hub, the bound of every outbound queue, the
  agreement of the close flags with the socket, the connection gauge and the inbound accounting; and
  what no step undoes: a session that is closed stays closed and is never queued to again.
\<close>

subsection \<open>The invariants\<close>

definition hubs_ok :: "world \<Rightarrow> bool" where
  "hubs_ok w = (\<forall>hb. hub_ok (w_hubs w hb))"

definition queue_ok :: "Client \<Rightarrow> bool" where
  "queue_ok x = (length (ch_buf (c_send x)) \<le> ch_cap (c_send x))"

text \<open>
  The two flags agree, and a closed session has its socket closed where \<open>settled\<close> says that the close has
  got that far; likewise \<open>gauge_at n\<close> says that the gauge is ahead of the open sessions by \<open>n\<close>.
\<close>

definition flags_at :: "bool \<Rightarrow> Client \<Rightarrow> bool" where
  "flags_at settled x = (c_closed x = c_closeOnce x \<and>
     (c_closed x \<longrightarrow> settled \<longrightarrow> (case c_connection x of None \<Rightarrow> True | Some s \<Rightarrow> so_closed s)))"

definition flags_ok :: "Client \<Rightarrow> bool" where
  "flags_ok x = (c_closed x = c_closeOnce x \<and>
     (c_closed x \<longrightarrow> (case c_connection x of None \<Rightarrow> True | Some s \<Rightarrow> so_closed s)))"

lemma flags_ok_at: "flags_ok x = flags_at True x"
  by (simp add: flags_ok_def flags_at_def)

definition open_sessions :: "world \<Rightarrow> cref set" where
  "open_sessions w = {c. \<not> c_closeOnce (w_clients w c)}"

definition gauge_at :: "int64 \<Rightarrow> world \<Rightarrow> bool" where
  "gauge_at n w =
     (finite (open_sessions w) \<and> (\<forall>c. w_next w \<le> c \<longrightarrow> c \<notin> open_sessions w) \<and>
      ActiveConnections (w_metrics w) = of_nat (card (open_sessions w)) + n)"

definition gauge_ok :: "world \<Rightarrow> bool" where
  "gauge_ok w =
     (finite (open_sessions w) \<and> (\<forall>c. w_next w \<le> c \<longrightarrow> c \<notin> open_sessions w) \<and>
      ActiveConnections (w_metrics w) = of_nat (card (open_sessions w)))"

lemma gauge_ok_at: "gauge_ok w = gauge_at 0 w"
  by (simp add: gauge_ok_def gauge_at_def)

definition world_ok :: "world \<Rightarrow> bool" where
  "world_ok w =
     (hubs_ok w \<and> (\<forall>c. queue_ok (w_clients w c) \<and> flags_ok (w_clients w c)) \<and> gauge_ok w \<and>
      inbound_balanced (w_metrics w))"

subsection \<open>Field laws of the primitive updates\<close>

lemma w_simps [simp]:
  "w_clients (tick w) = w_clients w" "w_hubs (tick w) = w_hubs w" "w_metrics (tick w) = w_metrics w"
  "w_next (tick w) = w_next w" "w_env (tick w) = w_env w" "w_brokers (tick w) = w_brokers w"
  "w_clients (logged l m a w) = w_clients w" "w_hubs (logged l m a w) = w_hubs w"
  "w_metrics (logged l m a w) = w_metrics w" "w_next (logged l m a w) = w_next w"
  "w_env (logged l m a w) = w_env w" "w_brokers (logged l m a w) = w_brokers w"
  "w_clients (metric f w) = w_clients w" "w_hubs (metric f w) = w_hubs w"
  "w_metrics (metric f w) = f (w_metrics w)" "w_next (metric f w) = w_next w" "w_env (metric f w) = w_env w"
  "w_brokers (metric f w) = w_brokers w"
  "w_clients (upd_hub hb g w) = w_clients w" "w_hubs (upd_hub hb g w) = (w_hubs w)(hb := g (w_hubs w hb))"
  "w_metrics (upd_hub hb g w) = w_metrics w" "w_next (upd_hub hb g w) = w_next w"
  "w_env (upd_hub hb g w) = w_env w" "w_brokers (upd_hub hb g w) = w_brokers w"
  "w_clients (upd_client c k w) = (w_clients w)(c := k (w_clients w c))"
  "w_hubs (upd_client c k w) = w_hubs w" "w_metrics (upd_client c k w) = w_metrics w"
  "w_next (upd_client c k w) = w_next w" "w_env (upd_client c k w) = w_env w"
  "w_brokers (upd_client c k w) = w_brokers w"
  "w_tick (tick w) = Suc (w_tick w)" "w_tick (logged l m a w) = w_tick w" "w_tick (metric f w) = w_tick w"
  "w_tick (upd_hub hb g w) = w_tick w" "w_tick (upd_client c k w) = w_tick w"
  by (simp_all add: tick_def logged_def metric_def upd_hub_def upd_client_def)

lemma onClose_simps [simp]:
  "w_clients (run_onClose c w) = w_clients w" "w_metrics (run_onClose c w) = w_metrics w"
  "w_next (run_onClose c w) = w_next w" "w_env (run_onClose c w) = w_env w"
  "w_brokers (run_onClose c w) = w_brokers w" "w_tick (run_onClose c w) = w_tick w"
  by (simp_all add: run_onClose_def split: option.splits)

lemma Close_clients:
  "w_clients (Close c r w) =
     (if c_closeOnce (w_clients w c) then w_clients w else (w_clients w)(c := mark_closed (w_clients w c)))"
  by (simp add: Close_def Let_def)

lemma Close_metrics:
  "w_metrics (Close c r w) =
     (if c_closeOnce (w_clients w c) then w_metrics w else close_counters r (w_metrics w))"
  by (simp add: Close_def Let_def)

lemma Close_hubs:
  "w_hubs (Close c r w) =
     (if c_closeOnce (w_clients w c) then w_hubs w
      else (case c_onClose (w_clients w c) of
              None \<Rightarrow> w_hubs w
            | Some hb \<Rightarrow> (w_hubs w)(hb := snd (Unregister ((w_clients w)(c := mark_closed (w_clients w c))) c (w_hubs w hb)))))"
  by (auto simp: Close_def Let_def run_onClose_def mark_closed_def split: option.splits)

lemma Close_frame [simp, frame_laws]:
  "w_next (Close c r w) = w_next w" "w_env (Close c r w) = w_env w" "w_brokers (Close c r w) = w_brokers w"
  "w_tick (Close c r w) = w_tick w"
  by (simp_all add: Close_def Let_def)

lemma close_counters_simps [simp]:
  "ActiveConnections (close_counters r m) = ActiveConnections m - 1"
  "inbound_balanced (close_counters r m) = inbound_balanced m"
  by (simp_all add: close_counters_def Let_def metric_defs inbound_balanced_def inbound_total_def)

lemma newClient_simps:
  "fst (newClient cn o1 w) = w_next w"
  "w_hubs (snd (newClient cn o1 w)) = w_hubs w"
  "w_next (snd (newClient cn o1 w)) = Suc (w_next w)"
  "w_env (snd (newClient cn o1 w)) = w_env w"
  "w_brokers (snd (newClient cn o1 w)) = w_brokers w"
  "w_metrics (snd (newClient cn o1 w)) = IncrementActiveConnections (w_metrics w)"
  "w_clients (snd (newClient cn o1 w)) = (w_clients w)(w_next w := client_of cn o1)"
  by (simp_all add: newClient_def metric_def)

lemma client_of_ok [simp]: "queue_ok (client_of cn o1)" "flags_at b (client_of cn o1)"
  "\<not> c_closeOnce (client_of cn o1)"
  by (simp_all add: client_of_def queue_ok_def flags_at_def make_chan_def)

lemma balanced_gauge [simp]: "inbound_balanced (IncrementActiveConnections m) = inbound_balanced m"
  by (simp add: IncrementActiveConnections_def inbound_balanced_def inbound_total_def)

lemma quiet_clientD:
  assumes "quiet_client f"
  shows "c_send (f x) = c_send x" and "c_closed (f x) = c_closed x" and "c_closeOnce (f x) = c_closeOnce x"
    and "c_connectionID (f x) = c_connectionID x" and "c_userID (f x) = c_userID x"
    and "c_onClose (f x) = c_onClose x" and "c_hub (f x) = c_hub x"
    and "map_option so_closed (c_connection (f x)) = map_option so_closed (c_connection x)"
    and "(c_connection (f x) = None) = (c_connection x = None)"
proof -
  from assms have f: "f x = x\<lparr>c_connection := c_connection (f x), c_limiter := c_limiter (f x)\<rparr>"
    and s: "map_option so_closed (c_connection (f x)) = map_option so_closed (c_connection x)"
    unfolding quiet_client_def by blast+
  show "c_send (f x) = c_send x" and "c_closed (f x) = c_closed x" and "c_closeOnce (f x) = c_closeOnce x"
    and "c_connectionID (f x) = c_connectionID x" and "c_userID (f x) = c_userID x"
    and "c_onClose (f x) = c_onClose x" and "c_hub (f x) = c_hub x"
    by (subst f, simp)+
  show "map_option so_closed (c_connection (f x)) = map_option so_closed (c_connection x)" by (rule s)
  then show "(c_connection (f x) = None) = (c_connection x = None)"
    by (metis option.map_disc_iff)
qed

subsection \<open>Preservation\<close>

lemma wstep_hubs_ok:
  assumes "pstep pol w w'" and "hubs_ok w"
  shows "hubs_ok w'"
  using assms
proof cases
  case (ws_close c r)
  with assms(2) show ?thesis by (auto simp: hubs_ok_def Close_hubs hub_ok_Unregister split: option.splits)
next
  case (ws_hub op hb)
  with assms(2) show ?thesis by (cases op) (auto simp: hubs_ok_def hub_ok_ops)
next
  case (ws_new cn o1)
  with assms(2) show ?thesis by (simp add: hubs_ok_def newClient_simps)
qed (auto simp: hubs_ok_def)

lemma flags_at_mark_closed: "flags_at b (mark_closed x)"
  by (simp add: flags_at_def mark_closed_def split: option.splits)

lemma queue_ok_mark_closed [simp]: "queue_ok (mark_closed x) = queue_ok x"
  by (simp add: queue_ok_def mark_closed_def)

lemma flags_at_quiet: "quiet_client f \<Longrightarrow> flags_at b x \<Longrightarrow> flags_at b (f x)"
  using quiet_clientD [of f x] by (auto simp: flags_at_def split: option.splits)

lemma wstep_clients_at:
  assumes "pstep pol w w'" and "\<forall>c. queue_ok (w_clients w c) \<and> flags_at (settled c) (w_clients w c)"
  shows "\<forall>c. queue_ok (w_clients w' c) \<and> flags_at (settled c) (w_clients w' c)"
  using assms
proof cases
  case (ws_close c r)
  with assms(2) show ?thesis by (auto simp: Close_clients flags_at_mark_closed)
next
  case (ws_push c m)
  with assms(2) show ?thesis by (auto simp: queue_ok_def flags_at_def try_send_def)
next
  case (ws_pop c m ch)
  with assms(2) show ?thesis
    by (auto simp: queue_ok_def flags_at_def try_recv_def split: list.splits)
       (metis Suc_leD list.size(4) add.right_neutral add_Suc_right)
next
  case (ws_client f c)
  with assms(2) quiet_clientD(1) [of f] show ?thesis by (auto simp: queue_ok_def flags_at_quiet)
next
  case (ws_new cn o1)
  with assms(2) show ?thesis by (simp add: newClient_simps)
qed auto

lemma open_sessions_frame:
  "\<forall>c. c_closeOnce (w_clients w' c) = c_closeOnce (w_clients w c) \<Longrightarrow> open_sessions w' = open_sessions w"
  by (simp add: open_sessions_def)

lemma gauge_at_frame:
  "gauge_at n w \<Longrightarrow> \<forall>c. c_closeOnce (w_clients w' c) = c_closeOnce (w_clients w c) \<Longrightarrow> w_next w' = w_next w \<Longrightarrow>
     ActiveConnections (w_metrics w') = ActiveConnections (w_metrics w) \<Longrightarrow> gauge_at n w'"
  using open_sessions_frame [of w' w] by (simp add: gauge_at_def)

lemma gauge_at_Close:
  assumes "gauge_at n w" and "\<not> c_closeOnce (w_clients w c)"
  shows "gauge_at n (Close c r w)"
proof -
  have o: "open_sessions (Close c r w) = open_sessions w - {c}"
    using assms(2) by (auto simp: open_sessions_def Close_clients mark_closed_def)
  have c: "c \<in> open_sessions w" using assms(2) by (simp add: open_sessions_def)
  have "finite (open_sessions w)" using assms(1) by (simp add: gauge_at_def)
  from card_Suc_Diff1 [OF this c]
  have "of_nat (card (open_sessions w)) = (of_nat (card (open_sessions w - {c})) + 1 :: int64)"
    by (metis of_nat_Suc add.commute)
  with assms o c show ?thesis by (auto simp: gauge_at_def Close_metrics)
qed

lemma gauge_at_new:
  assumes "gauge_at n w"
  shows "gauge_at n (snd (newClient cn o1 w))"
proof -
  have o: "open_sessions (snd (newClient cn o1 w)) = insert (w_next w) (open_sessions w)"
    by (auto simp: open_sessions_def newClient_simps)
  have "w_next w \<notin> open_sessions w" using assms by (simp add: gauge_at_def)
  with assms show ?thesis
    by (auto simp: gauge_at_def o newClient_simps IncrementActiveConnections_def add.commute)
qed

lemma wstep_gauge_at:
  assumes "pstep pol w w'" and "gauge_at n w"
  shows "gauge_at n w'"
  using assms(1)
proof cases
  case (ws_close c r)
  then show ?thesis using gauge_at_Close [OF assms(2)] by simp
next
  case (ws_new cn o1)
  then show ?thesis using gauge_at_new [OF assms(2)] by simp
next
  case (ws_metric f)
  then show ?thesis by (intro gauge_at_frame [OF assms(2)]) (simp_all add: quiet_def)
next
  case (ws_client f c)
  then show ?thesis by (intro gauge_at_frame [OF assms(2)]) (simp_all add: quiet_clientD(3))
qed (auto intro!: gauge_at_frame [OF assms(2)] split: if_splits)

lemma wstep_balanced:
  assumes "pstep pol w w'" and "inbound_balanced (w_metrics w)"
  shows "inbound_balanced (w_metrics w')"
  using assms
proof cases
  case (ws_new cn o1)
  with assms(2) show ?thesis by (simp add: newClient_simps)
qed (use assms(2) in \<open>auto simp: quiet_def Close_metrics\<close>)

interpretation process_inv: transition_inv "pstep pol" world_ok for pol
proof
  fix s t
  assume "pstep pol s t" and "world_ok s"
  then show "world_ok t"
    unfolding world_ok_def flags_ok_at gauge_ok_at
    using wstep_hubs_ok wstep_clients_at [where settled = "\<lambda>_. True"] wstep_gauge_at wstep_balanced by blast
qed

subsection \<open>What no step undoes\<close>

text \<open>
  Identities never change, a consumed \<open>closeOnce\<close> stays consumed, and the queue of a closed session
  only shrinks from its front.
\<close>

definition client_grows :: "Client \<Rightarrow> Client \<Rightarrow> bool" where
  "client_grows x y =
     (c_connectionID y = c_connectionID x \<and> c_userID y = c_userID x \<and> c_onClose y = c_onClose x \<and>
      (c_connection y = None) = (c_connection x = None) \<and> (c_closed x \<longrightarrow> c_closed y) \<and> (c_closeOnce x \<longrightarrow> c_closeOnce y) \<and>
      (c_closed x \<longrightarrow> (\<exists>p. ch_buf (c_send x) = p @ ch_buf (c_send y))))"

definition grows :: "world \<Rightarrow> world \<Rightarrow> bool" where
  "grows w0 w = (w_next w0 \<le> w_next w \<and> w_env w = w_env w0 \<and>
     (\<forall>c. c < w_next w0 \<longrightarrow> client_grows (w_clients w0 c) (w_clients w c)))"

lemma client_grows_refl [simp]: "client_grows x x"
  by (simp add: client_grows_def)

lemma client_grows_trans: "client_grows x y \<Longrightarrow> client_grows y z \<Longrightarrow> client_grows x z"
  unfolding client_grows_def by (metis append.assoc)

lemma grows_refl [simp]: "grows w w"
  by (simp add: grows_def)

lemma grows_trans: "grows a b \<Longrightarrow> grows b c \<Longrightarrow> grows a c"
  unfolding grows_def using client_grows_trans by (metis order_less_le_trans order_trans)

lemma grows_upd:
  "w_next w \<le> w_next w' \<Longrightarrow> w_env w' = w_env w \<Longrightarrow> w_clients w' = (w_clients w)(c := x) \<Longrightarrow>
     (c < w_next w \<Longrightarrow> client_grows (w_clients w c) x) \<Longrightarrow> grows w w'"
  by (auto simp: grows_def)

lemma grows_same: "w_next w' = w_next w \<Longrightarrow> w_env w' = w_env w \<Longrightarrow> w_clients w' = w_clients w \<Longrightarrow> grows w w'"
  by (simp add: grows_def)

lemma try_recv_suffix: "try_recv ch = Some (m, ch') \<Longrightarrow> ch_buf ch = m # ch_buf ch'"
  by (auto simp: try_recv_def split: list.splits)

lemma wstep_grows:
  assumes "pstep pol w w'"
  shows "grows w w'"
  using assms
proof cases
  case (ws_close c r)
  then show ?thesis
    by (intro grows_upd [where c = c and x = "mark_closed (w_clients w c)"])
      (auto simp: Close_clients client_grows_def mark_closed_def)
next
  case (ws_push c m)
  then show ?thesis
    by (intro grows_upd [where c = c and x = "(\<lambda>x. x\<lparr>c_send := snd (try_send m (c_send x))\<rparr>) (w_clients w c)"])
      (auto simp: client_grows_def)
next
  case (ws_pop c m ch)
  then show ?thesis
    by (intro grows_upd [where c = c and x = "(w_clients w c)\<lparr>c_send := ch\<rparr>"])
      (auto simp: client_grows_def dest!: try_recv_suffix)
next
  case (ws_client f c)
  then show ?thesis
    by (intro grows_upd [where c = c and x = "f (w_clients w c)"]) (auto simp: client_grows_def quiet_clientD)
next
  case (ws_new cn o1)
  then show ?thesis
    by (intro grows_upd [where c = "w_next w" and x = "client_of cn o1"]) (simp_all add: newClient_simps)
qed (auto intro!: grows_same)

interpretation process_grows: transition_inv "pstep pol" "grows w0" for pol w0
  by unfold_locales (blast intro: grows_trans wstep_grows)

lemma steps_grows: "psteps pol w w' \<Longrightarrow> grows w w'"
  using process_grows.steps_inv [of pol w w' w] by simp

subsection \<open>Histories of operations\<close>

text \<open>The entry points through which the rest of the process drives sessions and hubs.\<close>

datatype operation =
    DoNewClient "socket option" ClientOptions
  | DoRegister href cref
  | DoUnregister href cref
  | DoClose cref bytes
  | DoSend cref int bytes
  | DoSendJSON cref OutboundMessage
  | DoBroadcast href bytes bytes bytes
  | DoSendPrivate href bytes bytes bytes
  | DoBrokerEvent href BrokerEvent
  | DoCloseAll href bytes
  | DoDraining href
  | DoRead cref read_result
  | DoWrite cref write_choice
  | DoRun cref "session_event list"

fun perform :: "operation \<Rightarrow> world \<Rightarrow> world" where
  "perform (DoNewClient cn o1) w = snd (newClient cn o1 w)"
| "perform (DoRegister hb c) w = Register hb c w"
| "perform (DoUnregister hb c) w = upd_hub hb (\<lambda>h. snd (Unregister (w_clients w) c h)) w"
| "perform (DoClose c r) w = Close c r w"
| "perform (DoSend c t p) w = snd (Send c t p w)"
| "perform (DoSendJSON c v) w = snd (SendJSON c v w)"
| "perform (DoBroadcast hb s r p) w = Broadcast hb s r p w"
| "perform (DoSendPrivate hb s r p) w = snd (SendPrivate hb s r p w)"
| "perform (DoBrokerEvent hb e) w = HandleBrokerEvent hb e w"
| "perform (DoCloseAll hb r) w = CloseAll hb r w"
| "perform (DoDraining hb) w = BroadcastDraining hb w"
| "perform (DoRead c r) w = snd (read_step c r w)"
| "perform (DoWrite c ch) w = snd (write_step c ch w)"
| "perform (DoRun c evs) w = snd (Run c evs w)"

lemma steps_perform: "steps w (perform x w)"
proof (cases x)
  case (DoUnregister hb c)
  have "hub_step (w_clients w) (OpUnregister c) = (\<lambda>h. snd (Unregister (w_clients w) c h))" by (rule ext) simp
  then show ?thesis using steps_hub [of _ w w "OpUnregister c" hb] DoUnregister by simp
qed (auto intro: step_intros steps_Send [OF prod.collapse [symmetric]] steps_SendJSON [OF prod.collapse [symmetric]]
    steps_SendPrivate [OF prod.collapse [symmetric]] steps_read_step [OF prod.collapse [symmetric]]
    steps_write_step [OF prod.collapse [symmetric]] steps_Run [OF prod.collapse [symmetric]])

lemma steps_history: "steps w (fold perform xs w)"
proof (induction xs arbitrary: w)
  case (Cons x xs)
  show ?case using rtranclp_trans [OF steps_perform Cons.IH] by simp
qed simp

text \<open>A process before its first session: no session is open and every hub is as constructed.\<close>

definition no_client :: Client where
  "no_client = \<lparr>c_connection = None, c_connectionID = [], c_userID = [], c_readTimeout = 0, c_writeTimeout = 0,
     c_onClose = None, c_hub = None, c_pingInterval = 0, c_maxMessageSize = 0, c_limiter = None,
     c_send = make_chan 0, c_closed = True, c_closeOnce = True\<rparr>"

definition initial :: "env \<Rightarrow> (href \<Rightarrow> Hub) \<Rightarrow> (bref \<Rightarrow> broker_impl) \<Rightarrow> world" where
  "initial e hubs brokers =
     \<lparr>w_clients = (\<lambda>c. no_client), w_next = 0, w_hubs = hubs, w_brokers = brokers,
      w_metrics = DefaultMetrics, w_log = [], w_env = e, w_tick = 0\<rparr>"

lemma world_ok_initial: "(\<And>hb. hub_ok (hubs hb)) \<Longrightarrow> world_ok (initial e hubs brokers)"
  by (simp add: world_ok_def initial_def hubs_ok_def queue_ok_def flags_ok_def no_client_def gauge_ok_def
      open_sessions_def DefaultMetrics_def inbound_balanced_def inbound_total_def make_chan_def)

lemma world_ok_history: "world_ok w \<Longrightarrow> world_ok (fold perform xs w)"
  by (rule process_inv.steps_inv [OF steps_history])

end
