(* ===== verification/Delivery.thy ===== *)
theory Delivery
  imports Invariants
begin

text \<open>
  What the operations do to the sessions: closing, queueing and its backpressure, broadcasts, private
  messages and the fan-out over a broker.
\<close>

subsection \<open>Invariants along every execution\<close>

text \<open>
  between any two steps of every interleaving of the process's steps (a session close
  being one of them), started with freshly constructed hubs, every registry invariant holds, no outbound queue exceeds its capacity, the close flags
  and the socket agree, the connection gauge is the number of open sessions, and the counters of inbound
  types, outcomes and latencies count the same frames.
\<close>

theorem process_invariant:
  assumes "steps (initial e (\<lambda>hb. NewHub (authorizer hb) (limit hb)) brokers) w"
  shows "world_ok w"
  using process_inv.steps_inv [OF assms world_ok_initial] hub_ok_new by blast

definition sample_env :: env where
  "sample_env = \<lparr>e_rand = (\<lambda>n. Some ''0123456789abcdef''), e_clock = (\<lambda>n. (int n, sample_time)),
     e_order = (\<lambda>n ks. ks), e_subs = (\<lambda>n ks. ks), e_js = (\<lambda>n. None), e_sock = (\<lambda>n. False),
     e_randErr = [], e_marshalErr = []\<rparr>"

definition sample_options :: "bytes \<Rightarrow> bytes \<Rightarrow> int \<Rightarrow> ClientOptions" where
  "sample_options connectionID userID capacity =
     \<lparr>co_ConnectionID = connectionID, co_UserID = userID, co_QueueCapacity = capacity, co_ReadTimeout = 0,
      co_WriteTimeout = 0, co_OnClose = Some 0, co_Hub = Some 0, co_PingInterval = 0, co_MaxMessageSize = 0,
      co_RateLimiter = None\<rparr>"

definition sample_start :: world where
  "sample_start = initial sample_env (\<lambda>hb. NewHub AllowAllAuthorizer 5) (\<lambda>b. Mem NewMemoryBroker)"

definition sample_history :: "operation list" where
  "sample_history =
     [DoNewClient (Some new_socket) (sample_options ''conn_a'' ''alice'' 1), DoRegister 0 0,
      DoNewClient (Some new_socket) (sample_options ''conn_b'' ''bob'' 4), DoRegister 0 1]"

definition sample_world :: world where
  "sample_world = fold perform sample_history sample_start"

theorem process_invariant_witness: "world_ok sample_world"
proof -
  have "steps (initial sample_env (\<lambda>hb. NewHub ((\<lambda>_. AllowAllAuthorizer) hb) ((\<lambda>_. 5) hb))
     (\<lambda>b. Mem NewMemoryBroker)) sample_world"
    unfolding sample_world_def sample_start_def by (rule steps_history)
  then show ?thesis by (rule process_invariant)
qed

lemma world_ok_sample: "world_ok sample_world"
  unfolding sample_world_def sample_start_def
  by (intro world_ok_history world_ok_initial hub_ok_new)

subsection \<open>Closing\<close>

lemma Unregister_ids:
  assumes "\<And>x. ConnectionID (cls' x) = ConnectionID (cls x)" and "\<And>x. UserID (cls' x) = UserID (cls x)"
  shows "Unregister cls' c h = Unregister cls c h"
  unfolding Unregister_def Let_def assms ..

lemma Close_hubs':
  "w_hubs (Close c r w) =
     (if c_closeOnce (w_clients w c) then w_hubs w
      else (case c_onClose (w_clients w c) of
              None \<Rightarrow> w_hubs w
            | Some hb \<Rightarrow> (w_hubs w)(hb := snd (Unregister (w_clients w) c (w_hubs w hb)))))"
proof -
  have "Unregister ((w_clients w)(c := mark_closed (w_clients w c))) c h = Unregister (w_clients w) c h" for h
    by (rule Unregister_ids) (simp_all add: ConnectionID_def UserID_def mark_closed_def)
  then show ?thesis by (simp add: Close_hubs split: option.splits)
qed

lemma mark_closed_simps [simp]:
  "c_closed (mark_closed x)" "c_closeOnce (mark_closed x)" "c_send (mark_closed x) = c_send x"
  "c_connectionID (mark_closed x) = c_connectionID x" "c_userID (mark_closed x) = c_userID x"
  "c_onClose (mark_closed x) = c_onClose x" "c_hub (mark_closed x) = c_hub x"
  by (simp_all add: mark_closed_def)



text \<open>
  C21: once a session is closed it stays closed in every continuation; nothing is ever
  queued to it again (what remains of its queue is a suffix of what was there), every send is refused without
  any effect, and its write loop returns at once.
\<close>

theorem closed_session_inert:
  assumes "steps w w'" and "c < w_next w" and "c_closed (w_clients w c)"
  shows "c_closed (w_clients w' c) \<and>
         (\<exists>sent. ch_buf (c_send (w_clients w c)) = sent @ ch_buf (c_send (w_clients w' c))) \<and>
         Send c messageType payload w' = (False, w') \<and> write_step c choice w' = (False, w')"
proof -
  have "client_grows (w_clients w c) (w_clients w' c)"
    using steps_grows [OF assms(1)] assms(2) by (simp add: grows_def)
  then have "c_closed (w_clients w' c)"
      "\<exists>p. ch_buf (c_send (w_clients w c)) = p @ ch_buf (c_send (w_clients w' c))"
    using assms(3) by (auto simp: client_grows_def)
  then show ?thesis by (simp add: Send_closed write_step_def)
qed

theorem closed_session_inert_witness:
  "c_closed (w_clients (fold perform [DoClose 1 ''x'', DoBroadcast 0 ''a'' ''r'' ''{}''] sample_world) 1)"
proof -
  let ?w = "Close 1 ''x'' sample_world"
  have s: "steps ?w (fold perform [DoBroadcast 0 ''a'' ''r'' ''{}''] ?w)" by (rule steps_history)
  have n: "1 < w_next ?w" by code_simp
  have c: "c_closed (w_clients ?w 1)" by code_simp
  from closed_session_inert [OF s n c] show ?thesis by simp
qed

subsection \<open>Queueing and backpressure\<close>

definition has_room :: "Client \<Rightarrow> bool" where
  "has_room x = (length (ch_buf (c_send x)) < ch_cap (c_send x))"

text \<open>What one frame does to the session it is sent to.\<close>

definition receive :: "outboundMessage \<Rightarrow> Client \<Rightarrow> Client" where
  "receive m x =
     (if c_closed x then x
      else if has_room x then x\<lparr>c_send := (c_send x)\<lparr>ch_buf := ch_buf (c_send x) @ [m]\<rparr>\<rparr>
      else mark_closed x)"

definition text_frame :: "bytes \<Rightarrow> outboundMessage" where
  "text_frame payload = \<lparr>om_messageType = TextMessage, om_payload = payload\<rparr>"

lemma Send_result:
  "fst (Send c t p w) = (\<not> c_closed (w_clients w c) \<and> has_room (w_clients w c))"
proof (cases "c_closed (w_clients w c)")
  case False
  then show ?thesis
    using Send_queued [OF False, of t p] Send_full [OF False, of t p] by (cases "has_room (w_clients w c)") (auto simp: has_room_def)
qed (simp add: Send_closed)

lemma Send_clients:
  assumes "flags_ok (w_clients w c)"
  shows "w_clients (snd (Send c t p w)) =
           (w_clients w)(c := receive \<lparr>om_messageType = t, om_payload = p\<rparr> (w_clients w c))"
proof -
  consider "c_closed (w_clients w c)" | "\<not> c_closed (w_clients w c)" "has_room (w_clients w c)"
    | "\<not> c_closed (w_clients w c)" "\<not> has_room (w_clients w c)" by blast
  then show ?thesis
  proof cases
    case 1
    then show ?thesis by (simp add: Send_closed receive_def)
  next
    case 2
    then show ?thesis
      by (simp add: Send_queued has_room_def receive_def try_send_def)
  next
    case 3
    with assms have "\<not> c_closeOnce (w_clients w c)" by (simp add: flags_ok_def)
    with 3 show ?thesis by (simp add: Send_full has_room_def receive_def Close_clients)
  qed
qed

text \<open>
  a send never blocks and has three outcomes. On a closed session it is refused and
  nothing changes; with room in the queue the frame is appended behind the frames already there; on a full
  queue it is refused, the session is closed and the queue-full counter goes up. No other session changes in
  any case.
\<close>

theorem Send_backpressure:
  assumes "world_ok w"
  shows "(case Send c messageType payload w of
            (True, w') \<Rightarrow>
              \<not> c_closed (w_clients w c) \<and>
              w_clients w' = (w_clients w)(c := (w_clients w c)\<lparr>c_send := (c_send (w_clients w c))\<lparr>ch_buf :=
                ch_buf (c_send (w_clients w c)) @ [\<lparr>om_messageType = messageType, om_payload = payload\<rparr>]\<rparr>\<rparr>)
          | (False, w') \<Rightarrow>
              (if c_closed (w_clients w c) then w' = w
               else length (ch_buf (c_send (w_clients w c))) = ch_cap (c_send (w_clients w c)) \<and>
                    w_clients w' = (w_clients w)(c := mark_closed (w_clients w c)) \<and>
                    QueueFullDisconnects (w_metrics w') = QueueFullDisconnects (w_metrics w) + 1))"
proof -
  from assms have q: "queue_ok (w_clients w c)" and f: "flags_ok (w_clients w c)" by (simp_all add: world_ok_def)
  let ?x = "w_clients w c"
  consider "c_closed ?x" | "\<not> c_closed ?x" "has_room ?x" | "\<not> c_closed ?x" "\<not> has_room ?x" by blast
  then show ?thesis
  proof cases
    case 1
    then show ?thesis by (simp add: Send_closed)
  next
    case 2
    with Send_clients [OF f, of messageType payload] Send_result [of c messageType payload w] show ?thesis
      by (auto simp: receive_def split: prod.splits)
  next
    case 3
    with f have n: "\<not> c_closeOnce ?x" by (simp add: flags_ok_def)
    have "QueueFullDisconnects (w_metrics (snd (Send c messageType payload w))) =
          QueueFullDisconnects (w_metrics w) + 1"
      using 3 n by (simp add: Send_full has_room_def Close_metrics close_counters_def metric_defs Let_def)
    with 3 q Send_clients [OF f, of messageType payload] Send_result [of c messageType payload w] show ?thesis
      by (auto simp: receive_def has_room_def queue_ok_def split: prod.splits)
  qed
qed

theorem Send_backpressure_witness:
  "fst (Send 0 1 ''b'' (snd (Send 0 1 ''a'' sample_world))) = False \<and>
   c_closed (w_clients (snd (Send 0 1 ''b'' (snd (Send 0 1 ''a'' sample_world)))) 0)"
proof -
  let ?w = "perform (DoSend 0 1 ''a'') sample_world"
  have ok: "world_ok ?w" using world_ok_history [OF world_ok_sample, of "[DoSend 0 1 ''a'']"] by simp
  have o: "\<not> c_closed (w_clients ?w 0)" by code_simp
  have full: "fst (Send 0 1 ''b'' ?w) = False" by code_simp
  from full o Send_backpressure [OF ok, of 0 1 "''b''"] show ?thesis
    by (auto split: prod.splits)
qed

subsection \<open>Fan-out to several sessions\<close>

lemma SendJSON_clients:
  assumes "flags_ok (w_clients w c)" and "MarshalOutbound v = Some p"
  shows "w_clients (snd (SendJSON c v w)) = (w_clients w)(c := receive (text_frame p) (w_clients w c))"
  using Send_clients [OF assms(1)] assms(2) by (simp add: SendJSON_def text_frame_def)

lemma deliver_clients:
  assumes "flags_ok (w_clients w c)" and "MarshalOutbound v = Some p"
  shows "w_clients (deliver r v c w) = (w_clients w)(c := receive (text_frame p) (w_clients w c))"
proof -
  obtain ok w1 where s: "SendJSON c v w = (ok, w1)" by fastforce
  then show ?thesis using SendJSON_clients [OF assms] by (cases ok) (simp_all add: deliver_def)
qed

lemma fold_receive:
  assumes "\<And>c w. flags_ok (w_clients w c) \<Longrightarrow> w_clients (f c w) = (w_clients w)(c := receive m (w_clients w c))"
    and "distinct cs" and "\<forall>c \<in> set cs. flags_ok (w_clients w c)"
  shows "w_clients (fold f cs w) c = (if c \<in> set cs then receive m (w_clients w c) else w_clients w c)"
  using assms(2,3)
proof (induction cs arbitrary: w)
  case (Cons d cs)
  let ?w = "f d w"
  have e: "w_clients ?w = (w_clients w)(d := receive m (w_clients w d))" using assms(1) Cons.prems(2) by simp
  have "\<forall>c \<in> set cs. flags_ok (w_clients ?w c)" using Cons.prems unfolding e by auto
  with Cons show ?case by (simp add: e)
qed simp

lemma new_event_frame:
  assumes "new_event t r p w = (ev, w1)"
  shows "w_clients w1 = w_clients w" and "w_hubs w1 = w_hubs w" and "w_env w1 = w_env w"
    and "w_brokers w1 = w_brokers w" and "w_metrics w1 = w_metrics w" and "w_tick w1 = w_tick w + 2"
    and "ev = newOutboundMessage (e_rand (w_env w) (w_tick w)) (snd (e_clock (w_env w) (Suc (w_tick w)))) t r p"
  using assms by (auto simp: new_event_def draw_rand_def draw_clock_def)

text \<open>
  C20: a local broadcast sends one and the same text frame to exactly the room members
  whose user is not the sender, once each; a member with room in its queue gets the frame at the end of it, a
  member whose queue is full is closed, and every other session, the sender's included, is unchanged.
\<close>

theorem localBroadcast_delivers:
  assumes "world_ok w" and "refs_ok (w_clients w) (w_hubs w hb)"
    and "new_event CommandRoomBroadcast [] (PBroadcast roomID senderID payload) (tick w) = (Some event, w1)"
    and "MarshalOutbound event = Some frame"
  shows "w_clients (localBroadcast hb senderID roomID payload w) c =
           (if (\<exists>k. nget (h_rooms (w_hubs w hb)) roomID k = Some c) \<and> UserID (w_clients w c) \<noteq> senderID
            then receive (text_frame frame) (w_clients w c) else w_clients w c)"
proof -
  from assms(1) have ok: "hub_ok (w_hubs w hb)" by (simp add: world_ok_def hubs_ok_def)
  let ?r = "recipients (e_order (w_env w) (w_tick w)) (w_clients w) senderID roomID (w_hubs w hb)"
  note ex = recipients_exact [OF ok assms(2), where pick = "e_order (w_env w) (w_tick w)" and senderID = senderID
      and roomID = roomID]
  have w1: "w_clients w1 = w_clients w" using new_event_frame(1) [OF assms(3)] by simp
  show ?thesis
  proof (cases ?r)
    case None
    with ex show ?thesis by (auto simp: localBroadcast_def is_member_def)
  next
    case (Some rs)
    have "w_clients (fold (deliver roomID event) rs w1) c =
          (if c \<in> set rs then receive (text_frame frame) (w_clients w1 c) else w_clients w1 c)"
      using assms(1,4) ex Some
      by (intro fold_receive) (auto simp: deliver_clients w1 world_ok_def)
    with Some assms(3) ex show ?thesis by (auto simp: localBroadcast_def w1)
  qed
qed

definition refs_check :: "(cref \<Rightarrow> Client) \<Rightarrow> Hub \<Rightarrow> bool" where
  "refs_check cls h =
     (list_all (\<lambda>(r, m). list_all (\<lambda>(k, c). ConnectionID (cls c) = k) m) (h_rooms h) \<and>
      list_all (\<lambda>(u, c). UserID (cls c) = u) (h_clients h))"

lemma refs_ok_check: "refs_check cls h \<Longrightarrow> refs_ok cls h"
  unfolding refs_ok_def refs_check_def list_all_iff
  by (fastforce simp: nget_def split: option.splits dest: mget_in_set)

definition room_world :: world where
  "room_world = upd_hub 0 (hub_run (w_clients sample_world) [OpJoin 0 ''lobby'', OpJoin 1 ''lobby'']) sample_world"

lemma world_ok_room: "world_ok room_world"
proof -
  have "hub_ok (hub_run cls ops (w_hubs sample_world 0))" for cls ops
    using world_ok_sample by (intro hub_ok_run) (simp add: world_ok_def hubs_ok_def)
  then have "hubs_ok room_world"
    using world_ok_sample by (simp add: room_world_def world_ok_def hubs_ok_def)
  then show ?thesis
    using world_ok_sample by (simp add: room_world_def world_ok_def gauge_ok_def open_sessions_def)
qed

theorem localBroadcast_delivers_witness:
  "\<exists>frame. w_clients (localBroadcast 0 ''alice'' ''lobby'' ''{}'' room_world) 1 =
             receive (text_frame frame) (w_clients room_world 1) \<and>
           w_clients (localBroadcast 0 ''alice'' ''lobby'' ''{}'' room_world) 0 = w_clients room_world 0"
proof -
  have refs: "refs_ok (w_clients room_world) (w_hubs room_world 0)" by (rule refs_ok_check) code_simp
  let ?n = "new_event CommandRoomBroadcast [] (PBroadcast ''lobby'' ''alice'' ''{}'') (tick room_world)"
  have "(case fst ?n of None \<Rightarrow> False | Some ev \<Rightarrow> MarshalOutbound ev \<noteq> None)" by code_simp
  then obtain ev frame w1 where ev: "?n = (Some ev, w1)" and frame: "MarshalOutbound ev = Some frame"
    by (cases ?n) (auto split: option.splits)
  have 1: "nget (h_rooms (w_hubs room_world 0)) ''lobby'' ''conn_b'' = Some 1"
    "UserID (w_clients room_world 1) \<noteq> ''alice''" "UserID (w_clients room_world 0) = ''alice''"
    by code_simp+
  show ?thesis
    using localBroadcast_delivers [OF world_ok_room refs ev frame, of 1]
      localBroadcast_delivers [OF world_ok_room refs ev frame, of 0] 1
    by (intro exI [of _ frame]) auto
qed

end
