(* ===== verification/Fanout.thy ===== *)
theory Fanout
  imports Delivery
begin

text \<open>
  Routing between users and between nodes: private messages, the fan-out of a broadcast over the in-memory
  broker, the replacement of a user's session, and the operations of a shutdown.
\<close>

subsection \<open>What deliveries leave alone\<close>

text \<open>The wiring of the process: brokers, environment, and every hub's broker, node and policy.\<close>

definition wiring :: "world \<Rightarrow> (bref \<Rightarrow> broker_impl) \<times> env \<times> (href \<Rightarrow> bref option \<times> bytes \<times> Authorizer \<times> int)" where
  "wiring w = (w_brokers w, w_env w, \<lambda>hb. (h_broker (w_hubs w hb), h_nodeID (w_hubs w hb),
     h_authorizer (w_hubs w hb), h_maxRoomsPerClient (w_hubs w hb)))"

lemma wiring_simps [simp]:
  "wiring (tick w) = wiring w" "wiring (logged l m a w) = wiring w" "wiring (metric f w) = wiring w"
  "wiring (upd_client c k w) = wiring w"
  by (simp_all add: wiring_def)

lemma wiring_Close [simp]: "wiring (Close c r w) = wiring w"
  by (auto simp: wiring_def Close_hubs' fun_eq_iff split: option.splits)

lemma wiring_Send [simp]: "wiring (snd (Send c t p w)) = wiring w"
proof (cases "c_closed (w_clients w c)")
  case False
  then show ?thesis
    using Send_queued [OF False, of t p] Send_full [OF False, of t p]
    by (cases "has_room (w_clients w c)") (auto simp: has_room_def simp del: UpdateMaxQueueDepth.simps)
qed (simp add: Send_closed)

lemma wiring_SendJSON [simp]: "wiring (snd (SendJSON c v w)) = wiring w"
  by (simp add: SendJSON_def split: option.splits)

lemma wiring_SendJSON': "SendJSON c v w = (ok, w1) \<Longrightarrow> wiring w1 = wiring w"
  using wiring_SendJSON [of c v w] by simp

lemma wiring_new_event: "new_event t r p w = (ev, w1) \<Longrightarrow> wiring w1 = wiring w"
  using new_event_frame [of t r p w ev w1] by (simp add: wiring_def)

lemma wiring_deliver [simp]: "wiring (deliver r e c w) = wiring w"
proof -
  obtain ok w1 where s: "SendJSON c e w = (ok, w1)" by fastforce
  then show ?thesis using wiring_SendJSON' [OF s] by (cases ok) (simp_all add: deliver_def)
qed

lemma wiring_fold: "(\<And>x w. wiring (f x w) = wiring w) \<Longrightarrow> wiring (fold f xs w) = wiring w"
  by (induction xs arbitrary: w) simp_all

lemma wiring_localBroadcast [simp]: "wiring (localBroadcast hb s r p w) = wiring w"
  by (auto simp: localBroadcast_def wiring_fold split: option.splits prod.splits dest: wiring_new_event)

lemma wiring_localSendPrivate [simp]: "wiring (localSendPrivate hb s r p w) = wiring w"
  by (auto simp: localSendPrivate_def split: option.splits prod.splits bool.splits
      dest!: wiring_new_event wiring_SendJSON')

lemma wiring_HandleBrokerEvent [simp]: "wiring (HandleBrokerEvent hb e w) = wiring w"
  by (simp add: HandleBrokerEvent_def Let_def)

lemma wiring_broker_callback [simp]: "wiring (broker_callback hb s d w) = wiring w"
  by (simp add: broker_callback_def split: option.splits)

lemma wiringD:
  assumes "wiring w' = wiring w"
  shows "w_brokers w' = w_brokers w" and "w_env w' = w_env w"
    and "h_broker (w_hubs w' hb) = h_broker (w_hubs w hb)" and "h_nodeID (w_hubs w' hb) = h_nodeID (w_hubs w hb)"
  using assms by (auto simp: wiring_def fun_eq_iff)

subsection \<open>Broadcasts across nodes\<close>

lemma HandleBrokerEvent_echo:
  "h_nodeID (w_hubs w hb) \<noteq> [] \<Longrightarrow> be_NodeID e = h_nodeID (w_hubs w hb) \<Longrightarrow> HandleBrokerEvent hb e w = w"
  by (simp add: HandleBrokerEvent_def)

lemma HandleBrokerEvent_room:
  "be_NodeID e \<noteq> h_nodeID (w_hubs w hb) \<Longrightarrow> be_Type e = ''room_broadcast'' \<Longrightarrow>
     HandleBrokerEvent hb e w =
       localBroadcast hb (be_SenderID e) (be_RoomID e) (be_Payload e) (metric IncrementBrokerReceiveCount w)"
  by (auto simp: HandleBrokerEvent_def Let_def)

definition remote_delivery :: "bytes \<Rightarrow> bytes \<Rightarrow> bytes \<Rightarrow> href \<Rightarrow> world \<Rightarrow> world" where
  "remote_delivery senderID roomID payload hb w =
     localBroadcast hb senderID roomID payload (metric IncrementBrokerReceiveCount w)"

lemma fold_callbacks:
  assumes "DecodeBrokerEvent data = Some e" and "be_Type e = ''room_broadcast''" and "be_NodeID e \<noteq> []"
  shows "fold (\<lambda>hb. broker_callback hb subject data) hbs w =
           fold (remote_delivery (be_SenderID e) (be_RoomID e) (be_Payload e))
             (filter (\<lambda>hb. h_nodeID (w_hubs w hb) \<noteq> be_NodeID e) hbs) w"
proof (induction hbs arbitrary: w)
  case (Cons hb hbs)
  let ?w = "broker_callback hb subject data w"
  have n: "h_nodeID (w_hubs ?w x) = h_nodeID (w_hubs w x)" for x by (rule wiringD(4)) simp
  have "?w = (if h_nodeID (w_hubs w hb) = be_NodeID e then w
              else remote_delivery (be_SenderID e) (be_RoomID e) (be_Payload e) hb w)"
    using assms HandleBrokerEvent_echo [of w hb e] HandleBrokerEvent_room [of e w hb]
    by (auto simp: broker_callback_def remote_delivery_def)
  with Cons [of ?w] n show ?case by auto
qed simp

text \<open>The hubs whose live subscription matches a subject, without those of one node.\<close>

definition remote_hubs :: "world \<Rightarrow> href MemoryBroker \<Rightarrow> bytes \<Rightarrow> bytes \<Rightarrow> (nat \<times> href) set" where
  "remote_hubs w mb subject node =
     {(i, ms_handler sub) |i sub. (i, sub) \<in> live_matches subject mb \<and> h_nodeID (w_hubs w (ms_handler sub)) \<noteq> node}"

lemma distinct_map_fst_filter: "distinct (map fst ps) \<Longrightarrow> distinct (map fst (filter P ps))"
  by (induction ps) auto

lemma Publish_room_event:
  assumes "w_brokers w b = Mem mb" and "mem_ok mb" and "\<not> mb_closed mb" and "DecodeBrokerEvent data = Some e"
    and "be_Type e = ''room_broadcast''" and "be_NodeID e \<noteq> []" and "wiring w = wiring start"
  shows "\<exists>ps. distinct (map fst ps) \<and> set ps = remote_hubs start mb subject (be_NodeID e) \<and>
              Publish b subject data w =
                (None, fold (remote_delivery (be_SenderID e) (be_RoomID e) (be_Payload e)) (map snd ps) (tick w))"
proof -
  let ?pick = "e_subs (w_env w) (w_tick w)"
  from assms(2) obtain ps where ps: "distinct (map fst ps)" "set ps = live_matches subject mb"
      "mem_matches ?pick subject mb = map snd ps"
    using mem_matches_live [of mb subject ?pick] by (auto simp: mem_ok_def)
  let ?qs = "map (\<lambda>(i, sub). (i, ms_handler sub))
      (filter (\<lambda>(i, sub). h_nodeID (w_hubs start (ms_handler sub)) \<noteq> be_NodeID e) ps)"
  have n: "h_nodeID (w_hubs w x) = h_nodeID (w_hubs start x)" for x by (rule wiringD(4) [OF assms(7)])
  have "fold (\<lambda>sub. broker_callback (ms_handler sub) subject data) (map snd ps) (tick w) =
        fold (\<lambda>hb. broker_callback hb subject data) (map (\<lambda>p. ms_handler (snd p)) ps) (tick w)"
    by (simp add: fold_map o_def)
  also have "\<dots> = fold (remote_delivery (be_SenderID e) (be_RoomID e) (be_Payload e)) (map snd ?qs) (tick w)"
    using fold_callbacks [OF assms(4,5,6), of subject]
    by (simp add: n filter_map o_def case_prod_beta')
  finally have "Publish b subject data w =
      (None, fold (remote_delivery (be_SenderID e) (be_RoomID e) (be_Payload e)) (map snd ?qs) (tick w))"
    using assms(1,3) by (simp add: Publish_def mem_Publish_def ps(3))
  moreover have "distinct (map fst ?qs)"
    using distinct_map_fst_filter [OF ps(1)] by (simp add: o_def case_prod_beta')
  moreover have "set ?qs = remote_hubs start mb subject (be_NodeID e)"
    using ps(2) by (auto simp: remote_hubs_def)
  ultimately show ?thesis by blast
qed

text \<open>
  C12: over an open in-memory broker a broadcast is first delivered to the local room
  and then once to the room of the same name on every other subscribed node, as sent (the payload in compact
  form); the echo that comes back to the origin is ignored, and one publication is counted.
\<close>

theorem broadcast_across_nodes:
  fixes hb senderID roomID payload
  defines "event \<equiv> \<lambda>node. \<lparr>be_NodeID = node, be_Type = ''room_broadcast'', be_RoomID = roomID,
                          be_SenderID = senderID, be_RecipientID = [], be_Payload = payload\<rparr>"
  assumes "h_broker (w_hubs w hb) = Some b" and "w_brokers w b = Mem mb" and "mem_ok mb" and "\<not> mb_closed mb"
    and "h_nodeID (w_hubs w hb) = node" and "node \<noteq> []" and "event_encodable (event node)"
  shows "\<exists>ps. distinct (map fst ps) \<and> set ps = remote_hubs w mb (''blockforge.rooms.'' @ roomID) node \<and>
              Broadcast hb senderID roomID payload w =
                metric IncrementBrokerPublishCount
                  (fold (remote_delivery senderID roomID (event_text payload)) (map snd ps)
                     (tick (localBroadcast hb senderID roomID payload w)))"
proof -
  let ?w = "localBroadcast hb senderID roomID payload w"
  have wi: "wiring ?w = wiring w" by simp
  from node_event.enc_total [OF assms(8)] obtain data where data: "Encode (event node) = Some data" by blast
  from node_event.dec_enc [OF assms(8) data] have dec: "DecodeBrokerEvent data =
      Some ((event node)\<lparr>be_Payload := event_text payload\<rparr>)" by (simp add: event_def)
  have "w_brokers ?w b = Mem mb" using wiringD(1) [OF wi] assms(3) by simp
  from Publish_room_event [OF this assms(4,5) dec, where start = w and subject = "''blockforge.rooms.'' @ roomID"]
    assms(7) wi
  obtain ps where ps: "distinct (map fst ps)" "set ps = remote_hubs w mb (''blockforge.rooms.'' @ roomID) node"
    "Publish b (''blockforge.rooms.'' @ roomID) data ?w =
       (None, fold (remote_delivery senderID roomID (event_text payload)) (map snd ps) (tick ?w))"
    unfolding event_def by auto
  then have "Broadcast hb senderID roomID payload w =
      metric IncrementBrokerPublishCount
        (fold (remote_delivery senderID roomID (event_text payload)) (map snd ps) (tick ?w))"
    using wiringD(3,4) [OF wi, of hb] assms(2,6) data by (simp add: Broadcast_def event_def)
  with ps(1,2) show ?thesis by blast
qed

text \<open>Two nodes of one process on one bus: hub 0 on node n1, hub 1 on node n2.\<close>

definition two_nodes :: world where
  "two_nodes = room_world\<lparr>
     w_hubs := (w_hubs room_world)(0 := SetBroker 0 ''n1'' (w_hubs room_world 0),
                                   1 := SetBroker 0 ''n2'' (w_hubs room_world 1)),
     w_brokers := (\<lambda>b. Mem (snd (mem_Subscribe ''blockforge.>'' 1
                              (snd (mem_Subscribe ''blockforge.>'' 0 NewMemoryBroker)))))\<rparr>"

theorem broadcast_across_nodes_witness:
  "\<exists>ps. distinct (map fst ps) \<and>
        set ps = remote_hubs two_nodes (snd (mem_Subscribe ''blockforge.>'' 1
                   (snd (mem_Subscribe ''blockforge.>'' 0 NewMemoryBroker)))) (''blockforge.rooms.'' @ ''lobby'') ''n1'' \<and>
        Broadcast 0 ''alice'' ''lobby'' ''{}'' two_nodes =
          metric IncrementBrokerPublishCount
            (fold (remote_delivery ''alice'' ''lobby'' (event_text ''{}'')) (map snd ps)
               (tick (localBroadcast 0 ''alice'' ''lobby'' ''{}'' two_nodes)))"
proof (rule broadcast_across_nodes)
  show "h_broker (w_hubs two_nodes 0) = Some 0" by (simp add: two_nodes_def SetBroker_def)
  show "w_brokers two_nodes 0 = Mem (snd (mem_Subscribe ''blockforge.>'' 1
          (snd (mem_Subscribe ''blockforge.>'' 0 NewMemoryBroker))))" by (simp add: two_nodes_def)
  show "mem_ok (snd (mem_Subscribe ''blockforge.>'' 1 (snd (mem_Subscribe ''blockforge.>'' (0 :: href) NewMemoryBroker))))"
    by (intro mem_ok_Subscribe mem_ok_New)
  show "\<not> mb_closed (snd (mem_Subscribe ''blockforge.>'' 1
          (snd (mem_Subscribe ''blockforge.>'' (0 :: href) NewMemoryBroker))))" by code_simp
  show "h_nodeID (w_hubs two_nodes 0) = ''n1''" by (simp add: two_nodes_def SetBroker_def)
  show "''n1'' \<noteq> ([] :: bytes)" by simp
  show "event_encodable \<lparr>be_NodeID = ''n1'', be_Type = ''room_broadcast'', be_RoomID = ''lobby'',
          be_SenderID = ''alice'', be_RecipientID = [], be_Payload = ''{}''\<rparr>" by code_simp
qed

subsection \<open>Private messages\<close>

lemma SendJSON_outcome:
  assumes "world_ok w"
  shows "(case SendJSON c v w of
            (True, w') \<Rightarrow> \<not> c_closed (w_clients w c) \<and> has_room (w_clients w c) \<and>
               (\<exists>p. MarshalOutbound v = Some p \<and>
                    w_clients w' = (w_clients w)(c := receive (text_frame p) (w_clients w c)))
          | (False, w') \<Rightarrow> c_closed (w_clients w' c) \<and> (\<forall>d. d \<noteq> c \<longrightarrow> w_clients w' d = w_clients w d))"
proof -
  from assms have f: "flags_ok (w_clients w c)" by (simp add: world_ok_def)
  show ?thesis
  proof (cases "MarshalOutbound v")
    case None
    then show ?thesis using f by (simp add: SendJSON_def Close_clients flags_ok_def)
  next
    case (Some p)
    obtain ok w1 where s: "SendJSON c v w = (ok, w1)" by fastforce
    then have "w_clients w1 = (w_clients w)(c := receive (text_frame p) (w_clients w c))"
      using SendJSON_clients [OF f Some] by simp
    moreover have "ok = (\<not> c_closed (w_clients w c) \<and> has_room (w_clients w c))"
      using s Some Send_result [of c TextMessage p w] by (simp add: SendJSON_def)
    ultimately show ?thesis
      using s Some
      by (cases "c_closed (w_clients w c)"; cases "has_room (w_clients w c)") (simp_all add: receive_def)
  qed
qed

text \<open>
  C30: without a broker a private message has one of four outcomes. Success means the
  recipient is registered and open and the frame was appended to its queue; \<open>ErrRecipientOffline\<close> means it is
  not registered and nothing changed; \<open>ErrRecipientOverloaded\<close> means the registered session could not take the
  frame and is closed now; any other error is a failure to draw an event identifier. Sessions other than the
  recipient's never change.
\<close>

theorem SendPrivate_outcomes:
  assumes "world_ok w" and "h_broker (w_hubs w hb) = None"
  shows "(case SendPrivate hb senderID recipientID payload w of
            (None, w') \<Rightarrow>
              \<exists>c p. Lookup recipientID (w_hubs w hb) = Some c \<and> \<not> c_closed (w_clients w c) \<and>
                    has_room (w_clients w c) \<and>
                    w_clients w' = (w_clients w)(c := receive (text_frame p) (w_clients w c))
          | (Some ErrRecipientOffline, w') \<Rightarrow> Lookup recipientID (w_hubs w hb) = None \<and> w' = w
          | (Some ErrRecipientOverloaded, w') \<Rightarrow>
              \<exists>c. Lookup recipientID (w_hubs w hb) = Some c \<and> c_closed (w_clients w' c) \<and>
                  (\<forall>d. d \<noteq> c \<longrightarrow> w_clients w' d = w_clients w d)
          | (Some (OtherError e), w') \<Rightarrow>
              e_rand (w_env w) (w_tick w) = None \<and> w_clients w' = w_clients w)"
proof (cases "Lookup recipientID (w_hubs w hb)")
  case None
  then show ?thesis using assms(2) by (simp add: SendPrivate_def publish_private_def)
next
  case (Some c)
  obtain ev w1 where ev: "new_event CommandPrivateSend [] (PPrivate senderID recipientID payload) w = (ev, w1)"
    by fastforce
  note fr = new_event_frame [OF ev]
  show ?thesis
  proof (cases ev)
    case None
    then have "e_rand (w_env w) (w_tick w) = None"
      using fr(7) by (auto simp: newOutboundMessage_def newEventID_def split: option.splits)
    then show ?thesis using None Some ev fr(1) by (simp add: SendPrivate_def)
  next
    case e: (Some event)
    have "steps w w1" by (rule steps_new_event [OF ev]) simp
    then have ok: "world_ok w1" using process_inv.steps_inv assms(1) by blast
    obtain sent w2 where s: "SendJSON c event w1 = (sent, w2)" by fastforce
    from SendJSON_outcome [OF ok, of c event] s show ?thesis
      using Some ev e assms(2) fr(1)
      by (cases sent) (auto simp: SendPrivate_def publish_private_def)
  qed
qed

theorem SendPrivate_outcomes_witness:
  "fst (SendPrivate 0 ''alice'' ''carol'' ''{}'' sample_world) = Some ErrRecipientOffline \<and>
   snd (SendPrivate 0 ''alice'' ''carol'' ''{}'' sample_world) = sample_world"
proof -
  have b: "h_broker (w_hubs sample_world 0) = None" by code_simp
  have f: "fst (SendPrivate 0 ''alice'' ''carol'' ''{}'' sample_world) = Some ErrRecipientOffline" by code_simp
  from SendPrivate_outcomes [OF world_ok_sample b, where senderID = "''alice''" and recipientID = "''carol''"
      and payload = "''{}''"] f
  show ?thesis by (auto split: prod.splits)
qed

text \<open>
  C31: with an open in-memory broker, an encodable message and an event identifier,
  \<open>SendPrivate\<close> returns no error, whether or not the recipient is registered anywhere and whether or not its
  queue took the message: a publication that succeeds hides the outcome of the local delivery.
\<close>

theorem SendPrivate_broker_masks:
  assumes "h_broker (w_hubs w hb) = Some b" and "w_brokers w b = Mem mb" and "\<not> mb_closed mb"
    and "raw_json payload \<noteq> None" and "e_rand (w_env w) (w_tick w) \<noteq> None"
  shows "fst (SendPrivate hb senderID recipientID payload w) = None"
proof -
  have pub: "fst (publish_private (Some b) nid ok le senderID recipientID payload w') = None"
    if "wiring w' = wiring w" for nid ok le w'
    using wiringD(1) [OF that] assms(2,3,4)
    by (auto simp: publish_private_def Publish_def mem_Publish_def Encode_def event_members_def Let_def
        split: option.splits)
  show ?thesis
  proof (cases "Lookup recipientID (w_hubs w hb)")
    case None
    with pub [of w] assms(1) show ?thesis by (simp add: SendPrivate_def)
  next
    case (Some c)
    obtain ev w1 where ev: "new_event CommandPrivateSend [] (PPrivate senderID recipientID payload) w = (ev, w1)"
      by fastforce
    from new_event_frame(7) [OF ev] assms(5) obtain event where e: "ev = Some event"
      by (auto simp: newOutboundMessage_def newEventID_def split: option.splits)
    obtain sent w2 where s: "SendJSON c event w1 = (sent, w2)" by fastforce
    have "wiring w2 = wiring w" using wiring_SendJSON' [OF s] wiring_new_event [OF ev] by simp
    with pub Some ev e s assms(1) show ?thesis by (cases sent) (simp_all add: SendPrivate_def)
  qed
qed

theorem SendPrivate_broker_masks_witness:
  "Lookup ''carol'' (w_hubs two_nodes 0) = None \<and>
   fst (SendPrivate 0 ''alice'' ''carol'' ''{}'' two_nodes) = None"
proof -
  let ?b = "snd (mem_Subscribe ''blockforge.>'' 1 (snd (mem_Subscribe ''blockforge.>'' (0 :: href) NewMemoryBroker)))"
  have l: "Lookup ''carol'' (w_hubs two_nodes 0) = None" by code_simp
  have r: "raw_json ''{}'' \<noteq> None" by code_simp
  have e: "e_rand (w_env two_nodes) (w_tick two_nodes) \<noteq> None" by code_simp
  have h: "h_broker (w_hubs two_nodes 0) = Some 0" and m: "w_brokers two_nodes 0 = Mem ?b"
    by (simp_all add: two_nodes_def SetBroker_def)
  have c: "\<not> mb_closed ?b" by code_simp
  from l SendPrivate_broker_masks [OF h m c r e] show ?thesis by simp
qed

end
