(* ===== verification/GoUrl.thy ===== *)
theory GoUrl
  imports GoUtf8
begin

text \<open>
  The parts of Go's \<open>net/url\<close>, \<open>net/netip\<close> and \<open>net\<close> packages (release 1.26.2, the one the
  module file names) that the configuration and the HTTP boundary call: \<open>url.Parse\<close>,
  \<open>URL.Query().Get\<close> and \<open>net.SplitHostPort\<close>, on byte lists. Only the fields of \<open>URL\<close> the
  service reads are kept, and an error is \<open>None\<close>. Main fact: an origin written in its plain
  form parses to exactly its scheme and host.
\<close>

subsection \<open>Cutting\<close>

definition cut :: "char \<Rightarrow> bytes \<Rightarrow> bytes \<times> bytes" where
  "cut sep s = (takeWhile (\<lambda>c. c \<noteq> sep) s, drop 1 (dropWhile (\<lambda>c. c \<noteq> sep) s))"

text \<open>Before and after the last occurrence; \<open>None\<close> when there is none.\<close>

definition cut_last :: "char \<Rightarrow> bytes \<Rightarrow> (bytes \<times> bytes) option" where
  "cut_last sep s =
     (case dropWhile (\<lambda>c. c \<noteq> sep) (rev s) of
        [] \<Rightarrow> None
      | _ # p \<Rightarrow> Some (rev p, rev (takeWhile (\<lambda>c. c \<noteq> sep) (rev s))))"

definition is_letter :: "char \<Rightarrow> bool" where
  "is_letter c = (97 \<le> code c \<and> code c \<le> 122 \<or> 65 \<le> code c \<and> code c \<le> 90)"

definition to_lower :: "char \<Rightarrow> char" where
  "to_lower c = (if 65 \<le> code c \<and> code c \<le> 90 then byte (code c + 32) else c)"

lemma skip_absent:
  "sep \<notin> set s \<Longrightarrow> takeWhile (\<lambda>c. c \<noteq> sep) (s @ t) = s @ takeWhile (\<lambda>c. c \<noteq> sep) t"
  "sep \<notin> set s \<Longrightarrow> dropWhile (\<lambda>c. c \<noteq> sep) (s @ t) = dropWhile (\<lambda>c. c \<noteq> sep) t"
  "sep \<notin> set s \<Longrightarrow> takeWhile (\<lambda>c. c \<noteq> sep) s = s"
  "sep \<notin> set s \<Longrightarrow> dropWhile (\<lambda>c. c \<noteq> sep) s = []"
  by (induction s) auto

lemma cut_append: "sep \<notin> set s \<Longrightarrow> cut sep (s @ sep # t) = (s, t)"
  by (simp add: cut_def skip_absent)

lemma cut_absent: "sep \<notin> set s \<Longrightarrow> cut sep s = (s, [])"
  by (simp add: cut_def skip_absent)

lemma cut_last_append: "sep \<notin> set t \<Longrightarrow> cut_last sep (s @ sep # t) = Some (s, t)"
  by (simp add: cut_last_def skip_absent)

lemma cut_last_absent: "sep \<notin> set s \<Longrightarrow> cut_last sep s = None"
  by (simp add: cut_last_def skip_absent)

subsection \<open>Percent-encoding\<close>

datatype encoding = encodePath | encodeHost | encodeZone | encodeUserPassword | encodeQueryComponent | encodeFragment

text \<open>The bytes \<open>shouldEscape\<close> lets through in a host or a zone.\<close>

definition host_byte :: "char \<Rightarrow> bool" where
  "host_byte c =
     (is_letter c \<or> is_digit c \<or> c \<in> set ''-_.~!$&()*+,;=:[]<>'' \<or> c = CHR 0x27 \<or> c = CHR 0x22)"

definition escape_ok :: "encoding \<Rightarrow> char \<Rightarrow> char \<Rightarrow> nat \<Rightarrow> nat \<Rightarrow> bool" where
  "escape_ok mode a b m n =
     (case mode of
        encodeHost \<Rightarrow> 8 \<le> m \<or> a = CHR ''2'' \<and> b = CHR ''5''
      | encodeZone \<Rightarrow>
          a = CHR ''2'' \<and> b = CHR ''5'' \<or> byte (16 * m + n) = CHR '' '' \<or> host_byte (byte (16 * m + n))
      | _ \<Rightarrow> True)"

definition plain_ok :: "encoding \<Rightarrow> char \<Rightarrow> bool" where
  "plain_ok mode c = (mode = encodeHost \<or> mode = encodeZone \<longrightarrow> 128 \<le> code c \<or> host_byte c)"

fun unescape :: "encoding \<Rightarrow> bytes \<Rightarrow> bytes option" where
  "unescape mode [] = Some []"
| "unescape mode (c # s) =
     (if c = CHR ''%'' then
        (case s of
           a # b # r \<Rightarrow>
             (case (hexval a, hexval b) of
                (Some m, Some n) \<Rightarrow>
                  if escape_ok mode a b m n then map_option (\<lambda>t. byte (16 * m + n) # t) (unescape mode r) else None
              | _ \<Rightarrow> None)
         | _ \<Rightarrow> None)
      else if plain_ok mode c then
        map_option (\<lambda>t. (if mode = encodeQueryComponent \<and> c = CHR ''+'' then CHR '' '' else c) # t) (unescape mode s)
      else None)"

lemma unescape_plain:
  "\<forall>c \<in> set s. c \<noteq> CHR ''%'' \<and> plain_ok mode c \<Longrightarrow> mode \<noteq> encodeQueryComponent \<Longrightarrow> unescape mode s = Some s"
  by (induction s) auto

lemma unescape_Nil_iff: "unescape mode s = Some t \<Longrightarrow> (t = []) = (s = [])"
  by (cases s) (auto split: if_splits list.splits option.splits)

subsection \<open>Addresses in brackets\<close>

text \<open>
  \<open>netip.ParseAddr\<close>, as far as \<open>url.Parse\<close> asks: does the text parse as an address that is not
  an IPv4 address? The loop counts the bytes \<open>i\<close> filled in and whether it has seen \<open>::\<close>.
\<close>

definition ipv4_octet :: "bytes \<Rightarrow> bool" where
  "ipv4_octet p =
     (p \<noteq> [] \<and> list_all is_digit p \<and> digits_val p \<le> 255 \<and> (hd p = CHR ''0'' \<longrightarrow> length p = 1))"

definition parseIPv4Fields :: "bytes \<Rightarrow> bool" where
  "parseIPv4Fields s = (let ps = SplitByte (CHR ''.'') s in length ps = 4 \<and> list_all ipv4_octet ps)"

function ipv6_loop :: "nat \<Rightarrow> bool \<Rightarrow> bytes \<Rightarrow> (nat \<times> bool \<times> bytes) option" where
  "ipv6_loop i ellipsis s =
     (if 16 \<le> i then Some (i, ellipsis, s)
      else
        (let ds = takeWhile (\<lambda>c. hexval c \<noteq> None) s in
         if ds = [] \<or> 4 < length ds then None
         else
           (case dropWhile (\<lambda>c. hexval c \<noteq> None) s of
              [] \<Rightarrow> Some (i + 2, ellipsis, [])
            | c # t \<Rightarrow>
                if c = CHR ''.'' then
                  (if \<not> ellipsis \<and> i \<noteq> 12 \<or> 16 < i + 4 \<or> \<not> parseIPv4Fields s then None
                   else Some (i + 4, ellipsis, []))
                else if c \<noteq> CHR '':'' then None
                else
                  (case t of
                     [] \<Rightarrow> None
                   | d # r \<Rightarrow>
                       if d \<noteq> CHR '':'' then ipv6_loop (i + 2) ellipsis t
                       else if ellipsis then None
                       else if r = [] then Some (i + 2, True, [])
                       else ipv6_loop (i + 2) True r))))"
  by pat_completeness auto
termination by (relation "measure (\<lambda>(i, _, _). 16 - i)") auto

declare ipv6_loop.simps [simp del]

definition parseIPv6 :: "bytes \<Rightarrow> bool" where
  "parseIPv6 addr =
     (case cut (CHR ''%'') addr of (s, zone) \<Rightarrow>
      if CHR ''%'' \<in> set addr \<and> zone = [] then False
      else
        (let leading = HasPrefix s ''::''; s1 = (if leading then drop 2 s else s) in
         if leading \<and> s1 = [] then True
         else
           (case ipv6_loop 0 leading s1 of
              None \<Rightarrow> False
            | Some (i, ellipsis, r) \<Rightarrow> r = [] \<and> (if i < 16 then ellipsis else \<not> ellipsis))))"

definition ParseAddr_not4 :: "bytes \<Rightarrow> bool" where
  "ParseAddr_not4 s =
     (case dropWhile (\<lambda>c. c \<notin> set ''.:%'') s of
        [] \<Rightarrow> False
      | c # _ \<Rightarrow> c = CHR '':'' \<and> parseIPv6 s)"

subsection \<open>Authorities\<close>

definition validOptionalPort :: "bytes \<Rightarrow> bool" where
  "validOptionalPort port =
     (case port of [] \<Rightarrow> True | c # ds \<Rightarrow> c = CHR '':'' \<and> list_all is_digit ds)"

definition unescape_hostname :: "bytes \<Rightarrow> bytes option" where
  "unescape_hostname hostname =
     (let zones = filter (\<lambda>i. take 3 (drop i hostname) = ''%25'') [0..<length hostname] in
      case zones of
        [] \<Rightarrow> unescape encodeHost hostname
      | zone # _ \<Rightarrow>
          (case (unescape encodeHost (take zone hostname), unescape encodeZone (drop zone hostname)) of
             (Some hostPart, Some zonePart) \<Rightarrow> Some (hostPart @ zonePart)
           | _ \<Rightarrow> None))"

text \<open>
  A host with brackets is an IPv6 literal at the start with an optional port; any other host may
  have a port, which starts at the first colon for \<open>http\<close> and \<open>https\<close> and at the last one for other
  schemes.
\<close>

definition parse_bracketed :: "bytes \<Rightarrow> bytes option" where
  "parse_bracketed host =
     (case cut_last (CHR '']'') host of
        None \<Rightarrow> None
      | Some (before, colonPort) \<Rightarrow>
          if \<not> validOptionalPort colonPort then None
          else
            (case unescape encodeHost colonPort of
               None \<Rightarrow> None
             | Some port \<Rightarrow>
                 (case unescape_hostname (drop 1 before) of
                    None \<Rightarrow> None
                  | Some hostname \<Rightarrow>
                      if ParseAddr_not4 hostname then Some (''['' @ hostname @ '']'' @ port) else None)))"

definition host_port :: "bytes \<Rightarrow> bytes \<Rightarrow> bytes" where
  "host_port scheme host =
     (if CHR '':'' \<notin> set host then []
      else if scheme = ''http'' \<or> scheme = ''https'' then dropWhile (\<lambda>c. c \<noteq> CHR '':'') host
      else (case cut_last (CHR '':'') host of None \<Rightarrow> [] | Some (_, port) \<Rightarrow> CHR '':'' # port))"

definition parseHost :: "bytes \<Rightarrow> bytes \<Rightarrow> bytes option" where
  "parseHost scheme host =
     (case cut_last (CHR ''['') host of
        Some (before, _) \<Rightarrow> if before \<noteq> [] then None else parse_bracketed host
      | None \<Rightarrow>
          if validOptionalPort (host_port scheme host) then unescape encodeHost host else None)"

definition validUserinfo :: "bytes \<Rightarrow> bool" where
  "validUserinfo s =
     list_all (\<lambda>c. is_letter c \<or> is_digit c \<or> c \<in> set ''-._:~!$&()*+,;=%@'' \<or> c = CHR 0x27) s"

definition userinfo_ok :: "bytes \<Rightarrow> bool" where
  "userinfo_ok userinfo =
     (validUserinfo userinfo \<and>
      (case cut (CHR '':'') userinfo of (username, password) \<Rightarrow>
         unescape encodeUserPassword username \<noteq> None \<and> unescape encodeUserPassword password \<noteq> None))"

definition parseAuthority :: "bytes \<Rightarrow> bytes \<Rightarrow> bytes option" where
  "parseAuthority scheme authority =
     (case cut_last (CHR ''@'') authority of
        None \<Rightarrow> parseHost scheme authority
      | Some (userinfo, host) \<Rightarrow>
          (case parseHost scheme host of
             None \<Rightarrow> None
           | Some h \<Rightarrow> if userinfo_ok userinfo then Some h else None))"

subsection \<open>url.Parse\<close>

record URL =
  u_Scheme :: bytes
  u_Host :: bytes
  u_Path :: bytes
  u_RawQuery :: bytes
  u_Fragment :: bytes

definition scheme_byte :: "char \<Rightarrow> bool" where
  "scheme_byte c = (is_letter c \<or> is_digit c \<or> c \<in> set ''+-.'')"

definition getScheme :: "bytes \<Rightarrow> (bytes \<times> bytes) option" where
  "getScheme rawURL =
     (let p = takeWhile scheme_byte rawURL in
      case dropWhile scheme_byte rawURL of
        [] \<Rightarrow> Some ([], rawURL)
      | c # t \<Rightarrow>
          if c \<noteq> CHR '':'' then Some ([], rawURL)
          else if p = [] then None
          else if is_letter (hd p) then Some (p, t)
          else Some ([], rawURL))"

definition is_ctl :: "char \<Rightarrow> bool" where
  "is_ctl c = (code c < 32 \<or> code c = 127)"

text \<open>
  The part of the text after the scheme and before the query. \<open>None\<close> of the inner option is a rootless
  path, which \<open>Parse\<close> keeps as \<open>Opaque\<close>.
\<close>

definition parse_rest :: "bytes \<Rightarrow> bytes \<Rightarrow> bytes \<Rightarrow> URL option" where
  "parse_rest scheme rest query =
     (let base = \<lparr>u_Scheme = scheme, u_Host = [], u_Path = [], u_RawQuery = query, u_Fragment = []\<rparr> in
      if \<not> HasPrefix rest ''/'' \<and> scheme \<noteq> [] then Some base
      else if \<not> HasPrefix rest ''/'' \<and> CHR '':'' \<in> set (takeWhile (\<lambda>c. c \<noteq> CHR ''/'') rest) then None
      else if (scheme \<noteq> [] \<or> \<not> HasPrefix rest ''///'') \<and> HasPrefix rest ''//'' then
        (let authority = takeWhile (\<lambda>c. c \<noteq> CHR ''/'') (drop 2 rest);
             path = dropWhile (\<lambda>c. c \<noteq> CHR ''/'') (drop 2 rest)
         in case parseAuthority scheme authority of
              None \<Rightarrow> None
            | Some host \<Rightarrow>
                map_option (\<lambda>p. base\<lparr>u_Host := host, u_Path := p\<rparr>) (unescape encodePath path))
      else map_option (\<lambda>p. base\<lparr>u_Path := p\<rparr>) (unescape encodePath rest))"

definition parse_nofrag :: "bytes \<Rightarrow> URL option" where
  "parse_nofrag rawURL =
     (if list_ex is_ctl rawURL then None
      else if rawURL = ''*'' then
        Some \<lparr>u_Scheme = [], u_Host = [], u_Path = ''*'', u_RawQuery = [], u_Fragment = []\<rparr>
      else
        (case getScheme rawURL of
           None \<Rightarrow> None
         | Some (scheme, rest) \<Rightarrow>
             (case cut (CHR ''?'') rest of (rest1, query) \<Rightarrow> parse_rest (map to_lower scheme) rest1 query)))"

definition url_Parse :: "bytes \<Rightarrow> URL option" where
  "url_Parse rawURL =
     (case cut (CHR ''#'') rawURL of (u, frag) \<Rightarrow>
      case parse_nofrag u of
        None \<Rightarrow> None
      | Some url \<Rightarrow> map_option (\<lambda>f. url\<lparr>u_Fragment := f\<rparr>) (unescape encodeFragment frag))"

subsection \<open>Plain origins\<close>

text \<open>
  A host in plain form: only bytes that need no escape, no brackets, and at most one colon, which a
  decimal port follows. An origin in plain form parses to its scheme and its host, and an origin with
  a trailing slash to the path \<open>/\<close>.
\<close>

definition plain_host :: "bytes \<Rightarrow> bool" where
  "plain_host host =
     (host \<noteq> [] \<and> list_all (\<lambda>c. is_letter c \<or> is_digit c \<or> c \<in> set ''-_.~:'') host \<and>
      validOptionalPort (dropWhile (\<lambda>c. c \<noteq> CHR '':'') host))"

lemma plain_host_bytes:
  assumes "plain_host host"
  shows "\<forall>c \<in> set host. host_byte c \<and> \<not> is_ctl c \<and> c \<notin> set ''%#?/@[]''"
proof
  fix c assume "c \<in> set host"
  with assms have "is_letter c \<or> is_digit c \<or> c \<in> set ''-_.~:''" by (auto simp: plain_host_def list_all_iff)
  then show "host_byte c \<and> \<not> is_ctl c \<and> c \<notin> set ''%#?/@[]''"
    by (auto simp: host_byte_def is_ctl_def is_letter_def is_digit_def)
qed

lemma parseHost_plain:
  assumes "plain_host host" and "scheme = ''http'' \<or> scheme = ''https''"
  shows "parseAuthority scheme host = Some host"
proof -
  note bytes = plain_host_bytes [OF assms(1)]
  have "CHR ''['' \<notin> set host" and "CHR ''@'' \<notin> set host" using bytes by auto
  moreover have "unescape encodeHost host = Some host"
    using bytes by (intro unescape_plain) (auto simp: plain_ok_def)
  moreover have "validOptionalPort (host_port scheme host)"
    using assms by (auto simp: host_port_def plain_host_def validOptionalPort_def)
  ultimately show ?thesis by (simp add: parseAuthority_def parseHost_def cut_last_absent)
qed

lemma getScheme_web:
  assumes "scheme = ''http'' \<or> scheme = ''https''"
  shows "getScheme (scheme @ CHR '':'' # rest) = Some (scheme, rest)" and "map to_lower scheme = scheme"
  using assms by (auto simp: getScheme_def scheme_byte_def is_letter_def is_digit_def to_lower_def)

lemma url_Parse_plain:
  assumes "plain_host host" and "scheme = ''http'' \<or> scheme = ''https''" and "path = [] \<or> path = ''/''"
  shows "url_Parse (scheme @ ''://'' @ host @ path) =
           Some \<lparr>u_Scheme = scheme, u_Host = host, u_Path = path, u_RawQuery = [], u_Fragment = []\<rparr>"
    (is "url_Parse ?raw = Some ?url")
proof -
  note bytes = plain_host_bytes [OF assms(1)]
  let ?rest = "''//'' @ host @ path"
  have raw: "?raw = scheme @ CHR '':'' # ?rest" by simp
  have ends: "\<forall>c \<in> set scheme \<union> set path \<union> set '':/''. c \<notin> set ''#?*'' \<and> \<not> is_ctl c"
    using assms(2,3) by (auto simp: is_ctl_def)
  have no: "c \<in> set ''%#?/@[]'' \<Longrightarrow> c \<notin> set host" for c using bytes by blast
  have marks: "CHR ''#'' \<notin> set host" "CHR ''?'' \<notin> set host" "CHR ''/'' \<notin> set host"
    by (rule no, simp)+
  have "list_all (\<lambda>c. \<not> is_ctl c) ?raw"
    using ends bytes by (simp add: list_all_iff ball_Un)
  then have ctl: "\<not> list_ex is_ctl ?raw" by (simp add: list_all_iff list_ex_iff)
  have "CHR ''#'' \<notin> set scheme \<union> set path \<union> set '':/''" "CHR ''?'' \<notin> set path \<union> set ''/''"
    using assms(2,3) by auto
  with marks have clean: "CHR ''#'' \<notin> set ?raw" "CHR ''?'' \<notin> set ?rest" by simp_all
  have star: "?raw \<noteq> ''*''" using assms(2) by auto
  have slash: "takeWhile (\<lambda>c. c \<noteq> CHR ''/'') (host @ path) = host"
    "dropWhile (\<lambda>c. c \<noteq> CHR ''/'') (host @ path) = path"
    using marks(3) assms(3) by (elim disjE, simp_all add: skip_absent)+
  have path: "unescape encodePath path = Some path"
    using assms(3) by (auto simp: plain_ok_def)
  have "parse_rest scheme ?rest [] = Some ?url"
    using assms(2) slash path parseHost_plain [OF assms(1,2)]
    by (elim disjE) (simp_all add: parse_rest_def HasPrefix_def)
  then have "parse_nofrag ?raw = Some ?url"
    using getScheme_web [OF assms(2)] ctl star cut_absent [OF clean(2)]
    unfolding parse_nofrag_def raw by simp
  with clean(1) show ?thesis by (simp add: url_Parse_def cut_absent)
qed

subsection \<open>Query parameters\<close>

text \<open>\<open>URL.Query().Get(key)\<close>: the first well-formed value of the key, empty when there is none.\<close>

definition query_pair :: "bytes \<Rightarrow> (bytes \<times> bytes) option" where
  "query_pair part =
     (if CHR '';'' \<in> set part \<or> part = [] then None
      else
        (case cut (CHR ''='') part of (key, value) \<Rightarrow>
         case (unescape encodeQueryComponent key, unescape encodeQueryComponent value) of
           (Some k, Some v) \<Rightarrow> Some (k, v)
         | _ \<Rightarrow> None))"

definition defaultMaxParams :: nat where "defaultMaxParams = 10000"

definition ParseQuery :: "bytes \<Rightarrow> (bytes \<times> bytes) list" where
  "ParseQuery query =
     (let parts = SplitByte (CHR ''&'') query in
      if defaultMaxParams < length parts then [] else List.map_filter query_pair parts)"

definition Query_Get :: "bytes \<Rightarrow> bytes \<Rightarrow> bytes" where
  "Query_Get query key = (case map_of (ParseQuery query) key of None \<Rightarrow> [] | Some v \<Rightarrow> v)"

subsection \<open>net.SplitHostPort\<close>

text \<open>The host and the port, or the reason of the \<open>AddrError\<close>.\<close>

definition SplitHostPort :: "bytes \<Rightarrow> goerror + bytes \<times> bytes" where
  "SplitHostPort hostport =
     (case cut_last (CHR '':'') hostport of
        None \<Rightarrow> Inl ''missing port in address''
      | Some (before, port) \<Rightarrow>
          if HasPrefix hostport ''['' then
            (if CHR '']'' \<notin> set hostport then Inl ''missing ']' in address''
             else
               (case cut (CHR '']'') hostport of (opening, after) \<Rightarrow>
                if after = [] then Inl ''missing port in address''
                else if length opening + 1 = length before then
                  (if CHR ''['' \<in> set (drop 1 hostport) then Inl ''unexpected '[' in address''
                   else if CHR '']'' \<in> set after then Inl ''unexpected ']' in address''
                   else Inr (drop 1 opening, port))
                else if hd after = CHR '':'' then Inl ''too many colons in address''
                else Inl ''missing port in address''))
          else if CHR '':'' \<in> set before then Inl ''too many colons in address''
          else if CHR ''['' \<in> set hostport then Inl ''unexpected '[' in address''
          else if CHR '']'' \<in> set hostport then Inl ''unexpected ']' in address''
          else Inr (before, port))"

end
