(* ===== verification/HttpApi.thy ===== *)
theory HttpApi
  imports Steps GoUrl
begin

text \<open>
  The HTTP boundary (\<open>internal/httpapi\<close>): readiness, the router, the authenticators, and the guarded
  upgrade of a request to a WebSocket session. The boundary's own state is the readiness flag and the
  admission semaphore; counters, log and random bytes belong to the \<open>world\<close>. The gorilla library is
  third-party: its two functions are parameters (\<open>gorilla\<close>), and so is the answer of the NATS
  connection when readiness asks for it.
\<close>

subsection \<open>Requests and responses\<close>

text \<open>A request as the handler sees it; header keys are in canonical form.\<close>

record Request =
  rq_Method :: bytes
  rq_Path :: bytes
  rq_RawQuery :: bytes
  rq_Header :: "(bytes \<times> bytes list) list"
  rq_RemoteAddr :: bytes

definition Header_Get :: "bytes \<Rightarrow> Request \<Rightarrow> bytes" where
  "Header_Get key request = (case map_of (rq_Header request) key of Some (v # _) \<Rightarrow> v | _ \<Rightarrow> [])"

record Response =
  rs_Status :: nat
  rs_ContentType :: bytes
  rs_Body :: bytes

abbreviation StatusOK :: nat where "StatusOK \<equiv> 200"
abbreviation StatusUnauthorized :: nat where "StatusUnauthorized \<equiv> 401"
abbreviation StatusForbidden :: nat where "StatusForbidden \<equiv> 403"
abbreviation StatusUpgradeRequired :: nat where "StatusUpgradeRequired \<equiv> 426"
abbreviation StatusServiceUnavailable :: nat where "StatusServiceUnavailable \<equiv> 503"

text \<open>The encoder ends the object with a newline.\<close>

definition writeStatus :: "nat \<Rightarrow> bytes \<Rightarrow> Response" where
  "writeStatus status state =
     \<lparr>rs_Status = status, rs_ContentType = ''application/json'',
      rs_Body = render (JObj [str_member ''status'' state]) @ [byte 10]\<rparr>"

subsection \<open>Readiness\<close>

text \<open>\<open>he_checker\<close> is the broker whose \<open>Ready\<close> method \<open>SetChecker\<close> installed.\<close>

record Health =
  he_ready :: bool
  he_checker :: "bref option"

definition NewHealth :: Health where
  "NewHealth = \<lparr>he_ready = False, he_checker = None\<rparr>"

definition SetReady :: "bool \<Rightarrow> Health \<Rightarrow> Health" where
  "SetReady ready h = h\<lparr>he_ready := ready\<rparr>"

definition SetChecker :: "bref \<Rightarrow> Health \<Rightarrow> Health" where
  "SetChecker f h = h\<lparr>he_checker := Some f\<rparr>"

definition broker_Ready :: "bool \<Rightarrow> broker_impl \<Rightarrow> bool" where
  "broker_Ready isConnected b = (case b of Mem mb \<Rightarrow> mem_Ready mb | Nats nb \<Rightarrow> nats_Ready isConnected nb)"

definition Ready :: "bool \<Rightarrow> world \<Rightarrow> Health \<Rightarrow> bool" where
  "Ready isConnected w h =
     (if \<not> he_ready h then False
      else (case he_checker h of Some b \<Rightarrow> broker_Ready isConnected (w_brokers w b) | None \<Rightarrow> True))"

subsection \<open>Authentication\<close>

record Principal =
  pr_UserID :: bytes

datatype auth_error = ErrMissingIdentity | ErrProductionAuthenticatorUnavailable | OtherAuthError goerror

type_synonym Authenticator = "Request \<Rightarrow> auth_error + Principal"

definition DevelopmentAuthenticator :: Authenticator where
  "DevelopmentAuthenticator request =
     (let userID = TrimSpace (Query_Get (rq_RawQuery request) ''user_id'') in
      if userID = [] then Inl ErrMissingIdentity else Inr \<lparr>pr_UserID = userID\<rparr>)"

definition RejectingAuthenticator :: Authenticator where
  "RejectingAuthenticator request = Inl ErrProductionAuthenticatorUnavailable"

subsection \<open>The handler\<close>

record Session =
  se_ConnectionID :: bytes
  se_UserID :: bytes

record WebSocketOptions =
  wo_Authenticator :: Authenticator
  wo_AllowedOrigins :: "bytes list"
  wo_MaxConnections :: int

record webSocketHandler =
  wh_authenticator :: Authenticator
  wh_allowedOrigins :: "(bytes, unit) gomap"

text \<open>The mutable state behind the handler.\<close>

record boundary =
  bd_health :: Health
  bd_admission :: "unit chan"
  bd_world :: world

text \<open>\<open>make(chan struct{}, n)\<close> panics for a negative \<open>n\<close>: \<open>None\<close>.\<close>

definition NewWebSocketHandler :: "WebSocketOptions \<Rightarrow> (webSocketHandler \<times> unit chan) option" where
  "NewWebSocketHandler options =
     (if wo_MaxConnections options < 0 then None
      else
        Some (\<lparr>wh_authenticator = wo_Authenticator options,
               wh_allowedOrigins = fold (\<lambda>origin. mset_key origin ()) (wo_AllowedOrigins options) []\<rparr>,
              make_chan (nat (wo_MaxConnections options))))"

definition checkOrigin :: "webSocketHandler \<Rightarrow> Request \<Rightarrow> bool" where
  "checkOrigin h request =
     (let origin = TrimSpace (Header_Get ''Origin'' request) in
      if origin = [] then True
      else
        (case url_Parse origin of
           None \<Rightarrow> False
         | Some parsed \<Rightarrow>
             if (u_Scheme parsed \<noteq> ''http'' \<and> u_Scheme parsed \<noteq> ''https'') \<or> u_Host parsed = [] \<or>
                (u_Path parsed \<noteq> [] \<and> u_Path parsed \<noteq> ''/'') \<or> u_RawQuery parsed \<noteq> [] \<or> u_Fragment parsed \<noteq> []
             then False
             else mget (wh_allowedOrigins h) (u_Scheme parsed @ ''://'' @ u_Host parsed) \<noteq> None))"

definition on_world :: "(world \<Rightarrow> world) \<Rightarrow> boundary \<Rightarrow> boundary" where
  "on_world f s = s\<lparr>bd_world := f (bd_world s)\<rparr>"

definition reject :: "Request \<Rightarrow> nat \<Rightarrow> bytes \<Rightarrow> boundary \<Rightarrow> Response \<times> boundary" where
  "reject request status reason s =
     (writeStatus status reason,
      on_world (\<lambda>w. logged Info ''websocket_upgrade_rejected''
                      [(''reason'', LStr reason), (''remote_address'', LStr (rq_RemoteAddr request)),
                       (''origin'', LStr (Header_Get ''Origin'' request))]
                      (metric IncrementUpgradesRejected w)) s)"

definition newConnectionID :: "bytes option \<Rightarrow> bytes option" where
  "newConnectionID rand = map_option (\<lambda>value. ''conn_'' @ hex_EncodeToString value) rand"

text \<open>\<open>websocket.IsWebSocketUpgrade\<close> and \<open>Upgrader.Upgrade\<close>, which is handed the origin check.\<close>

record gorilla =
  IsWebSocketUpgrade :: "Request \<Rightarrow> bool"
  Upgrade :: "(Request \<Rightarrow> bool) \<Rightarrow> Request \<Rightarrow> socket option"

text \<open>
  What becomes of a request before the session handler runs: a JSON refusal, a failed upgrade (the
  library has answered), a socket closed for want of an identifier, or an accepted session.
\<close>

datatype outcome = Refused Response | UpgradeFailed | NoConnectionID socket | Accepted socket Session

definition release :: "boundary \<Rightarrow> boundary" where
  "release s = (case try_recv (bd_admission s) of None \<Rightarrow> s | Some (_, ch) \<Rightarrow> s\<lparr>bd_admission := ch\<rparr>)"

text \<open>From the acquired admission slot to the handoff; the deferred receive returns the slot unless the session starts.\<close>

definition upgrade :: "gorilla \<Rightarrow> webSocketHandler \<Rightarrow> Request \<Rightarrow> Principal \<Rightarrow> boundary \<Rightarrow> outcome \<times> boundary" where
  "upgrade g h request who s =
     (case Upgrade g (checkOrigin h) request of
        None \<Rightarrow>
          (UpgradeFailed,
           release (on_world (\<lambda>w. logged Info ''websocket_upgrade_rejected''
                                    [(''reason'', LStr ''upgrade_failed''), (''error'', LErr)]
                                    (metric IncrementUpgradesRejected w)) s))
      | Some connection \<Rightarrow>
          (case draw_rand (bd_world s) of (rand, w1) \<Rightarrow>
           case newConnectionID rand of
             None \<Rightarrow>
               (NoConnectionID (connection\<lparr>so_closed := True\<rparr>),
                release (s\<lparr>bd_world := logged Error ''websocket_connection_id_failed'' [(''error'', LErr)]
                                         (metric IncrementUpgradesRejected w1)\<rparr>))
           | Some connectionID \<Rightarrow>
               (Accepted connection \<lparr>se_ConnectionID = connectionID, se_UserID = pr_UserID who\<rparr>,
                s\<lparr>bd_world := logged Info ''websocket_upgrade_accepted''
                                [(''connection_id'', LStr connectionID), (''user_id'', LStr (pr_UserID who)),
                                 (''remote_address'', LStr (rq_RemoteAddr request))] w1\<rparr>)))"

definition refused :: "Response \<times> boundary \<Rightarrow> outcome \<times> boundary" where
  "refused r = (Refused (fst r), snd r)"

text \<open>\<open>ServeHTTP\<close> up to the call of the session handler.\<close>

definition ServeHTTP_admit ::
    "gorilla \<Rightarrow> bool \<Rightarrow> webSocketHandler \<Rightarrow> Request \<Rightarrow> boundary \<Rightarrow> outcome \<times> boundary" where
  "ServeHTTP_admit g isConnected h request s0 =
     (let s = on_world (metric IncrementUpgradesAttempted) s0 in
      if \<not> Ready isConnected (bd_world s) (bd_health s) then
        refused (reject request StatusServiceUnavailable ''not_ready'' s)
      else if \<not> IsWebSocketUpgrade g request then
        refused (reject request StatusUpgradeRequired ''upgrade_required'' s)
      else if \<not> checkOrigin h request then refused (reject request StatusForbidden ''origin_rejected'' s)
      else
        (case wh_authenticator h request of
           Inl err \<Rightarrow> refused (reject request StatusUnauthorized ''authentication_rejected'' s)
         | Inr who \<Rightarrow>
             (case try_send () (bd_admission s) of
                (False, _) \<Rightarrow> refused (reject request StatusServiceUnavailable ''connection_limit'' s)
              | (True, ch) \<Rightarrow> upgrade g h request who (s\<lparr>bd_admission := ch\<rparr>))))"

text \<open>
  The whole handler, with the session handler's run \<open>handle\<close>; an accepted request answers nothing more,
  its connection has been hijacked.
\<close>

definition ServeHTTP ::
    "gorilla \<Rightarrow> bool \<Rightarrow> (socket \<Rightarrow> Session \<Rightarrow> world \<Rightarrow> world) \<Rightarrow> webSocketHandler \<Rightarrow> Request \<Rightarrow> boundary \<Rightarrow>
     Response option \<times> boundary" where
  "ServeHTTP g isConnected handle h request s =
     (case ServeHTTP_admit g isConnected h request s of
        (Refused response, s1) \<Rightarrow> (Some response, s1)
      | (Accepted connection session, s1) \<Rightarrow> (None, release (on_world (handle connection session) s1))
      | (_, s1) \<Rightarrow> (None, s1))"

subsection \<open>The router\<close>

text \<open>
  The routes \<open>Router\<close> registers, for a request whose path is in clean form (the multiplexer redirects
  any other path to its clean form). A \<open>GET\<close> pattern also serves \<open>HEAD\<close>; a registered path with
  another method is refused with 405. \<open>ToWebSocket\<close> hands the request to the supplied handler.
\<close>

datatype routed = Respond Response | MetricsBody MetricsSnapshot | ToWebSocket | MethodNotAllowed | NotFound

definition handlers :: "bool \<Rightarrow> bool \<Rightarrow> boundary \<Rightarrow> (bytes \<times> routed) list" where
  "handlers hasWebSocket isConnected s =
     [(''/healthz'', Respond (writeStatus StatusOK ''ok'')),
      (''/readyz'', Respond (if \<not> Ready isConnected (bd_world s) (bd_health s)
                             then writeStatus StatusServiceUnavailable ''not_ready''
                             else writeStatus StatusOK ''ready'')),
      (''/metrics'', MetricsBody (Snapshot_metrics (w_metrics (bd_world s))))] @
     (if hasWebSocket then [(''/ws'', ToWebSocket)] else [])"

definition Router :: "bool \<Rightarrow> bool \<Rightarrow> Request \<Rightarrow> boundary \<Rightarrow> routed" where
  "Router hasWebSocket isConnected request s =
     (case map_of (handlers hasWebSocket isConnected s) (rq_Path request) of
        None \<Rightarrow> NotFound
      | Some r \<Rightarrow> if rq_Method request = ''GET'' \<or> rq_Method request = ''HEAD'' then r else MethodNotAllowed)"

end
