(* ===== verification/GoDuration.thy ===== *)
theory GoDuration
  imports GoText Float64
begin

text \<open>
  \<open>time.ParseDuration\<close>: a \<open>Duration\<close> is a signed 64-bit number of nanoseconds. The integer parts are
  \<open>uint64\<close> with the overflow tests of the source, the sum over the units wraps around, and fractions
  are computed in float64. \<open>None\<close> is the error. Main facts: the result is in range, and a whole number
  of one unit means what it says.
\<close>

subsection \<open>Numbers\<close>

fun leadingInt :: "nat \<Rightarrow> bytes \<Rightarrow> (nat \<times> bytes) option" where
  "leadingInt x [] = Some (x, [])"
| "leadingInt x (c # s) =
     (if \<not> is_digit c then Some (x, c # s)
      else if 2 ^ 63 div 10 < x then None
      else if 2 ^ 63 < x * 10 + digit_val c then None
      else leadingInt (x * 10 + digit_val c) s)"

text \<open>After an overflow the remaining digits of a fraction are skipped.\<close>

fun leadingFraction :: "nat \<Rightarrow> real \<Rightarrow> bool \<Rightarrow> bytes \<Rightarrow> nat \<times> real \<times> bytes" where
  "leadingFraction x scale overflow [] = (x, scale, [])"
| "leadingFraction x scale overflow (c # s) =
     (if \<not> is_digit c then (x, scale, c # s)
      else if overflow \<or> (2 ^ 63 - 1) div 10 < x \<or> 2 ^ 63 < x * 10 + digit_val c
      then leadingFraction x scale True s
      else leadingFraction (x * 10 + digit_val c) (f64 (scale * 10)) False s)"

lemma leadingInt_length: "leadingInt x s = Some (y, r) \<Longrightarrow> length r \<le> length s"
  by (induction x s rule: leadingInt.induct) (auto split: if_splits)

lemma leadingFraction_length: "leadingFraction x scale ov s = (y, scale', r) \<Longrightarrow> length r \<le> length s"
  by (induction x scale ov s rule: leadingFraction.induct) (auto split: if_splits)

subsection \<open>Durations\<close>

definition unitMap :: "(bytes \<times> nat) list" where
  "unitMap =
     [(''ns'', 1), (''us'', 1000), ([byte 194, byte 181, CHR ''s''], 1000), ([byte 206, byte 188, CHR ''s''], 1000),
      (''ms'', 1000000), (''s'', 1000000000), (''m'', 60 * 1000000000), (''h'', 3600 * 1000000000)]"

definition number_byte :: "char \<Rightarrow> bool" where
  "number_byte c = (c = CHR ''.'' \<or> is_digit c)"

text \<open>One number with its unit: its value in nanoseconds and the remaining text.\<close>

definition duration_term :: "bytes \<Rightarrow> (nat \<times> bytes) option" where
  "duration_term s =
     (if s = [] \<or> \<not> number_byte (hd s) then None
      else
        (case leadingInt 0 s of
           None \<Rightarrow> None
         | Some (v, s1) \<Rightarrow>
             (case (if s1 \<noteq> [] \<and> hd s1 = CHR ''.'' then leadingFraction 0 1 False (tl s1) else (0, 1, s1)) of
                (f, scale, s2) \<Rightarrow>
                  (let pre = (length s1 \<noteq> length s);
                       post = (s1 \<noteq> [] \<and> hd s1 = CHR ''.'' \<and> length s2 \<noteq> length (tl s1));
                       u = takeWhile (\<lambda>c. \<not> number_byte c) s2
                   in if \<not> pre \<and> \<not> post \<or> u = [] then None
                      else
                        (case map_of unitMap u of
                           None \<Rightarrow> None
                         | Some unit \<Rightarrow>
                             if 2 ^ 63 div unit < v then None
                             else
                               (let v1 = v * unit + (if 0 < f then nat \<lfloor>f64 (of_nat f * f64 (of_nat unit / scale))\<rfloor> else 0)
                                in if 2 ^ 63 < v1 then None
                                   else Some (v1, dropWhile (\<lambda>c. \<not> number_byte c) s2)))))))"

lemma duration_term_shorter: "duration_term s = Some (v, r) \<Longrightarrow> length r < length s"
proof -
  assume parsed: "duration_term s = Some (v, r)"
  then obtain n s1 where s1: "leadingInt 0 s = Some (n, s1)"
    by (auto simp: duration_term_def split: if_splits option.splits)
  obtain f scale s2 where
    s2: "(if s1 \<noteq> [] \<and> hd s1 = CHR ''.'' then leadingFraction 0 1 False (tl s1) else (0, 1, s1)) = (f, scale, s2)"
    by (metis prod_cases3)
  have "length s2 \<le> length s1"
    using s2 leadingFraction_length [of 0 1 False "tl s1"] by (fastforce split: if_splits)
  moreover have "length s1 \<le> length s" by (rule leadingInt_length [OF s1])
  moreover from parsed s1 s2 have "length r = length (dropWhile (\<lambda>c. \<not> number_byte c) s2)"
    and "takeWhile (\<lambda>c. \<not> number_byte c) s2 \<noteq> []"
    by (auto simp: duration_term_def Let_def split: if_splits option.splits)
  moreover have "length (takeWhile (\<lambda>c. \<not> number_byte c) s2) + length (dropWhile (\<lambda>c. \<not> number_byte c) s2) = length s2"
    by (simp flip: length_append)
  moreover have "0 < length (takeWhile (\<lambda>c. \<not> number_byte c) s2)" using calculation by blast
  ultimately show ?thesis by linarith
qed

function duration_sum :: "nat \<Rightarrow> bytes \<Rightarrow> nat option" where
  "duration_sum d s =
     (if s = [] then Some d
      else
        (case duration_term s of
           None \<Rightarrow> None
         | Some (v, r) \<Rightarrow> (let d1 = (d + v) mod 2 ^ 64 in if 2 ^ 63 < d1 then None else duration_sum d1 r)))"
  by pat_completeness auto
termination by (relation "measure (\<lambda>(d, s). length s)") (auto dest: duration_term_shorter)

declare duration_sum.simps [simp del]

definition ParseDuration :: "bytes \<Rightarrow> int option" where
  "ParseDuration orig =
     (let signed = (orig \<noteq> [] \<and> (hd orig = CHR ''-'' \<or> hd orig = CHR ''+''));
          neg = (orig \<noteq> [] \<and> hd orig = CHR ''-'');
          s = (if signed then tl orig else orig)
      in if s = ''0'' then Some 0
         else if s = [] then None
         else
           (case duration_sum 0 s of
              None \<Rightarrow> None
            | Some d \<Rightarrow> if neg then Some (- int d) else if 2 ^ 63 \<le> d then None else Some (int d)))"

subsection \<open>Range and meaning\<close>

lemma duration_sum_bound: "duration_sum d s = Some e \<Longrightarrow> d \<le> 2 ^ 63 \<Longrightarrow> e \<le> 2 ^ 63"
proof (induction d s rule: duration_sum.induct)
  case (1 d s)
  then show ?case
    by (subst (asm) (2) duration_sum.simps) (auto simp: Let_def split: if_splits option.splits prod.splits)
qed

lemma ParseDuration_range: "ParseDuration s = Some d \<Longrightarrow> - (2 ^ 63) \<le> d \<and> d < 2 ^ 63"
proof -
  assume "ParseDuration s = Some d"
  then consider "d = 0" | k t where "duration_sum 0 t = Some k" "d = - int k \<or> d = int k \<and> k < 2 ^ 63"
    by (auto simp: ParseDuration_def Let_def not_le split: if_splits option.splits)
  then show ?thesis
  proof cases
    case 2
    then have "k \<le> 2 ^ 63" using duration_sum_bound by simp
    then have "int k \<le> 2 ^ 63" by (simp add: int_ops)
    with 2 show ?thesis by auto
  qed simp
qed

fun decimal :: "nat \<Rightarrow> bytes" where
  "decimal n = (if n < 10 then [byte (48 + n)] else decimal (n div 10) @ [byte (48 + n mod 10)])"

declare decimal.simps [simp del]

lemma digit_byte: "n < 10 \<Longrightarrow> is_digit (byte (48 + n)) \<and> digit_val (byte (48 + n)) = n"
  by (simp add: is_digit_def digit_val_def of_char_of)

lemma decimal_digits: "list_all is_digit (decimal n)"
proof (induction n rule: decimal.induct)
  case (1 n)
  then show ?case by (subst decimal.simps) (simp add: digit_byte)
qed

lemma decimal_not_Nil [simp]: "decimal n \<noteq> []"
  by (subst decimal.simps) simp

lemma leadingInt_skip:
  assumes "list_all is_digit ds" and "foldl (\<lambda>n c. n * 10 + digit_val c) x ds \<le> 2 ^ 63"
  shows "leadingInt x (ds @ r) = leadingInt (foldl (\<lambda>n c. n * 10 + digit_val c) x ds) r"
  using assms
proof (induction ds arbitrary: x)
  case (Cons c ds)
  have grow: "y \<le> foldl (\<lambda>n c. n * 10 + digit_val c) y zs" for y zs
    
  proof (induction zs arbitrary: y)
    case (Cons d zs)
    from Cons [of "y * 10 + digit_val d"] show ?case by simp
  qed simp
  from Cons.prems(2) grow [of "x * 10 + digit_val c" ds] have "x * 10 + digit_val c \<le> 2 ^ 63" by simp
  moreover from this have "x \<le> 2 ^ 63 div 10" by (simp add: less_eq_div_iff_mult_less_eq)
  ultimately show ?case using Cons by simp
qed simp

lemma decimal_value: "foldl (\<lambda>n c. n * 10 + digit_val c) 0 (decimal n) = n"
proof (induction n rule: decimal.induct)
  case (1 n)
  then show ?case by (subst decimal.simps) (simp add: digit_byte)
qed

lemma ParseDuration_whole:
  assumes "map_of unitMap u = Some unit" and "0 < unit" and "n \<le> (2 ^ 63 - 1) div unit"
    and "list_all (\<lambda>c. \<not> number_byte c) u" and "u \<noteq> []"
  shows "ParseDuration (decimal n @ u) = Some (int (n * unit))"
proof -
  have le: "n * unit \<le> 2 ^ 63 - 1" using assms(2,3) by (simp add: less_eq_div_iff_mult_less_eq)
  have "n \<le> n * unit" using assms(2) by simp
  with le have n: "n \<le> 2 ^ 63" by linarith
  have u: "takeWhile (\<lambda>c. \<not> number_byte c) u = u" "dropWhile (\<lambda>c. \<not> number_byte c) u = []"
    "\<not> is_digit (hd u)" "hd u \<noteq> CHR ''.''"
    using assms(4,5) by (auto simp: list_all_iff number_byte_def takeWhile_eq_all_conv)
  have lead: "leadingInt 0 (decimal n @ u) = Some (n, u)"
    using leadingInt_skip [OF decimal_digits, of 0 n u] decimal_value [of n] n u(3) assms(5)
    by (cases u) simp_all
  have digits: "is_digit (hd (decimal n))"
    using decimal_digits [of n] by (cases "decimal n") simp_all
  then have "number_byte (hd (decimal n @ u))" by (simp add: number_byte_def)
  moreover have "n \<le> 2 ^ 63 div unit" using assms(3) by (meson diff_le_self div_le_mono order_trans)
  ultimately have "duration_term (decimal n @ u) = Some (n * unit, [])"
    using lead u(3,4) assms(1,5) le by (simp add: duration_term_def Let_def u(1,2))
  then have "duration_sum 0 (decimal n @ u) = Some (n * unit)"
    using le by (subst duration_sum.simps) (simp add: duration_sum.simps)
  moreover have "hd (decimal n @ u) \<noteq> CHR ''-''" "hd (decimal n @ u) \<noteq> CHR ''+''"
    using digits by (auto simp: is_digit_def)
  moreover have "decimal n @ u \<noteq> ''0''"
  proof
    assume "decimal n @ u = ''0''"
    then have "u = []" by (cases "decimal n") auto
    with assms(5) show False by simp
  qed
  ultimately show ?thesis using le by (simp add: ParseDuration_def Let_def)
qed

end
