(* ===== verification/Config.thy ===== *)
theory Config
  imports GoUrl GoDuration
begin

text \<open>
  Process settings (\<open>internal/config/config.go\<close>): reading them from the environment, their defaults,
  and the validation that every loaded configuration has passed. The environment is the lookup
  function the source takes. An error is a constructor with what the message names; the texts of
  wrapped library errors are left out.
\<close>

subsection \<open>Data\<close>

record Config =
  cf_Environment :: bytes
  cf_HTTPAddress :: bytes
  cf_ReadHeader :: int
  cf_ReadTimeout :: int
  cf_WriteTimeout :: int
  cf_IdleTimeout :: int
  cf_ShutdownTimeout :: int
  cf_AllowedOrigins :: "bytes list"
  cf_MaxConnections :: int
  cf_OutboundQueueCapacity :: int
  cf_WebSocketReadTimeout :: int
  cf_WebSocketWriteTimeout :: int
  cf_WebSocketMaxMessageSize :: int
  cf_RateLimitMessages :: int
  cf_RateLimitInterval :: int
  cf_MaxRoomsPerClient :: int
  cf_BrokerURL :: bytes
  cf_NodeID :: bytes

type_synonym lookup_fn = "bytes \<Rightarrow> bytes option"

abbreviation seconds :: "int \<Rightarrow> int" where "seconds n \<equiv> n * 1000000000"

abbreviation defaultEnvironment :: bytes where "defaultEnvironment \<equiv> ''development''"
abbreviation defaultHTTPAddress :: bytes where "defaultHTTPAddress \<equiv> '':8080''"
abbreviation defaultReadHeader :: int where "defaultReadHeader \<equiv> seconds 5"
abbreviation defaultReadTimeout :: int where "defaultReadTimeout \<equiv> seconds 15"
abbreviation defaultWriteTimeout :: int where "defaultWriteTimeout \<equiv> seconds 15"
abbreviation defaultIdleTimeout :: int where "defaultIdleTimeout \<equiv> seconds 60"
abbreviation defaultShutdownTimeout :: int where "defaultShutdownTimeout \<equiv> seconds 10"
abbreviation defaultMaxConnections :: int where "defaultMaxConnections \<equiv> 1000"
abbreviation defaultOutboundQueue :: int where "defaultOutboundQueue \<equiv> 64"
abbreviation defaultWSReadTimeout :: int where "defaultWSReadTimeout \<equiv> seconds 60"
abbreviation defaultWSWriteTimeout :: int where "defaultWSWriteTimeout \<equiv> seconds 10"
abbreviation defaultWSMaxMsgSize :: int where "defaultWSMaxMsgSize \<equiv> 4096"
abbreviation defaultRateLimitMsgs :: int where "defaultRateLimitMsgs \<equiv> 100"
abbreviation defaultRateLimitInt :: int where "defaultRateLimitInt \<equiv> seconds 60"
abbreviation defaultMaxRoomsPerClient :: int where "defaultMaxRoomsPerClient \<equiv> 10"

definition defaultDevelopmentOrigins :: "bytes list" where
  "defaultDevelopmentOrigins = [''http://localhost:3000'', ''http://127.0.0.1:3000'']"

datatype config_error =
  EnvironmentInvalid | AddressForm goerror | AddressPort | NotPositive bytes | OriginsRequired |
  OriginInvalid bytes goerror

datatype load_error =
  NodeIDFailed | NotInteger bytes | NotDuration bytes | Invalid "config_error list"

subsection \<open>Helpers\<close>

text \<open>A variable that is set and not blank.\<close>

definition nonblank :: "lookup_fn \<Rightarrow> bytes \<Rightarrow> bytes option" where
  "nonblank lookup key =
     (case lookup key of None \<Rightarrow> None | Some value \<Rightarrow> if TrimSpace value = [] then None else Some value)"

definition valueOrDefault :: "lookup_fn \<Rightarrow> bytes \<Rightarrow> bytes \<Rightarrow> bytes" where
  "valueOrDefault lookup key fallback =
     (case nonblank lookup key of None \<Rightarrow> fallback | Some value \<Rightarrow> TrimSpace value)"

definition splitCSV :: "bytes \<Rightarrow> bytes list" where
  "splitCSV value = filter (\<lambda>part. part \<noteq> []) (map TrimSpace (SplitByte (CHR '','') value))"

definition validateAddress :: "bytes \<Rightarrow> config_error option" where
  "validateAddress address =
     (case SplitHostPort address of
        Inl err \<Rightarrow> Some (AddressForm err)
      | Inr (_, port) \<Rightarrow>
          (case Atoi port of
             None \<Rightarrow> Some AddressPort
           | Some number \<Rightarrow> if number < 0 \<or> 65535 < number then Some AddressPort else None))"

definition validateOrigin :: "bytes \<Rightarrow> goerror option" where
  "validateOrigin origin =
     (if origin = ''*'' \<or> ContainsByte origin (CHR ''*'') then Some ''wildcards are not allowed''
      else
        (case url_Parse origin of
           None \<Rightarrow> Some ''must be an absolute http or https origin''
         | Some parsed \<Rightarrow>
             if u_Scheme parsed = [] \<or> u_Host parsed = [] then Some ''must be an absolute http or https origin''
             else if u_Scheme parsed \<noteq> ''http'' \<and> u_Scheme parsed \<noteq> ''https'' then Some ''scheme must be http or https''
             else if u_Path parsed \<noteq> [] \<or> u_RawQuery parsed \<noteq> [] \<or> u_Fragment parsed \<noteq> []
             then Some ''must not include a path, query, or fragment''
             else None))"

subsection \<open>Validation\<close>

definition check :: "bool \<Rightarrow> config_error \<Rightarrow> config_error list" where
  "check bad err = (if bad then [err] else [])"

definition origin_errors :: "bytes list \<Rightarrow> config_error list" where
  "origin_errors origins =
     concat (map (\<lambda>origin. case validateOrigin origin of None \<Rightarrow> [] | Some err \<Rightarrow> [OriginInvalid origin err]) origins)"

definition duration_values :: "Config \<Rightarrow> (bytes \<times> int) list" where
  "duration_values c =
     [(''BLOCKFORGE_HTTP_READ_HEADER_TIMEOUT'', cf_ReadHeader c),
      (''BLOCKFORGE_HTTP_READ_TIMEOUT'', cf_ReadTimeout c),
      (''BLOCKFORGE_HTTP_WRITE_TIMEOUT'', cf_WriteTimeout c),
      (''BLOCKFORGE_HTTP_IDLE_TIMEOUT'', cf_IdleTimeout c),
      (''BLOCKFORGE_SHUTDOWN_TIMEOUT'', cf_ShutdownTimeout c),
      (''BLOCKFORGE_WS_READ_TIMEOUT'', cf_WebSocketReadTimeout c),
      (''BLOCKFORGE_WS_WRITE_TIMEOUT'', cf_WebSocketWriteTimeout c),
      (''BLOCKFORGE_WS_RATE_LIMIT_INTERVAL'', cf_RateLimitInterval c)]"

text \<open>The errors \<open>Validate\<close> joins, in order; none is the \<open>nil\<close> error.\<close>

definition Validate_config :: "Config \<Rightarrow> config_error list" where
  "Validate_config c =
     check (cf_Environment c \<notin> {''development'', ''test'', ''production''}) EnvironmentInvalid @
     (case validateAddress (cf_HTTPAddress c) of None \<Rightarrow> [] | Some err \<Rightarrow> [err]) @
     check (cf_MaxConnections c \<le> 0) (NotPositive ''BLOCKFORGE_MAX_CONNECTIONS'') @
     check (cf_OutboundQueueCapacity c \<le> 0) (NotPositive ''BLOCKFORGE_OUTBOUND_QUEUE_CAPACITY'') @
     check (cf_WebSocketMaxMessageSize c \<le> 0) (NotPositive ''BLOCKFORGE_WS_MAX_MESSAGE_SIZE'') @
     check (cf_RateLimitMessages c \<le> 0) (NotPositive ''BLOCKFORGE_WS_RATE_LIMIT_MESSAGES'') @
     check (cf_MaxRoomsPerClient c \<le> 0) (NotPositive ''BLOCKFORGE_WS_MAX_ROOMS_PER_CLIENT'') @
     check (cf_Environment c = ''production'' \<and> length (cf_AllowedOrigins c) = 0) OriginsRequired @
     origin_errors (cf_AllowedOrigins c) @
     concat (map (\<lambda>(name, value). check (value \<le> 0) (NotPositive name)) (duration_values c))"

subsection \<open>Loading\<close>

fun load_settings ::
    "(bytes \<Rightarrow> int option) \<Rightarrow> (bytes \<Rightarrow> load_error) \<Rightarrow> lookup_fn \<Rightarrow> (bytes \<times> (int \<Rightarrow> Config \<Rightarrow> Config)) list \<Rightarrow>
     Config \<Rightarrow> load_error + Config" where
  "load_settings parse err lookup [] cfg = Inr cfg"
| "load_settings parse err lookup ((key, store) # items) cfg =
     (case nonblank lookup key of
        None \<Rightarrow> load_settings parse err lookup items cfg
      | Some value \<Rightarrow>
          (case parse value of
             None \<Rightarrow> Inl (err key)
           | Some parsed \<Rightarrow> load_settings parse err lookup items (store parsed cfg)))"

definition integers :: "(bytes \<times> (int \<Rightarrow> Config \<Rightarrow> Config)) list" where
  "integers =
     [(''BLOCKFORGE_MAX_CONNECTIONS'', \<lambda>n cfg. cfg\<lparr>cf_MaxConnections := n\<rparr>),
      (''BLOCKFORGE_OUTBOUND_QUEUE_CAPACITY'', \<lambda>n cfg. cfg\<lparr>cf_OutboundQueueCapacity := n\<rparr>),
      (''BLOCKFORGE_WS_RATE_LIMIT_MESSAGES'', \<lambda>n cfg. cfg\<lparr>cf_RateLimitMessages := n\<rparr>),
      (''BLOCKFORGE_WS_MAX_ROOMS_PER_CLIENT'', \<lambda>n cfg. cfg\<lparr>cf_MaxRoomsPerClient := n\<rparr>)]"

definition message_size :: "(bytes \<times> (int \<Rightarrow> Config \<Rightarrow> Config)) list" where
  "message_size = [(''BLOCKFORGE_WS_MAX_MESSAGE_SIZE'', \<lambda>n cfg. cfg\<lparr>cf_WebSocketMaxMessageSize := n\<rparr>)]"

definition durations :: "(bytes \<times> (int \<Rightarrow> Config \<Rightarrow> Config)) list" where
  "durations =
     [(''BLOCKFORGE_HTTP_READ_HEADER_TIMEOUT'', \<lambda>d cfg. cfg\<lparr>cf_ReadHeader := d\<rparr>),
      (''BLOCKFORGE_HTTP_READ_TIMEOUT'', \<lambda>d cfg. cfg\<lparr>cf_ReadTimeout := d\<rparr>),
      (''BLOCKFORGE_HTTP_WRITE_TIMEOUT'', \<lambda>d cfg. cfg\<lparr>cf_WriteTimeout := d\<rparr>),
      (''BLOCKFORGE_HTTP_IDLE_TIMEOUT'', \<lambda>d cfg. cfg\<lparr>cf_IdleTimeout := d\<rparr>),
      (''BLOCKFORGE_SHUTDOWN_TIMEOUT'', \<lambda>d cfg. cfg\<lparr>cf_ShutdownTimeout := d\<rparr>),
      (''BLOCKFORGE_WS_READ_TIMEOUT'', \<lambda>d cfg. cfg\<lparr>cf_WebSocketReadTimeout := d\<rparr>),
      (''BLOCKFORGE_WS_WRITE_TIMEOUT'', \<lambda>d cfg. cfg\<lparr>cf_WebSocketWriteTimeout := d\<rparr>),
      (''BLOCKFORGE_WS_RATE_LIMIT_INTERVAL'', \<lambda>d cfg. cfg\<lparr>cf_RateLimitInterval := d\<rparr>)]"

definition initial_config :: "lookup_fn \<Rightarrow> bytes \<Rightarrow> bytes \<Rightarrow> Config" where
  "initial_config lookup environment nodeID =
     \<lparr>cf_Environment = environment,
      cf_HTTPAddress = valueOrDefault lookup ''BLOCKFORGE_HTTP_ADDRESS'' defaultHTTPAddress,
      cf_ReadHeader = defaultReadHeader, cf_ReadTimeout = defaultReadTimeout, cf_WriteTimeout = defaultWriteTimeout,
      cf_IdleTimeout = defaultIdleTimeout, cf_ShutdownTimeout = defaultShutdownTimeout,
      cf_AllowedOrigins =
        (case nonblank lookup ''BLOCKFORGE_ALLOWED_ORIGINS'' of
           Some value \<Rightarrow> splitCSV value
         | None \<Rightarrow> if environment \<noteq> ''production'' then defaultDevelopmentOrigins else []),
      cf_MaxConnections = defaultMaxConnections, cf_OutboundQueueCapacity = defaultOutboundQueue, cf_WebSocketReadTimeout = defaultWSReadTimeout,
      cf_WebSocketWriteTimeout = defaultWSWriteTimeout, cf_WebSocketMaxMessageSize = defaultWSMaxMsgSize, cf_RateLimitMessages = defaultRateLimitMsgs,
      cf_RateLimitInterval = defaultRateLimitInt, cf_MaxRoomsPerClient = defaultMaxRoomsPerClient,
      cf_BrokerURL = valueOrDefault lookup ''BLOCKFORGE_BROKER_URL'' [], cf_NodeID = nodeID\<rparr>"

text \<open>\<open>rand\<close> is the outcome of the one read of 16 random bytes, used when no node name is configured.\<close>

definition LoadFrom :: "bytes option \<Rightarrow> lookup_fn \<Rightarrow> load_error + Config" where
  "LoadFrom rand lookup =
     (let environment = valueOrDefault lookup ''BLOCKFORGE_ENV'' defaultEnvironment;
          named = valueOrDefault lookup ''BLOCKFORGE_NODE_ID'' [];
          nodeID = (if named \<noteq> [] then Some named else map_option (\<lambda>r. ''node_'' @ hex_EncodeToString r) rand)
      in case nodeID of
           None \<Rightarrow> Inl NodeIDFailed
         | Some name \<Rightarrow>
             (case load_settings (Atoi \<circ> TrimSpace) NotInteger lookup integers
                     (initial_config lookup environment name) of
                Inl e \<Rightarrow> Inl e
              | Inr cfg1 \<Rightarrow>
                  (case load_settings (ParseInt64 \<circ> TrimSpace) NotInteger lookup message_size cfg1 of
                     Inl e \<Rightarrow> Inl e
                   | Inr cfg2 \<Rightarrow>
                       (case load_settings ParseDuration NotDuration lookup durations cfg2 of
                          Inl e \<Rightarrow> Inl e
                        | Inr cfg \<Rightarrow> if Validate_config cfg = [] then Inr cfg else Inl (Invalid (Validate_config cfg))))))"

subsection \<open>What a configuration promises\<close>

definition origin_ok :: "bytes \<Rightarrow> bool" where
  "origin_ok origin =
     (CHR ''*'' \<notin> set origin \<and>
      (case url_Parse origin of
         None \<Rightarrow> False
       | Some parsed \<Rightarrow>
           (u_Scheme parsed = ''http'' \<or> u_Scheme parsed = ''https'') \<and> u_Host parsed \<noteq> [] \<and>
           u_Path parsed = [] \<and> u_RawQuery parsed = [] \<and> u_Fragment parsed = []))"

definition address_ok :: "bytes \<Rightarrow> bool" where
  "address_ok address =
     (case SplitHostPort address of
        Inl _ \<Rightarrow> False
      | Inr (_, port) \<Rightarrow> (case Atoi port of None \<Rightarrow> False | Some n \<Rightarrow> 0 \<le> n \<and> n \<le> 65535))"

definition config_ok :: "Config \<Rightarrow> bool" where
  "config_ok c =
     (cf_Environment c \<in> {''development'', ''test'', ''production''} \<and> address_ok (cf_HTTPAddress c) \<and>
      0 < cf_MaxConnections c \<and> 0 < cf_OutboundQueueCapacity c \<and> 0 < cf_WebSocketMaxMessageSize c \<and>
      0 < cf_RateLimitMessages c \<and> 0 < cf_MaxRoomsPerClient c \<and>
      (cf_Environment c = ''production'' \<longrightarrow> cf_AllowedOrigins c \<noteq> []) \<and>
      (\<forall>origin \<in> set (cf_AllowedOrigins c). origin_ok origin) \<and>
      0 < cf_ReadHeader c \<and> 0 < cf_ReadTimeout c \<and> 0 < cf_WriteTimeout c \<and> 0 < cf_IdleTimeout c \<and>
      0 < cf_ShutdownTimeout c \<and> 0 < cf_WebSocketReadTimeout c \<and> 0 < cf_WebSocketWriteTimeout c \<and>
      0 < cf_RateLimitInterval c)"

lemma validateOrigin_iff: "(validateOrigin origin = None) = origin_ok origin"
  unfolding validateOrigin_def origin_ok_def ContainsByte_def by (auto split: option.splits)

lemma validateAddress_iff: "(validateAddress address = None) = address_ok address"
  unfolding validateAddress_def address_ok_def by (auto split: sum.splits option.splits)

lemma check_Nil [simp]: "(check bad err = []) = (\<not> bad)"
  by (simp add: check_def)

lemma origin_errors_Nil: "(origin_errors origins = []) = (\<forall>origin \<in> set origins. origin_ok origin)"
  unfolding origin_errors_def by (auto simp flip: validateOrigin_iff split: option.splits)

lemma Validate_config_iff: "(Validate_config c = []) = config_ok c"
proof -
  have "((case validateAddress (cf_HTTPAddress c) of None \<Rightarrow> [] | Some err \<Rightarrow> [err]) = []) = address_ok (cf_HTTPAddress c)"
    by (simp flip: validateAddress_iff split: option.split)
  then show ?thesis
    by (simp add: Validate_config_def config_ok_def origin_errors_Nil duration_values_def not_le not_less conj_assoc)
qed

subsection \<open>What a loaded configuration holds\<close>

text \<open>The value of one setting: what its own variable parses to, or its default.\<close>

definition setting :: "(bytes \<Rightarrow> int option) \<Rightarrow> lookup_fn \<Rightarrow> bytes \<Rightarrow> int \<Rightarrow> int" where
  "setting parse lookup key fallback =
     (case nonblank lookup key of None \<Rightarrow> fallback | Some value \<Rightarrow> the (parse value))"

definition parses :: "(bytes \<Rightarrow> int option) \<Rightarrow> lookup_fn \<Rightarrow> bytes \<Rightarrow> bool" where
  "parses parse lookup key = (case nonblank lookup key of None \<Rightarrow> True | Some value \<Rightarrow> parse value \<noteq> None)"

abbreviation int_of :: "bytes \<Rightarrow> int option" where "int_of \<equiv> Atoi \<circ> TrimSpace"

definition configured :: "bytes option \<Rightarrow> lookup_fn \<Rightarrow> Config" where
  "configured rand lookup =
     (let environment = valueOrDefault lookup ''BLOCKFORGE_ENV'' ''development'' in
      \<lparr>cf_Environment = environment,
       cf_HTTPAddress = valueOrDefault lookup ''BLOCKFORGE_HTTP_ADDRESS'' '':8080'',
       cf_ReadHeader = setting ParseDuration lookup ''BLOCKFORGE_HTTP_READ_HEADER_TIMEOUT'' (seconds 5),
       cf_ReadTimeout = setting ParseDuration lookup ''BLOCKFORGE_HTTP_READ_TIMEOUT'' (seconds 15),
       cf_WriteTimeout = setting ParseDuration lookup ''BLOCKFORGE_HTTP_WRITE_TIMEOUT'' (seconds 15),
       cf_IdleTimeout = setting ParseDuration lookup ''BLOCKFORGE_HTTP_IDLE_TIMEOUT'' (seconds 60),
       cf_ShutdownTimeout = setting ParseDuration lookup ''BLOCKFORGE_SHUTDOWN_TIMEOUT'' (seconds 10),
       cf_AllowedOrigins =
         (case nonblank lookup ''BLOCKFORGE_ALLOWED_ORIGINS'' of
            Some value \<Rightarrow> splitCSV value
          | None \<Rightarrow> if environment \<noteq> ''production'' then defaultDevelopmentOrigins else []),
       cf_MaxConnections = setting int_of lookup ''BLOCKFORGE_MAX_CONNECTIONS'' 1000,
       cf_OutboundQueueCapacity = setting int_of lookup ''BLOCKFORGE_OUTBOUND_QUEUE_CAPACITY'' 64,
       cf_WebSocketReadTimeout = setting ParseDuration lookup ''BLOCKFORGE_WS_READ_TIMEOUT'' (seconds 60),
       cf_WebSocketWriteTimeout = setting ParseDuration lookup ''BLOCKFORGE_WS_WRITE_TIMEOUT'' (seconds 10),
       cf_WebSocketMaxMessageSize = setting int_of lookup ''BLOCKFORGE_WS_MAX_MESSAGE_SIZE'' 4096,
       cf_RateLimitMessages = setting int_of lookup ''BLOCKFORGE_WS_RATE_LIMIT_MESSAGES'' 100,
       cf_RateLimitInterval = setting ParseDuration lookup ''BLOCKFORGE_WS_RATE_LIMIT_INTERVAL'' (seconds 60),
       cf_MaxRoomsPerClient = setting int_of lookup ''BLOCKFORGE_WS_MAX_ROOMS_PER_CLIENT'' 10,
       cf_BrokerURL = valueOrDefault lookup ''BLOCKFORGE_BROKER_URL'' [],
       cf_NodeID =
         (if valueOrDefault lookup ''BLOCKFORGE_NODE_ID'' [] \<noteq> [] then valueOrDefault lookup ''BLOCKFORGE_NODE_ID'' []
          else ''node_'' @ hex_EncodeToString (the rand))\<rparr>)"

definition settings_parse :: "lookup_fn \<Rightarrow> bool" where
  "settings_parse lookup =
     (list_all (parses int_of lookup) (map fst (integers @ message_size)) \<and>
      list_all (parses ParseDuration lookup) (map fst durations))"

definition store_setting :: "(bytes \<Rightarrow> int option) \<Rightarrow> lookup_fn \<Rightarrow> bytes \<times> (int \<Rightarrow> Config \<Rightarrow> Config) \<Rightarrow> Config \<Rightarrow> Config" where
  "store_setting parse lookup item cfg =
     (case nonblank lookup (fst item) of None \<Rightarrow> cfg | Some value \<Rightarrow> snd item (the (parse value)) cfg)"

lemma load_settings_Inr [result_iff]:
  "load_settings parse err lookup items cfg = Inr cfg' \<longleftrightarrow>
     list_all (parses parse lookup) (map fst items) \<and> cfg' = fold (store_setting parse lookup) items cfg"
  by (induction items arbitrary: cfg)
     (auto simp: parses_def store_setting_def split: option.splits)

lemma store_setting_laws:
  "store_setting parse lookup (key, \<lambda>n cfg. cfg\<lparr>cf_MaxConnections := n\<rparr>) cfg =
     cfg\<lparr>cf_MaxConnections := setting parse lookup key (cf_MaxConnections cfg)\<rparr>"
  "store_setting parse lookup (key, \<lambda>n cfg. cfg\<lparr>cf_OutboundQueueCapacity := n\<rparr>) cfg =
     cfg\<lparr>cf_OutboundQueueCapacity := setting parse lookup key (cf_OutboundQueueCapacity cfg)\<rparr>"
  "store_setting parse lookup (key, \<lambda>n cfg. cfg\<lparr>cf_RateLimitMessages := n\<rparr>) cfg =
     cfg\<lparr>cf_RateLimitMessages := setting parse lookup key (cf_RateLimitMessages cfg)\<rparr>"
  "store_setting parse lookup (key, \<lambda>n cfg. cfg\<lparr>cf_MaxRoomsPerClient := n\<rparr>) cfg =
     cfg\<lparr>cf_MaxRoomsPerClient := setting parse lookup key (cf_MaxRoomsPerClient cfg)\<rparr>"
  "store_setting parse lookup (key, \<lambda>n cfg. cfg\<lparr>cf_WebSocketMaxMessageSize := n\<rparr>) cfg =
     cfg\<lparr>cf_WebSocketMaxMessageSize := setting parse lookup key (cf_WebSocketMaxMessageSize cfg)\<rparr>"
  "store_setting parse lookup (key, \<lambda>n cfg. cfg\<lparr>cf_ReadHeader := n\<rparr>) cfg =
     cfg\<lparr>cf_ReadHeader := setting parse lookup key (cf_ReadHeader cfg)\<rparr>"
  "store_setting parse lookup (key, \<lambda>n cfg. cfg\<lparr>cf_ReadTimeout := n\<rparr>) cfg =
     cfg\<lparr>cf_ReadTimeout := setting parse lookup key (cf_ReadTimeout cfg)\<rparr>"
  "store_setting parse lookup (key, \<lambda>n cfg. cfg\<lparr>cf_WriteTimeout := n\<rparr>) cfg =
     cfg\<lparr>cf_WriteTimeout := setting parse lookup key (cf_WriteTimeout cfg)\<rparr>"
  "store_setting parse lookup (key, \<lambda>n cfg. cfg\<lparr>cf_IdleTimeout := n\<rparr>) cfg =
     cfg\<lparr>cf_IdleTimeout := setting parse lookup key (cf_IdleTimeout cfg)\<rparr>"
  "store_setting parse lookup (key, \<lambda>n cfg. cfg\<lparr>cf_ShutdownTimeout := n\<rparr>) cfg =
     cfg\<lparr>cf_ShutdownTimeout := setting parse lookup key (cf_ShutdownTimeout cfg)\<rparr>"
  "store_setting parse lookup (key, \<lambda>n cfg. cfg\<lparr>cf_WebSocketReadTimeout := n\<rparr>) cfg =
     cfg\<lparr>cf_WebSocketReadTimeout := setting parse lookup key (cf_WebSocketReadTimeout cfg)\<rparr>"
  "store_setting parse lookup (key, \<lambda>n cfg. cfg\<lparr>cf_WebSocketWriteTimeout := n\<rparr>) cfg =
     cfg\<lparr>cf_WebSocketWriteTimeout := setting parse lookup key (cf_WebSocketWriteTimeout cfg)\<rparr>"
  "store_setting parse lookup (key, \<lambda>n cfg. cfg\<lparr>cf_RateLimitInterval := n\<rparr>) cfg =
     cfg\<lparr>cf_RateLimitInterval := setting parse lookup key (cf_RateLimitInterval cfg)\<rparr>"
  by (simp_all add: store_setting_def setting_def split: option.split)

lemma stored_configuration:
  "fold (store_setting ParseDuration lookup) durations
     (fold (store_setting int_of lookup) message_size
       (fold (store_setting int_of lookup) integers
         (initial_config lookup (valueOrDefault lookup ''BLOCKFORGE_ENV'' ''development'') (cf_NodeID (configured rand lookup))))) =
   configured rand lookup"
  unfolding integers_def message_size_def durations_def initial_config_def configured_def Let_def
  by (simp only: fold_simps store_setting_laws Config.update_convs Config.simps)

lemma LoadFrom_pipeline:
  assumes "valueOrDefault lookup ''BLOCKFORGE_NODE_ID'' [] \<noteq> [] \<or> rand \<noteq> None"
  shows "LoadFrom rand lookup =
          (case load_settings int_of NotInteger lookup integers (initial_config lookup
              (valueOrDefault lookup ''BLOCKFORGE_ENV'' ''development'') (cf_NodeID (configured rand lookup))) of
             Inl e \<Rightarrow> Inl e
           | Inr cfg1 \<Rightarrow>
               (case load_settings int_of NotInteger lookup message_size cfg1 of
                  Inl e \<Rightarrow> Inl e
                | Inr cfg2 \<Rightarrow>
                    (case load_settings ParseDuration NotDuration lookup durations cfg2 of
                       Inl e \<Rightarrow> Inl e
                     | Inr cfg \<Rightarrow> if Validate_config cfg = [] then Inr cfg else Inl (Invalid (Validate_config cfg)))))"
  using assms by (auto simp: LoadFrom_def configured_def Let_def)

lemma LoadFrom_iff:
  "LoadFrom rand lookup = Inr cfg \<longleftrightarrow>
     (valueOrDefault lookup ''BLOCKFORGE_NODE_ID'' [] \<noteq> [] \<or> rand \<noteq> None) \<and> settings_parse lookup \<and>
     cfg = configured rand lookup \<and> config_ok cfg"
proof (cases "valueOrDefault lookup ''BLOCKFORGE_NODE_ID'' [] \<noteq> [] \<or> rand \<noteq> None")
  case True
  then show ?thesis
    by (auto simp: LoadFrom_pipeline result_iff settings_parse_def Validate_config_iff stored_configuration)
next
  case False
  then show ?thesis by (auto simp: LoadFrom_def Let_def)
qed

lemma load_settings_eq:
  "load_settings parse err lookup items cfg =
     (case find (\<lambda>key. \<not> parses parse lookup key) (map fst items) of
        Some key \<Rightarrow> Inl (err key)
      | None \<Rightarrow> Inr (fold (store_setting parse lookup) items cfg))"
  by (induction items arbitrary: cfg) (auto simp: parses_def store_setting_def split: option.splits)

lemma find_append:
  "find P (xs @ ys) = (case find P xs of Some x \<Rightarrow> Some x | None \<Rightarrow> find P ys)"
  by (induction xs) auto

lemma default_origins_ok: "\<forall>origin \<in> set defaultDevelopmentOrigins. origin_ok origin"
  unfolding defaultDevelopmentOrigins_def list.set by code_simp

lemma default_address_ok: "address_ok '':8080''"
  by code_simp

text \<open>An empty environment loads: the defaults satisfy the rules, for whatever node name is drawn.\<close>

lemma LoadFrom_defaults: "LoadFrom (Some value) (\<lambda>_. None) = Inr (configured (Some value) (\<lambda>_. None))"
  using default_origins_ok default_address_ok
  by (auto simp: LoadFrom_iff settings_parse_def config_ok_def configured_def setting_def parses_def nonblank_def
      valueOrDefault_def Let_def list_all_iff)

lemma setting_range:
  "parses int_of lookup key \<Longrightarrow> fallback < 2 ^ 63 \<Longrightarrow> setting int_of lookup key fallback < 2 ^ 63"
  "parses ParseDuration lookup key \<Longrightarrow> fallback < 2 ^ 63 \<Longrightarrow> setting ParseDuration lookup key fallback < 2 ^ 63"
  using ParseInt64_range ParseDuration_range
  by (fastforce simp: parses_def setting_def split: option.splits)+

subsection \<open>Properties\<close>

text \<open>
  C19: loading computes exactly the declared configuration, each field from its own variable or its
  default. It fails for a missing node identifier, then for the first integer variable that does not
  parse, then for the first duration that does not parse, then for the rules the configuration violates.
\<close>

theorem LoadFrom_spec:
  "LoadFrom rand lookup =
     (if valueOrDefault lookup ''BLOCKFORGE_NODE_ID'' [] = [] \<and> rand = None then Inl NodeIDFailed
      else
        case find (\<lambda>key. \<not> parses int_of lookup key) (map fst (integers @ message_size)) of
          Some key \<Rightarrow> Inl (NotInteger key)
        | None \<Rightarrow>
            (case find (\<lambda>key. \<not> parses ParseDuration lookup key) (map fst durations) of
               Some key \<Rightarrow> Inl (NotDuration key)
             | None \<Rightarrow>
                 (let cfg = configured rand lookup in
                  if config_ok cfg then Inr cfg else Inl (Invalid (Validate_config cfg)))))"
proof (cases "valueOrDefault lookup ''BLOCKFORGE_NODE_ID'' [] = [] \<and> rand = None")
  case True
  then show ?thesis by (simp add: LoadFrom_def Let_def)
next
  case False
  then have "valueOrDefault lookup ''BLOCKFORGE_NODE_ID'' [] \<noteq> [] \<or> rand \<noteq> None" by simp
  note LoadFrom_pipeline [OF this]
  with False show ?thesis
    by (auto simp: load_settings_eq find_append stored_configuration Validate_config_iff Let_def split: option.splits)
qed

text \<open>
  C8: a configuration that loads is safe to run with: every limit and timeout is positive and
  fits 63 bits, the port is a port, the node has a name, every allowed origin is a plain http or https
  origin without wildcard, and production has at least one, listed explicitly.
\<close>

theorem LoadFrom_safe:
  assumes "LoadFrom rand lookup = Inr cfg"
  shows "config_ok cfg \<and> cf_NodeID cfg \<noteq> [] \<and>
    (\<forall>d \<in> set (map snd (duration_values cfg) @
        [cf_MaxConnections cfg, cf_OutboundQueueCapacity cfg, cf_WebSocketMaxMessageSize cfg,
         cf_RateLimitMessages cfg, cf_MaxRoomsPerClient cfg]). 0 < d \<and> d < 2 ^ 63) \<and>
    (cf_Environment cfg = ''production'' \<longrightarrow>
       (\<exists>value. lookup ''BLOCKFORGE_ALLOWED_ORIGINS'' = Some value \<and> cf_AllowedOrigins cfg = splitCSV value))"
proof -
  from assms have cfg: "cfg = configured rand lookup" "config_ok cfg" "settings_parse lookup"
    by (auto simp: LoadFrom_iff)
  have range: "d < 2 ^ 63"
    if "d \<in> set (map snd (duration_values cfg) @
        [cf_MaxConnections cfg, cf_OutboundQueueCapacity cfg, cf_WebSocketMaxMessageSize cfg,
         cf_RateLimitMessages cfg, cf_MaxRoomsPerClient cfg])" for d
    using that cfg(3) unfolding cfg(1)
    by (auto simp: configured_def duration_values_def Let_def settings_parse_def integers_def message_size_def
        durations_def intro!: setting_range [simplified])
  have "cf_NodeID cfg \<noteq> []" by (simp add: cfg(1) configured_def Let_def)
  moreover have "\<exists>value. lookup ''BLOCKFORGE_ALLOWED_ORIGINS'' = Some value \<and> cf_AllowedOrigins cfg = splitCSV value"
    if "cf_Environment cfg = ''production''"
    using that cfg(2) unfolding cfg(1)
    by (auto simp: configured_def Let_def config_ok_def nonblank_def split: option.splits if_splits)
  ultimately show ?thesis
    using cfg(2) range by (auto simp: config_ok_def duration_values_def)
qed

definition sample_variables :: lookup_fn where
  "sample_variables =
     map_of [(''BLOCKFORGE_ENV'', ''production''),
             (''BLOCKFORGE_ALLOWED_ORIGINS'', '' https://app.example.com , ,http://10.0.0.7:8080''),
             (''BLOCKFORGE_MAX_CONNECTIONS'', '' 250 ''), (''BLOCKFORGE_WS_READ_TIMEOUT'', ''1m30s''),
             (''BLOCKFORGE_NODE_ID'', ''node-a'')]"

theorem LoadFrom_safe_witness:
  "\<exists>cfg. LoadFrom None sample_variables = Inr cfg \<and> 0 < cf_OutboundQueueCapacity cfg \<and>
     cf_AllowedOrigins cfg = [''https://app.example.com'', ''http://10.0.0.7:8080''] \<and>
     cf_WebSocketReadTimeout cfg = seconds 90 \<and> cf_MaxConnections cfg = 250"
proof -
  let ?cfg = "configured None sample_variables"
  have "LoadFrom None sample_variables = Inr ?cfg" by code_simp
  from LoadFrom_safe [OF this] have "0 < cf_OutboundQueueCapacity ?cfg" by (auto simp: config_ok_def)
  moreover have "cf_AllowedOrigins ?cfg = [''https://app.example.com'', ''http://10.0.0.7:8080'']"
    "cf_WebSocketReadTimeout ?cfg = seconds 90" "cf_MaxConnections ?cfg = 250"
    by code_simp+
  ultimately show ?thesis using \<open>LoadFrom None sample_variables = Inr ?cfg\<close> by blast
qed

end
