(* ===== verification/Admission.thy ===== *)
theory Admission
  imports HttpApi Config Delivery
begin

text \<open>
  What the HTTP boundary guarantees of one request: which requests become sessions, which origins are let
  in, and that every attempt is accounted for. Concurrent requests and the bound on them are in \<open>Requests\<close>.
\<close>

subsection \<open>The allow list\<close>

lemma mget_origins:
  "mget (fold (\<lambda>origin. mset_key origin ()) origins m) key = (if key \<in> set origins then Some () else mget m key)"
  by (induction origins arbitrary: m) auto

lemma NewWebSocketHandler_allows:
  "NewWebSocketHandler options = Some (h, ch) \<Longrightarrow>
     (mget (wh_allowedOrigins h) key \<noteq> None) = (key \<in> set (wo_AllowedOrigins options))"
  by (auto simp: NewWebSocketHandler_def mget_origins split: if_splits)

lemma TrimSpace_ascii:
  assumes "\<forall>c \<in> set s. code c < 128 \<and> \<not> ascii_space c"
  shows "TrimSpace s = s"
proof -
  have no: "\<not> space2 a b" "\<not> space3 a b c" if "code b < 128" for a b c
    using that by (auto simp: space2_def space3_def)
  have lead: "lead_space t = 0" if "\<forall>c \<in> set t. code c < 128 \<and> \<not> ascii_space c" for t
    using that no by (auto simp: lead_space_def split: list.split)
  have "\<forall>c \<in> set (rev s). code c < 128 \<and> \<not> ascii_space c" using assms by simp
  then have "trail_space s = 0"
    using no unfolding trail_space_def by (auto simp: space2_def split: list.split)
  with lead [OF assms] show ?thesis by (simp add: TrimSpace_def trim_left_id trim_right_id)
qed

lemma plain_origin_trimmed:
  assumes "plain_host host" and "scheme = ''http'' \<or> scheme = ''https''" and "path = [] \<or> path = ''/''"
  shows "TrimSpace (scheme @ ''://'' @ host @ path) = scheme @ ''://'' @ host @ path"
proof (rule TrimSpace_ascii)
  have "code c < 128 \<and> \<not> ascii_space c" if "c \<in> set host" for c
  proof -
    from that assms(1) have "is_letter c \<or> is_digit c \<or> c \<in> set ''-_.~:''"
      by (auto simp: plain_host_def list_all_iff)
    then show ?thesis by (auto simp: is_letter_def is_digit_def ascii_space_def)
  qed
  moreover have "\<forall>c \<in> set scheme \<union> set ''://'' \<union> set path. code c < 128 \<and> \<not> ascii_space c"
    using assms(2,3) by (auto simp: ascii_space_def)
  ultimately show "\<forall>c \<in> set (scheme @ ''://'' @ host @ path). code c < 128 \<and> \<not> ascii_space c"
    by (simp add: ball_Un)
qed

subsection \<open>One request\<close>

lemma on_world_simps [simp]:
  "bd_health (on_world f s) = bd_health s" "bd_admission (on_world f s) = bd_admission s"
  "bd_world (on_world f s) = f (bd_world s)"
  by (simp_all add: on_world_def)

lemma release_simps [simp]:
  "bd_health (release s) = bd_health s" "bd_world (release s) = bd_world s"
  "length (ch_buf (bd_admission (release s))) = length (ch_buf (bd_admission s)) - 1"
  "ch_cap (bd_admission (release s)) = ch_cap (bd_admission s)"
  by (auto simp: release_def try_recv_def split: option.splits list.splits)

text \<open>The parts of the world sessions and hubs live in.\<close>

definition same_sessions :: "world \<Rightarrow> world \<Rightarrow> bool" where
  "same_sessions w w' =
     (w_clients w' = w_clients w \<and> w_next w' = w_next w \<and> w_hubs w' = w_hubs w \<and> w_brokers w' = w_brokers w)"

definition accounted :: "outcome \<Rightarrow> boundary \<Rightarrow> boundary \<Rightarrow> bool" where
  "accounted out s s' =
     (let m = w_metrics (bd_world s); m' = w_metrics (bd_world s');
          slots = length (ch_buf (bd_admission s)); slots' = length (ch_buf (bd_admission s'));
          accepted = (case out of Accepted _ _ \<Rightarrow> True | _ \<Rightarrow> False)
      in UpgradesAttempted m' = UpgradesAttempted m + 1 \<and>
         UpgradesRejected m' = UpgradesRejected m + (if accepted then 0 else 1) \<and>
         slots' = slots + (if accepted then 1 else 0) \<and>
         ch_cap (bd_admission s') = ch_cap (bd_admission s) \<and> bd_health s' = bd_health s \<and>
         same_sessions (bd_world s) (bd_world s'))"

definition admissible :: "gorilla \<Rightarrow> bool \<Rightarrow> webSocketHandler \<Rightarrow> Request \<Rightarrow> boundary \<Rightarrow> socket \<Rightarrow> Session \<Rightarrow> bool" where
  "admissible g isConnected h request s connection session =
     (Ready isConnected (bd_world s) (bd_health s) \<and> IsWebSocketUpgrade g request \<and> checkOrigin h request \<and>
      wh_authenticator h request = Inr \<lparr>pr_UserID = se_UserID session\<rparr> \<and>
      length (ch_buf (bd_admission s)) < ch_cap (bd_admission s) \<and>
      Upgrade g (checkOrigin h) request = Some connection \<and>
      (\<exists>value. e_rand (w_env (bd_world s)) (w_tick (bd_world s)) = Some value \<and>
               se_ConnectionID session = ''conn_'' @ hex_EncodeToString value))"

lemmas boundary_defs = ServeHTTP_admit_def upgrade_def refused_def reject_def newConnectionID_def draw_rand_def
  Let_def try_send_def

lemma Ready_same: "same_sessions w w' \<Longrightarrow> Ready isConnected w' h = Ready isConnected w h"
  by (simp add: Ready_def same_sessions_def split: option.split)

lemma Ready_metric [simp]: "Ready isConnected (metric f w) h = Ready isConnected w h"
  by (simp add: Ready_def metric_def split: option.split)

lemma metric_draw [simp]: "w_env (metric f w) = w_env w" "w_tick (metric f w) = w_tick w"
  by (simp_all add: metric_def)

lemma principal_eq [simp]: "\<lparr>pr_UserID = pr_UserID p\<rparr> = (p :: Principal)"
  by (cases p) simp

lemma admit_accounted:
  "ServeHTTP_admit g isConnected h request s = (out, s') \<Longrightarrow> accounted out s s'"
  by (auto simp: boundary_defs accounted_def same_sessions_def metric_def logged_def tick_def
      IncrementUpgradesAttempted_def IncrementUpgradesRejected_def split: if_splits sum.splits option.splits)

lemma admit_accepted:
  "ServeHTTP_admit g isConnected h request s = (Accepted connection session, s') \<Longrightarrow>
     admissible g isConnected h request s connection session"
  by (auto simp: boundary_defs admissible_def split: if_splits sum.splits option.splits)

subsection \<open>Many requests\<close>

text \<open>
  A sequence of requests, one event each: a request arrives and is admitted or not, the handler of the
  \<open>i\<close>-th running session returns, readiness is switched, or another part of the process runs. The list
  holds the sessions whose handler has not returned. This is coarser than the code, where requests interleave inside
  \<open>ServeHTTP\<close>; what depends on that is shown of the programs in \<open>Requests\<close>.
\<close>

datatype http_event = Arrive bool Request | Finish nat | SwitchReady bool | Elsewhere "world \<Rightarrow> world"

fun http_step :: "gorilla \<Rightarrow> webSocketHandler \<Rightarrow> http_event \<Rightarrow> Session list \<times> boundary \<Rightarrow> Session list \<times> boundary" where
  "http_step g h (Arrive isConnected request) (live, s) =
     (case ServeHTTP_admit g isConnected h request s of
        (Accepted connection session, s') \<Rightarrow> (live @ [session], s')
      | (_, s') \<Rightarrow> (live, s'))"
| "http_step g h (Finish i) (live, s) =
     (if i < length live then (take i live @ drop (Suc i) live, release s) else (live, s))"
| "http_step g h (SwitchReady b) (live, s) = (live, s\<lparr>bd_health := SetReady b (bd_health s)\<rparr>)"
| "http_step g h (Elsewhere f) (live, s) = (live, on_world f s)"

subsection \<open>Properties\<close>

text \<open>
  C13: a request is handed to the session handler only when the process is ready, the request
  asks for an upgrade, its origin is allowed, it is authenticated as the session's user, a slot is free,
  the upgrade succeeds and a connection identifier was drawn. Accepted or not, it counts as one attempt;
  every other outcome counts as one rejection and gives back its slot. No session, hub or broker is touched.
\<close>

theorem ServeHTTP_accounting:
  "case ServeHTTP_admit g isConnected h request s of (out, s') \<Rightarrow>
     accounted out s s' \<and>
     (case out of Accepted connection session \<Rightarrow> admissible g isConnected h request s connection session | _ \<Rightarrow> True)"
  by (auto simp: admit_accounted admit_accepted split: prod.splits outcome.splits)

text \<open>
  while the process is not ready every request is answered 503 \<open>not_ready\<close> and no session starts,
  whatever the request, the authenticator and the library do; \<open>/readyz\<close> then answers 503 as well, and
  \<open>/healthz\<close> still answers 200.
\<close>

theorem unready_refuses:
  assumes "\<not> Ready isConnected (bd_world s) (bd_health s)"
  shows "fst (ServeHTTP g isConnected handle h request s) = Some (writeStatus StatusServiceUnavailable ''not_ready'') \<and>
         same_sessions (bd_world s) (bd_world (snd (ServeHTTP g isConnected handle h request s))) \<and>
         Router ws isConnected (request\<lparr>rq_Method := ''GET'', rq_Path := ''/readyz''\<rparr>) s =
           Respond (writeStatus StatusServiceUnavailable ''not_ready'') \<and>
         Router ws isConnected (request\<lparr>rq_Method := ''GET'', rq_Path := ''/healthz''\<rparr>) s =
           Respond (writeStatus StatusOK ''ok'')"
proof -
  have admit: "ServeHTTP_admit g isConnected h request s =
      refused (reject request StatusServiceUnavailable ''not_ready'' (on_world (metric IncrementUpgradesAttempted) s))"
    using assms by (simp add: ServeHTTP_admit_def Let_def)
  then show ?thesis
    using assms admit_accounted [OF admit [unfolded refused_def]]
    by (simp add: ServeHTTP_def refused_def reject_def accounted_def Let_def Router_def handlers_def)
qed

text \<open>
  a request with an origin in plain form, with or without a trailing slash, passes the
  origin check exactly when that origin is in the configured list.
\<close>

theorem plain_origin_listed:
  assumes "NewWebSocketHandler options = Some (h, ch)"
    and "plain_host host" and "scheme = ''http'' \<or> scheme = ''https''" and "path = [] \<or> path = ''/''"
    and "Header_Get ''Origin'' request = scheme @ ''://'' @ host @ path"
  shows "checkOrigin h request = (scheme @ ''://'' @ host \<in> set (wo_AllowedOrigins options))"
proof -
  have "TrimSpace (Header_Get ''Origin'' request) = scheme @ ''://'' @ host @ path"
    using plain_origin_trimmed [OF assms(2-4)] assms(5) by simp
  moreover note url_Parse_plain [OF assms(2-4)]
  moreover have "host \<noteq> []" using assms(2) by (simp add: plain_host_def)
  ultimately have "checkOrigin h request = (mget (wh_allowedOrigins h) (scheme @ ''://'' @ host) \<noteq> None)"
    unfolding checkOrigin_def Let_def using assms(3,4) by (elim disjE) simp_all
  then show ?thesis by (simp only: NewWebSocketHandler_allows [OF assms(1)])
qed

text \<open>An origin is let in by its parsed scheme and host, whatever the spelling in the request.\<close>

lemma checkOrigin_allowed:
  assumes "NewWebSocketHandler options = Some (h, ch)" and "checkOrigin h request"
    and "TrimSpace (Header_Get ''Origin'' request) \<noteq> []"
  shows "\<exists>scheme host. (scheme = ''http'' \<or> scheme = ''https'') \<and> scheme @ ''://'' @ host \<in> set (wo_AllowedOrigins options)"
  using assms(2,3) NewWebSocketHandler_allows [OF assms(1)]
  by (fastforce simp: checkOrigin_def Let_def split: option.splits if_splits)

text \<open>
  C34: a client that sends exactly a validated origin is let in if and only if the scheme and host it
  parses to, joined by \<open>://\<close>, are in the allow list: the list is not searched for the origin as it is written. So a
  list that has the origin in that normal form lets it in, and one that has it only in another spelling does not. Validation
  accepts other spellings: \<open>HTTP://localhost:3000\<close> passes, and a list with just this entry refuses every request
  that names an origin.
\<close>

theorem validated_origin_matches_itself:
  assumes "NewWebSocketHandler options = Some (h, ch)"
    and "validateOrigin origin = None" and "TrimSpace origin = origin" and "Header_Get ''Origin'' request = origin"
  shows "(\<exists>u. url_Parse origin = Some u \<and>
            checkOrigin h request = (u_Scheme u @ ''://'' @ u_Host u \<in> set (wo_AllowedOrigins options))) \<and>
         validateOrigin ''HTTP://localhost:3000'' = None \<and>
         (\<forall>options h ch request. NewWebSocketHandler options = Some (h, ch) \<longrightarrow>
            wo_AllowedOrigins options = [''HTTP://localhost:3000''] \<longrightarrow>
            TrimSpace (Header_Get ''Origin'' request) \<noteq> [] \<longrightarrow> \<not> checkOrigin h request)"
proof (intro conjI allI impI notI)
  from assms(2) obtain u where u: "url_Parse origin = Some u"
    "u_Scheme u = ''http'' \<or> u_Scheme u = ''https''" "u_Host u \<noteq> []" "u_Path u = []" "u_RawQuery u = []" "u_Fragment u = []"
    by (auto simp: validateOrigin_iff origin_ok_def split: option.splits)
  have "origin \<noteq> []"
  proof
    assume "origin = []"
    with u(1) have "u_Host u = []" by (auto simp: url_Parse_def cut_def parse_nofrag_def getScheme_def parse_rest_def HasPrefix_def)
    with u(3) show False ..
  qed
  with u assms(3,4) have "checkOrigin h request = (mget (wh_allowedOrigins h) (u_Scheme u @ ''://'' @ u_Host u) \<noteq> None)"
    unfolding checkOrigin_def Let_def by (elim disjE) simp_all
  with u(1) NewWebSocketHandler_allows [OF assms(1)]
  show "\<exists>u. url_Parse origin = Some u \<and> checkOrigin h request = (u_Scheme u @ ''://'' @ u_Host u \<in> set (wo_AllowedOrigins options))"
    by blast
  show "validateOrigin ''HTTP://localhost:3000'' = None" by code_simp
  show False if "NewWebSocketHandler options = Some (h, ch)" "wo_AllowedOrigins options = [''HTTP://localhost:3000'']"
    "TrimSpace (Header_Get ''Origin'' request) \<noteq> []" "checkOrigin h request" for options h ch request
    using checkOrigin_allowed [OF that(1,4,3)] that(2) by auto
qed

subsection \<open>Witnesses\<close>

text \<open>A library that upgrades every request that asks for it, and a boundary over a ready in-memory process.\<close>

definition sample_gorilla :: gorilla where
  "sample_gorilla =
     \<lparr>IsWebSocketUpgrade = (\<lambda>request. Header_Get ''Upgrade'' request = ''websocket''),
      Upgrade = (\<lambda>check request. if check request then Some new_socket else None)\<rparr>"

definition sample_web_options :: "int \<Rightarrow> bytes list \<Rightarrow> WebSocketOptions" where
  "sample_web_options n origins =
     \<lparr>wo_Authenticator = DevelopmentAuthenticator, wo_AllowedOrigins = origins, wo_MaxConnections = n\<rparr>"

definition sample_request :: "bytes \<Rightarrow> bytes \<Rightarrow> Request" where
  "sample_request origin query =
     \<lparr>rq_Method = ''GET'', rq_Path = ''/ws'', rq_RawQuery = query,
      rq_Header = [(''Upgrade'', [''websocket'']), (''Origin'', [origin])], rq_RemoteAddr = ''127.0.0.1:5000''\<rparr>"

definition sample_boundary :: "bool \<Rightarrow> nat \<Rightarrow> boundary" where
  "sample_boundary ready n =
     \<lparr>bd_health = \<lparr>he_ready = ready, he_checker = Some 0\<rparr>, bd_admission = make_chan n, bd_world = sample_start\<rparr>"

theorem unready_refuses_witness:
  "fst (ServeHTTP sample_gorilla True (\<lambda>_ _ w. w) \<lparr>wh_authenticator = DevelopmentAuthenticator, wh_allowedOrigins = []\<rparr>
        (sample_request [] ''user_id=ann'') (sample_boundary False 1)) =
     Some (writeStatus 503 ''not_ready'')"
proof -
  have "\<not> Ready True (bd_world (sample_boundary False 1)) (bd_health (sample_boundary False 1))"
    by (simp add: Ready_def sample_boundary_def)
  from unready_refuses [OF this] show ?thesis by blast
qed

theorem plain_origin_listed_witness:
  "\<exists>h. checkOrigin h (sample_request ''http://localhost:3000/'' []) \<and>
       \<not> checkOrigin h (sample_request ''https://evil.example'' [])"
proof -
  let ?options = "sample_web_options 1 [''http://localhost:3000'']"
  obtain h where h: "NewWebSocketHandler ?options = Some (h, make_chan 1)"
    by (simp add: NewWebSocketHandler_def sample_web_options_def)
  have hosts: "plain_host ''localhost:3000''" "plain_host ''evil.example''" by code_simp+
  have "checkOrigin h (sample_request ''http://localhost:3000/'' [])"
    using plain_origin_listed [OF h hosts(1), of "''http''" "''/''" "sample_request ''http://localhost:3000/'' []"]
    by (simp add: sample_request_def Header_Get_def sample_web_options_def)
  moreover have "\<not> checkOrigin h (sample_request ''https://evil.example'' [])"
    using plain_origin_listed [OF h hosts(2), of "''https''" "[]" "sample_request ''https://evil.example'' []"]
    by (simp add: sample_request_def Header_Get_def sample_web_options_def)
  ultimately show ?thesis by blast
qed

text \<open>The upper-case spelling is let in by a list with the normal form, and refused by a list with itself.\<close>

theorem validated_origin_matches_itself_witness:
  "\<exists>h h'. NewWebSocketHandler (sample_web_options 1 [''http://localhost:3000'']) = Some (h, make_chan 1) \<and>
     NewWebSocketHandler (sample_web_options 1 [''HTTP://localhost:3000'']) = Some (h', make_chan 1) \<and>
     checkOrigin h (sample_request ''HTTP://localhost:3000'' []) \<and>
     \<not> checkOrigin h' (sample_request ''HTTP://localhost:3000'' [])"
proof -
  let ?o = "''HTTP://localhost:3000''" and ?r = "sample_request ''HTTP://localhost:3000'' []"
  obtain h h' where h: "NewWebSocketHandler (sample_web_options 1 [''http://localhost:3000'']) = Some (h, make_chan 1)"
      "NewWebSocketHandler (sample_web_options 1 [?o]) = Some (h', make_chan 1)"
    by (simp add: NewWebSocketHandler_def sample_web_options_def)
  have v: "validateOrigin ?o = None" "TrimSpace ?o = ?o" "Header_Get ''Origin'' ?r = ?o"
    "wo_AllowedOrigins (sample_web_options 1 [?o]) = [?o]" "wo_AllowedOrigins (sample_web_options 1 [''http://localhost:3000'']) = [''http://localhost:3000'']"
    by code_simp+
  have "map_option (\<lambda>u. u_Scheme u @ ''://'' @ u_Host u) (url_Parse ?o) = Some ''http://localhost:3000''" by code_simp
  with validated_origin_matches_itself [OF h(1) v(1-3)] v(5) have "checkOrigin h ?r" by auto
  moreover have "TrimSpace (Header_Get ''Origin'' ?r) \<noteq> []" using v(2,3) by simp
  with validated_origin_matches_itself [OF h(1) v(1-3)] h(2) v(4) have "\<not> checkOrigin h' ?r" by blast
  ultimately show ?thesis using h by blast
qed

end
