(* ===== verification/Loops.thy ===== *)
theory Loops
  imports Delivery
begin

text \<open>
  The two loops of a session: the order and completeness of what it writes, the replies to what it reads,
  and the end of \<open>Run\<close>.
\<close>

subsection \<open>Outbound order\<close>

definition written :: "Client \<Rightarrow> outboundMessage list" where
  "written x = (case c_connection x of None \<Rightarrow> [] | Some s \<Rightarrow> so_written s)"

text \<open>Everything handed to a session in order: the frames on the wire, pings apart, then the queue.\<close>

definition traffic :: "Client \<Rightarrow> outboundMessage list" where
  "traffic x = filter (\<lambda>m. om_messageType m \<noteq> PingMessage) (written x @ ch_buf (c_send x))"

datatype traffic_op = Queue bytes | Flush write_choice

fun run_traffic :: "cref \<Rightarrow> traffic_op list \<Rightarrow> world \<Rightarrow> bytes list \<times> world" where
  "run_traffic c [] w = ([], w)"
| "run_traffic c (Queue p # ops) w =
     (case Send c TextMessage p w of (ok, w1) \<Rightarrow>
      case run_traffic c ops w1 of (accepted, w2) \<Rightarrow> (if ok then p # accepted else accepted, w2))"
| "run_traffic c (Flush choice # ops) w = run_traffic c ops (snd (write_step c choice w))"

lemma steps_run_traffic: "run_traffic c ops w' = (a, w1) \<Longrightarrow> steps w w' \<Longrightarrow> steps w w1"
proof (induction c ops w' arbitrary: a w1 rule: run_traffic.induct)
  case (2 c p ops w')
  then show ?case by (auto split: prod.splits dest: steps_Send)
next
  case (3 c ch ops w')
  have "steps w (snd (write_step c ch w'))" using steps_write_step [OF prod.collapse [symmetric]] 3(3) .
  with 3 show ?case by simp
qed auto

lemma open_below: "world_ok w \<Longrightarrow> \<not> c_closed (w_clients w c) \<Longrightarrow> c < w_next w"
  by (auto simp: world_ok_def gauge_ok_def open_sessions_def flags_ok_def) (meson not_le)

lemma unclosed_before:
  "world_ok w \<Longrightarrow> steps w w' \<Longrightarrow> c < w_next w \<Longrightarrow> \<not> c_closed (w_clients w' c) \<Longrightarrow> \<not> c_closed (w_clients w c)"
  using steps_grows [of _ w w'] by (auto simp: grows_def client_grows_def)

lemma Close_closes: "flags_ok (w_clients w c) \<Longrightarrow> c_closed (w_clients (Close c r w) c)"
  by (simp add: Close_clients flags_ok_def)

lemma set_write_deadline_client:
  assumes "set_write_deadline c w = (ok, w1)"
  shows "c_send (w_clients w1 c) = c_send (w_clients w c)" and "written (w_clients w1 c) = written (w_clients w c)"
    and "flags_ok (w_clients w c) \<Longrightarrow> flags_ok (w_clients w1 c)"
    and "map_option (\<lambda>s. ()) (c_connection (w_clients w1 c)) = map_option (\<lambda>s. ()) (c_connection (w_clients w c))"
    and "c_closed (w_clients w1 c) = c_closed (w_clients w c)"
  using assms
  by (auto simp: set_write_deadline_def draw_clock_def written_def flags_ok_def option.map_comp o_def
      split: if_splits option.splits)

lemma write_frame_client:
  assumes "write_frame c m w = (ok, w1)" and "flags_ok (w_clients w c)" and "c_connection (w_clients w c) \<noteq> None"
  shows "(if ok then c_send (w_clients w1 c) = c_send (w_clients w c) \<and>
                     written (w_clients w1 c) = written (w_clients w c) @ [m]
          else c_closed (w_clients w1 c))"
proof -
  obtain k wa where a: "(if 0 < c_writeTimeout (w_clients w c) then set_write_deadline c w else (True, w)) = (k, wa)"
    by fastforce
  then have s: "c_send (w_clients wa c) = c_send (w_clients w c)" "written (w_clients wa c) = written (w_clients w c)"
    "flags_ok (w_clients wa c)" "c_connection (w_clients wa c) \<noteq> None"
    using set_write_deadline_client [of c w k wa] assms(2,3) by (auto split: if_splits)
  show ?thesis
  proof (cases "k \<and> \<not> e_sock (w_env wa) (w_tick wa)")
    case True
    with assms(1) a s show ?thesis by (auto simp: write_frame_def written_def)
  next
    case False
    have "c_closed (w_clients (Close c r wa) c)" "c_closed (w_clients (Close c r (tick wa)) c)" for r
      using s(3) by (simp_all add: Close_closes)
    with False assms(1) a show ?thesis by (auto simp: write_frame_def split: bool.splits)
  qed
qed

lemma write_step_traffic:
  assumes "world_ok w" and "write_step c choice w = (ok, w1)" and "\<not> c_closed (w_clients w1 c)"
    and "c_connection (w_clients w c) \<noteq> None"
  shows "traffic (w_clients w1 c) = traffic (w_clients w c)"
proof -
  from assms(1) have f: "flags_ok (w_clients w c)" by (simp add: world_ok_def)
  have op: "\<not> c_closed (w_clients w c)" using assms(2,3) by (auto simp: write_step_def)
  then have sel: "write_select c choice w = (ok, w1)" using assms(2) by (simp add: write_step_def)
  show ?thesis
  proof (cases choice)
    case ChooseDone
    with sel show ?thesis by (simp add: write_select_def)
  next
    case ChoosePing
    show ?thesis
    proof (cases "0 < c_pingInterval (w_clients w c)")
      case True
      with sel ChoosePing have "write_frame c \<lparr>om_messageType = PingMessage, om_payload = []\<rparr> w = (ok, w1)"
        by (simp add: write_select_def)
      from write_frame_client [OF this f assms(4)] assms(3) show ?thesis
        by (auto simp: traffic_def split: if_splits)
    next
      case False
      with sel ChoosePing show ?thesis by (simp add: write_select_def)
    qed
  next
    case ChooseMessage
    show ?thesis
    proof (cases "try_recv (c_send (w_clients w c))")
      case None
      with sel ChooseMessage show ?thesis by (simp add: write_select_def)
    next
      case (Some p)
      then obtain m ch where p: "try_recv (c_send (w_clients w c)) = Some (m, ch)" by (cases p) auto
      let ?w = "upd_client c (\<lambda>x. x\<lparr>c_send := ch\<rparr>) w"
      obtain k wa where a: "write_frame c m ?w = (k, wa)" by fastforce
      have f': "flags_ok (w_clients ?w c)" "c_connection (w_clients ?w c) \<noteq> None"
        using f assms(4) by (simp_all add: flags_ok_def)
      from sel ChooseMessage p a have "w_clients w1 = w_clients wa" by (cases k) (auto simp: write_select_def)
      with write_frame_client [OF a f'] assms(3) try_recv_suffix [OF p] show ?thesis
        by (auto simp: traffic_def written_def split: if_splits)
    qed
  qed
qed

lemma steps_connection:
  "world_ok w \<Longrightarrow> steps w w' \<Longrightarrow> c < w_next w \<Longrightarrow> c_connection (w_clients w c) \<noteq> None \<Longrightarrow>
     c_connection (w_clients w' c) \<noteq> None"
  using steps_grows [of _ w w'] by (auto simp: grows_def client_grows_def)

lemma Send_traffic:
  assumes "world_ok w" and "Send c TextMessage p w = (ok, w1)" and "\<not> c_closed (w_clients w1 c)"
  shows "traffic (w_clients w1 c) = traffic (w_clients w c) @ (if ok then [text_frame p] else [])"
proof -
  from assms(1) have "flags_ok (w_clients w c)" by (simp add: world_ok_def)
  from Send_clients [OF this, of TextMessage p] assms(2)
  have e: "w_clients w1 c = receive (text_frame p) (w_clients w c)" by (simp add: text_frame_def)
  have "ok = (\<not> c_closed (w_clients w c) \<and> has_room (w_clients w c))"
    using Send_result [of c TextMessage p w] assms(2) by simp
  with e assms(3) show ?thesis
    by (auto simp: receive_def traffic_def written_def text_frame_def TextMessage_def PingMessage_def
        split: if_splits)
qed

text \<open>
  C23: as long as a session stays open, what it has written to its socket followed by what is
  queued is exactly what was accepted for it, in order: no accepted frame is lost, duplicated or overtaken,
  however sends, writes and pings interleave.
\<close>

theorem outbound_order:
  assumes "world_ok w" and "c_connection (w_clients w c) \<noteq> None" and "c < w_next w"
    and "run_traffic c ops w = (accepted, w')" and "\<not> c_closed (w_clients w' c)"
  shows "traffic (w_clients w' c) = traffic (w_clients w c) @ map text_frame accepted"
  using assms
proof (induction c ops w arbitrary: accepted w' rule: run_traffic.induct)
  case (1 c w)
  then show ?case by simp
next
  case (2 c p ops w)
  obtain ok w1 where s: "Send c TextMessage p w = (ok, w1)" by fastforce
  obtain acc w2 where r: "run_traffic c ops w1 = (acc, w2)" by fastforce
  from 2(5) s r have w': "w' = w2" "accepted = (if ok then p # acc else acc)" by auto
  have st: "steps w w1" by (rule steps_Send [OF s]) simp
  have st2: "steps w1 w2" by (rule steps_run_traffic [OF r]) simp
  have ok1: "world_ok w1" by (rule process_inv.steps_inv [OF st 2(2)])
  have below: "c < w_next w1" using steps_grows [OF st] 2(4) by (simp add: grows_def)
  have "\<not> c_closed (w_clients w1 c)" using unclosed_before [OF ok1 st2 below] 2(6) w' by simp
  from Send_traffic [OF 2(2) s this]
    2(1) [OF s [symmetric] ok1 steps_connection [OF 2(2) st 2(4,3)] below r] 2(6) w'
  show ?case by simp
next
  case (3 c ch ops w)
  obtain ok w1 where s: "write_step c ch w = (ok, w1)" by fastforce
  with 3(5) have r: "run_traffic c ops w1 = (accepted, w')" by simp
  have st: "steps w w1" by (rule steps_write_step [OF s]) simp
  have st2: "steps w1 w'" by (rule steps_run_traffic [OF r]) simp
  have ok1: "world_ok w1" by (rule process_inv.steps_inv [OF st 3(2)])
  have below: "c < w_next w1" using steps_grows [OF st] 3(4) by (simp add: grows_def)
  have "\<not> c_closed (w_clients w1 c)" using unclosed_before [OF ok1 st2 below] 3(6) by simp
  with write_step_traffic [OF 3(2) s _ 3(3)] have "traffic (w_clients w1 c) = traffic (w_clients w c)" by simp
  with 3(1) [unfolded s snd_conv, OF ok1 steps_connection [OF 3(2) st 3(4,3)] below r 3(6)] show ?case by simp
qed

theorem outbound_order_witness:
  "\<exists>accepted w'.
     run_traffic 1 [Queue ''a'', Queue ''b'', Flush ChooseMessage, Queue ''c''] sample_world = (accepted, w') \<and>
     accepted = [''a'', ''b'', ''c''] \<and>
     traffic (w_clients w' 1) = traffic (w_clients sample_world 1) @ map text_frame accepted"
proof -
  let ?ops = "[Queue ''a'', Queue ''b'', Flush ChooseMessage, Queue ''c'']"
  obtain accepted w' where r: "run_traffic 1 ?ops sample_world = (accepted, w')" by fastforce
  have a: "fst (run_traffic 1 ?ops sample_world) = [''a'', ''b'', ''c'']" by code_simp
  have o: "\<not> c_closed (w_clients (snd (run_traffic 1 ?ops sample_world)) 1)" by code_simp
  have n: "1 < w_next sample_world" by code_simp
  have "map_option so_closed (c_connection (w_clients sample_world 1)) = Some False" by code_simp
  then have c: "c_connection (w_clients sample_world 1) \<noteq> None" by auto
  from a o r outbound_order [OF world_ok_sample c n r] show ?thesis by simp
qed

subsection \<open>Replies\<close>

text \<open>The documented behaviour of \<open>crypto/rand\<close> and of a sane clock: random bytes, years of four digits.\<close>

definition healthy :: "env \<Rightarrow> bool" where
  "healthy e = (\<forall>n. e_rand e n \<noteq> None \<and> 0 \<le> w_year (snd (e_clock e n)) \<and> w_year (snd (e_clock e n)) \<le> 9999)"

definition is_reply :: "MessageType \<Rightarrow> bytes \<Rightarrow> event_payload \<Rightarrow> bytes \<Rightarrow> bool" where
  "is_reply messageType requestID payload frame =
     (\<exists>ev. MarshalOutbound ev = Some frame \<and> out_Version ev = ProtocolVersion \<and> out_Type ev = messageType \<and>
           out_RequestID ev = requestID \<and> out_Payload ev = payload)"

text \<open>
  What answering does: an open session with room in its queue gets the reply, a full queue closes the
  session, which takes it out of its hub, and a closed session stays as it is.
\<close>

definition takes_reply :: "Client \<Rightarrow> bool" where
  "takes_reply x = (\<not> c_closed x \<and> has_room x)"

definition overflows :: "Client \<Rightarrow> bool" where
  "overflows x = (\<not> c_closed x \<and> \<not> has_room x)"

definition hubs_after :: "cref \<Rightarrow> world \<Rightarrow> href \<Rightarrow> Hub" where
  "hubs_after c w = (if overflows (w_clients w c) then w_hubs (Close c ''outbound_queue_full'' w) else w_hubs w)"

lemma Send_hubs: "w_hubs (snd (Send c t p w)) = hubs_after c w"
proof (cases "c_closed (w_clients w c)")
  case False
  then show ?thesis
    by (cases "has_room (w_clients w c)")
       (simp_all add: hubs_after_def overflows_def Send_queued Send_full has_room_def Close_hubs split: option.split)
qed (simp add: Send_closed hubs_after_def overflows_def)

lemma send_reply_outcome:
  assumes "world_ok w" and "healthy (w_env w)" and "payload_raw p = []"
  shows "\<exists>frame w'. send_reply c t r p w = (takes_reply (w_clients w c), w') \<and> is_reply t r p frame \<and>
                   w_hubs w' = hubs_after c w \<and>
                   w_clients w' = (w_clients w)(c := receive (text_frame frame) (w_clients w c))"
proof -
  obtain ev w1 where ev: "new_event t r p w = (ev, w1)" by fastforce
  note fr = new_event_frame [OF ev]
  let ?now = "snd (e_clock (w_env w) (Suc (w_tick w)))"
  obtain v where "e_rand (w_env w) (w_tick w) = Some v" using assms(2) unfolding healthy_def by blast
  with fr(7) obtain e where e: "ev = Some e" "out_Version e = ProtocolVersion" "out_Type e = t"
      "out_RequestID e = r" "out_Payload e = p" "out_SentAt e = ?now"
    by (simp add: newOutboundMessage_def newEventID_def)
  have "payload_json p \<noteq> None" using assms(3) payload_json_None [of p] by (simp add: raw_json_def)
  moreover have "time_json ?now \<noteq> None" using assms(2) by (simp add: time_json_def healthy_def)
  ultimately obtain frame where f: "MarshalOutbound e = Some frame"
    using e(5,6) by (auto simp: MarshalOutbound_def outbound_json_def)
  obtain sent w2 where s: "Send c TextMessage frame w1 = (sent, w2)" by fastforce
  have "flags_ok (w_clients w1 c)" using assms(1) fr(1) by (simp add: world_ok_def)
  from Send_clients [OF this, of TextMessage frame] Send_result [of c TextMessage frame w1] s fr(1)
  have "sent = takes_reply (w_clients w c)" "w_clients w2 = (w_clients w)(c := receive (text_frame frame) (w_clients w c))"
    by (simp_all add: text_frame_def takes_reply_def)
  moreover have "w_hubs w2 = hubs_after c w"
    using Send_hubs [of c TextMessage frame w1] s fr(1,2) by (simp add: hubs_after_def Close_hubs split: option.split)
  moreover have "is_reply t r p frame" using e f unfolding is_reply_def by blast
  moreover have "send_reply c t r p w = (sent, w2)" using ev e(1) f s by (simp add: send_reply_def SendJSON_def)
  ultimately show ?thesis by (intro exI [of _ frame] exI [of _ w2]) simp
qed

text \<open>The error a frame is answered with before any command runs, if any.\<close>

definition frame_error :: "bool \<Rightarrow> int \<Rightarrow> bytes \<Rightarrow> (bytes \<times> ErrorPayload) option" where
  "frame_error rateLimitExceeded messageType payload =
     (if messageType \<noteq> TextMessage then
        Some ([], \<lparr>ep_Code = ErrorInvalidMessage, ep_Message = ''Only JSON text frames are supported.'',
                   ep_Retryable = False\<rparr>)
      else (case DecodeInbound payload of (message, protocolError) \<Rightarrow>
        if rateLimitExceeded then
          Some (case protocolError of None \<Rightarrow> in_RequestID message | Some pe \<Rightarrow> pe_RequestID pe,
                \<lparr>ep_Code = ErrorRateLimitExceeded, ep_Message = ''Rate limit exceeded.'', ep_Retryable = False\<rparr>)
        else map_option (\<lambda>pe. (pe_RequestID pe,
               \<lparr>ep_Code = pe_Code pe, ep_Message = pe_Message pe, ep_Retryable = False\<rparr>)) protocolError))"

text \<open>
  C28: while the random source and the clock work, a frame that is not text, that decodes to
  a protocol error, or that exceeds the rate limit is answered with exactly one error event, carrying the right code
  and the request identifier the frame had, when the session is open and has room in its queue; no command runs (no
  hub changes), the session stays open and the loop goes on. When the queue is full the session is closed
  instead, which takes it out of its hub, and when the session is closed already nothing happens; in both cases
  the loop ends.
\<close>

theorem refused_frame_answered:
  assumes "world_ok w" and "healthy (w_env w)"
    and "frame_error rateLimitExceeded messageType payload = Some (requestID, err)"
  shows "\<exists>msgType frame w'.
           handle_frame c rateLimitExceeded messageType payload w =
             ((msgType, False, if takes_reply (w_clients w c) then [] else ''outbound_unavailable''), w') \<and>
           is_reply EventError requestID (PError err) frame \<and> w_hubs w' = hubs_after c w \<and>
           w_clients w' = (w_clients w)(c := receive (text_frame frame) (w_clients w c))"
proof -
  from send_reply_outcome [OF assms(1,2), of "PError err" c EventError requestID]
  obtain frame w' where r: "send_reply c EventError requestID (PError err) w = (takes_reply (w_clients w c), w')"
    "is_reply EventError requestID (PError err) frame" "w_hubs w' = hubs_after c w"
    "w_clients w' = (w_clients w)(c := receive (text_frame frame) (w_clients w c))"
    by auto
  have "\<exists>msgType. handle_frame c rateLimitExceeded messageType payload w =
      ((msgType, False, if takes_reply (w_clients w c) then [] else ''outbound_unavailable''), w')"
  proof (cases "messageType = TextMessage")
    case False
    then show ?thesis
      using r(1) assms(3) by (auto simp: handle_frame_def frame_error_def sendProtocolError_def exit_of_def)
  next
    case True
    obtain m pe where d: "DecodeInbound payload = (m, pe)" by fastforce
    show ?thesis
    proof (cases rateLimitExceeded)
      case True
      with \<open>messageType = TextMessage\<close> d r(1) assms(3) show ?thesis
        by (auto simp: handle_frame_def frame_error_def sendError_def exit_of_def)
    next
      case False
      with True d r(1) assms(3) show ?thesis
        by (auto simp: handle_frame_def frame_error_def sendProtocolError_def exit_of_def)
    qed
  qed
  with r(2-4) show ?thesis by blast
qed

lemma healthy_sample: "healthy sample_env"
  by (simp add: healthy_def sample_env_def sample_time_def)

lemma env_sample: "w_env sample_world = sample_env"
  by (simp add: sample_world_def sample_start_def initial_def
      steps_grows [OF steps_history, THEN grows_def [THEN iffD1], THEN conjunct2, THEN conjunct1])

theorem refused_frame_answered_witness:
  "\<exists>msgType frame w'.
     handle_frame 1 False TextMessage ''[]'' sample_world = ((msgType, False, []), w') \<and>
     is_reply EventError [] (PError \<lparr>ep_Code = ErrorInvalidJSON,
       ep_Message = ''The message must contain one valid JSON object.'', ep_Retryable = False\<rparr>) frame \<and>
     w_hubs w' = w_hubs sample_world \<and>
     w_clients w' = (w_clients sample_world)(1 := receive (text_frame frame) (w_clients sample_world 1))"
proof -
  have h: "healthy (w_env sample_world)" by (simp add: env_sample healthy_sample)
  have a: "takes_reply (w_clients sample_world 1)" by code_simp
  then have o: "hubs_after 1 sample_world = w_hubs sample_world" by (simp add: hubs_after_def overflows_def takes_reply_def)
  have f: "frame_error False TextMessage ''[]'' = Some ([], \<lparr>ep_Code = ErrorInvalidJSON,
       ep_Message = ''The message must contain one valid JSON object.'', ep_Retryable = False\<rparr>)" by code_simp
  show ?thesis using refused_frame_answered [OF world_ok_sample h f, of 1] unfolding o if_P [OF a] .
qed

text \<open>
  C29: while the random source and the clock work, a valid \<open>room.join\<close> frame is handled as
  follows. When the hub accepts the join, the session's connection becomes a member of the room, and the
  session, if it is open and has room in its queue, gets exactly one acknowledgement that echoes the request identifier
  and the command. When the hub refuses, no membership changes and the answer is an \<open>unauthorized\<close> error with the
  hub's reason. A session whose queue is full is closed instead of answered, which takes it out of the room
  again; a closed session is not answered; in both cases the loop ends.
\<close>

theorem join_command_effect:
  assumes "world_ok w" and "healthy (w_env w)"
    and "DecodeInbound payload = (m, None)" and "in_Type m = CommandRoomJoin" and "c_hub (w_clients w c) = Some hb"
  shows "\<exists>frame w' reason.
           w_clients w' = (w_clients w)(c := receive (text_frame frame) (w_clients w c)) \<and>
           reason = (if takes_reply (w_clients w c) then [] else ''outbound_unavailable'') \<and>
           (case Join (w_clients w) c (in_RoomID m) (w_hubs w hb) of
              (None, h) \<Rightarrow>
                handle_frame c False TextMessage payload w = ((CommandRoomJoin, True, reason), w') \<and>
                is_reply EventCommandAck (in_RequestID m)
                  (PAck \<lparr>ack_Status = ''accepted'', ack_CommandType = CommandRoomJoin\<rparr>) frame \<and>
                w_hubs w' = hubs_after c (w\<lparr>w_hubs := (w_hubs w)(hb := h)\<rparr>) \<and>
                (is_member (w_hubs w' hb) (in_RoomID m) (c_connectionID (w_clients w c)) \<longleftrightarrow>
                   \<not> (overflows (w_clients w c) \<and> c_onClose (w_clients w c) = Some hb))
            | (Some err, h) \<Rightarrow>
                handle_frame c False TextMessage payload w = ((CommandRoomJoin, False, reason), w') \<and>
                is_reply EventError (in_RequestID m)
                  (PError \<lparr>ep_Code = ErrorUnauthorized, ep_Message = err, ep_Retryable = False\<rparr>) frame \<and>
                w_hubs w' = hubs_after c w)"
proof -
  obtain res h where j: "Join (w_clients w) c (in_RoomID m) (w_hubs w hb) = (res, h)" by fastforce
  let ?w = "upd_hub hb (\<lambda>_. h) w"
  have w: "?w = w\<lparr>w_hubs := (w_hubs w)(hb := h)\<rparr>" by (simp add: upd_hub_def)
  have st: "steps w ?w" by (rule steps_Join [OF j]) simp
  note ok = process_inv.steps_inv [OF st assms(1)]
  show ?thesis
  proof (cases res)
    case None
    from send_reply_outcome [OF ok, of "PAck \<lparr>ack_Status = ''accepted'', ack_CommandType = CommandRoomJoin\<rparr>" c
        EventCommandAck "in_RequestID m"] assms(2)
    obtain frame w' where r: "send_reply c EventCommandAck (in_RequestID m)
        (PAck \<lparr>ack_Status = ''accepted'', ack_CommandType = CommandRoomJoin\<rparr>) ?w = (takes_reply (w_clients w c), w')"
      "is_reply EventCommandAck (in_RequestID m) (PAck \<lparr>ack_Status = ''accepted'', ack_CommandType = CommandRoomJoin\<rparr>) frame"
      "w_hubs w' = hubs_after c ?w" "w_clients w' = (w_clients w)(c := receive (text_frame frame) (w_clients w c))"
      by auto
    have "is_member h (in_RoomID m) (c_connectionID (w_clients w c))"
      using Join_member [of "w_clients w" c "in_RoomID m" "w_hubs w hb"] j None by (simp add: ConnectionID_def)
    moreover have "hub_ok h" using ok by (auto simp: world_ok_def hubs_ok_def upd_hub_def dest: spec [of _ hb])
    then have "\<not> is_member (snd (Unregister (w_clients w) c h)) (in_RoomID m) (c_connectionID (w_clients w c))"
      by (simp add: is_member_def Unregister_effect(1) ConnectionID_def)
    moreover have "overflows (w_clients w c) \<Longrightarrow> \<not> c_closeOnce (w_clients w c)"
      using assms(1) by (simp add: overflows_def world_ok_def flags_ok_def)
    ultimately have "is_member (hubs_after c ?w hb) (in_RoomID m) (c_connectionID (w_clients w c)) \<longleftrightarrow>
        \<not> (overflows (w_clients w c) \<and> c_onClose (w_clients w c) = Some hb)"
      by (auto simp: hubs_after_def Close_hubs' split: option.splits)
    then show ?thesis
      using r j None assms(3-5) unfolding w
      by (intro exI [of _ frame] exI [of _ w'] exI [of _ "if takes_reply (w_clients w c) then [] else ''outbound_unavailable''"])
        (simp add: handle_frame_def run_command_def accept_def sendAcknowledgement_def exit_of_def upd_hub_def)
  next
    case (Some err)
    then have h: "h = w_hubs w hb" using j by (auto simp: Join_def Let_def split: option.splits if_splits)
    let ?l = "logged Warn ''websocket_command_rejected''
                 [(''connection_id'', LStr (c_connectionID (w_clients w c))),
                  (''user_id'', LStr (c_userID (w_clients w c))), (''request_id'', LStr (in_RequestID m)),
                  (''command_type'', LStr (in_Type m)), (''reason'', LStr err)] ?w"
    have "steps w ?l" by (rule steps_log [OF st])
    note okl = process_inv.steps_inv [OF this assms(1)]
    from send_reply_outcome [OF okl, of "PError \<lparr>ep_Code = ErrorUnauthorized, ep_Message = err, ep_Retryable = False\<rparr>" c
        EventError "in_RequestID m"] assms(2)
    obtain frame w' where r: "send_reply c EventError (in_RequestID m)
        (PError \<lparr>ep_Code = ErrorUnauthorized, ep_Message = err, ep_Retryable = False\<rparr>) ?l = (takes_reply (w_clients w c), w')"
      "is_reply EventError (in_RequestID m) (PError \<lparr>ep_Code = ErrorUnauthorized, ep_Message = err, ep_Retryable = False\<rparr>) frame"
      "w_hubs w' = hubs_after c ?l" "w_clients w' = (w_clients w)(c := receive (text_frame frame) (w_clients w c))"
      by auto
    moreover have "hubs_after c ?l = hubs_after c w" using h by (simp add: hubs_after_def Close_hubs split: option.split)
    ultimately show ?thesis
      using j Some h assms(3-5)
      by (intro exI [of _ frame] exI [of _ w'] exI [of _ "if takes_reply (w_clients w c) then [] else ''outbound_unavailable''"])
        (simp add: handle_frame_def run_command_def refuse_def sendError_def exit_of_def)
  qed
qed

definition sample_join_text :: bytes where
  "sample_join_text = (case MarshalInbound sample_join of None \<Rightarrow> [] | Some s \<Rightarrow> s)"

theorem join_command_effect_witness:
  "\<exists>w'. handle_frame 1 False TextMessage sample_join_text sample_world = ((CommandRoomJoin, True, []), w') \<and>
        is_member (w_hubs w' 0) ''lobby'' ''conn_b''"
proof -
  have h: "healthy (w_env sample_world)" by (simp add: env_sample healthy_sample)
  have a: "takes_reply (w_clients sample_world 1)" by code_simp
  then have o: "\<not> overflows (w_clients sample_world 1)" by (simp add: overflows_def takes_reply_def)
  have d: "DecodeInbound sample_join_text = (sample_join, None)" by code_simp
  have t: "in_Type sample_join = CommandRoomJoin" "in_RoomID sample_join = ''lobby''" by code_simp+
  have hb: "c_hub (w_clients sample_world 1) = Some 0" "c_connectionID (w_clients sample_world 1) = ''conn_b''"
    by code_simp+
  have j: "fst (Join (w_clients sample_world) 1 ''lobby'' (w_hubs sample_world 0)) = None" by code_simp
  then obtain g where g: "Join (w_clients sample_world) 1 ''lobby'' (w_hubs sample_world 0) = (None, g)"
    by (metis prod.collapse)
  from join_command_effect [OF world_ok_sample h d t(1) hb(1)] o show ?thesis
    unfolding t(2) hb(2) g prod.case option.case if_P [OF a] by blast
qed

subsection \<open>The end of a session\<close>

definition read_fails :: "session_event \<Rightarrow> bool" where
  "read_fails ev = (ev = Reads ReadTooBig \<or> ev = Reads ReadTimeout \<or> ev = Reads ReadError)"

lemma read_step_fails: "read_fails (Reads r) \<Longrightarrow> fst (read_step c r w) \<noteq> []"
  by (auto simp: read_fails_def read_step_def read_error_reason_def split: if_splits)

lemma session_loop_ends: "list_ex read_fails evs \<Longrightarrow> fst (session_loop c evs w) \<noteq> None"
proof (induction c evs w rule: session_loop.induct)
  case (2 c r evs w)
  then show ?case using read_step_fails [of r c w] by (auto split: prod.splits)
next
  case (3 c ch evs w)
  then show ?case by (auto simp: read_fails_def)
qed simp

lemma readLoop_ends: "list_ex read_fails evs \<Longrightarrow> fst (readLoop c evs w) \<noteq> None"
  using session_loop_ends [of evs c] by (auto simp: readLoop_def split: prod.splits bool.splits)

lemma Run_finished_closed:
  assumes "world_ok w" and "Run c evs w = (True, w')"
  shows "c_closed (w_clients w' c)"
proof -
  have closes: "c_closed (w_clients (Close c r w1) c)" if "steps w w1" for r w1
    using process_inv.steps_inv [OF that assms(1)] by (simp add: Close_closes world_ok_def)
  obtain ev wa where a: "readyEvent c w = (ev, wa)" by fastforce
  have wa: "steps w wa" using steps_new_event [of _ _ _ w ev wa _ w] a by (simp add: readyEvent_def)
  show ?thesis
  proof (cases ev)
    case None
    with assms(2) a closes [OF wa] show ?thesis by (auto simp: Run_def)
  next
    case (Some event)
    obtain ok wb where b: "SendJSON c event wa = (ok, wb)" by fastforce
    obtain rs wc where r: "readLoop c evs wb = (rs, wc)" by fastforce
    have wb: "steps w wb" by (rule steps_SendJSON [OF b wa])
    have wc: "steps w wc" by (rule steps_readLoop [OF r wb])
    from assms(2) a b r Some closes [OF wb] closes [OF wc] show ?thesis
      by (cases ok) (auto simp: Run_def split: option.splits)
  qed
qed

lemma Run_returns:
  assumes "list_ex read_fails evs" and "Run c evs w = (fin, w')"
  shows fin
  using assms(2) readLoop_ends [OF assms(1), of c]
  by (auto simp: Run_def split: option.splits prod.splits bool.splits) (metis fst_conv option.distinct(1))

text \<open>
  C24: whatever the schedule of the two loops, once a read fails \<open>Run\<close> gets past its read loop with
  the session closed, and the write loop it then waits for returns at its next iteration.
\<close>

theorem Run_ends:
  assumes "world_ok w" and "list_ex read_fails evs"
  shows "\<exists>w'. Run c evs w = (True, w') \<and> c_closed (w_clients w' c) \<and> write_step c choice w' = (False, w')"
proof -
  obtain fin w' where r: "Run c evs w = (fin, w')" by fastforce
  have fin by (rule Run_returns [OF assms(2) r])
  with r Run_finished_closed [OF assms(1), of c evs w'] show ?thesis by (simp add: write_step_def)
qed

theorem Run_ends_witness:
  "\<exists>w'. Run 1 [Reads (ReadFrame 2 ''x''), Writes ChooseMessage, Reads ReadTimeout] sample_world = (True, w') \<and>
        c_closed (w_clients w' 1)"
proof -
  have "list_ex read_fails [Reads (ReadFrame 2 ''x''), Writes ChooseMessage, Reads ReadTimeout]"
    by (simp add: read_fails_def)
  from Run_ends [OF world_ok_sample this, of 1] show ?thesis by blast
qed

end
