(* ===== verification/Lifecycle.thy ===== *)
theory Lifecycle
  imports Delivery
begin

text \<open>
  Sessions over their life: the replacement of a user's session, the notice and the forced close of a
  shutdown, and the one order of events that leaves a membership behind.
\<close>

subsection \<open>Replacement\<close>

lemma Register_clients:
  "w_clients (Register hb c w) =
     (case Lookup (UserID (w_clients w c)) (w_hubs w hb) of
        None \<Rightarrow> w_clients w
      | Some old \<Rightarrow> if old = c \<or> c_closeOnce (w_clients w old) then w_clients w
                    else (w_clients w)(old := mark_closed (w_clients w old)))"
  by (auto simp: Register_def register_locked_def Lookup_def Let_def Close_clients split: option.splits)

text \<open>
  registering a session for a user who has an open one closes that older session,
  takes it out of every room, and leaves the new one registered and untouched; the number of registered users
  stays the same.
\<close>

theorem Register_replaces_session:
  assumes "world_ok w" and "UserID (w_clients w c) = u" and "Lookup u (w_hubs w hb) = Some old" and "old \<noteq> c"
    and "UserID (w_clients w old) = u" and "\<not> c_closed (w_clients w old)"
    and "c_onClose (w_clients w old) = Some hb"
  shows "Lookup u (w_hubs (Register hb c w) hb) = Some c \<and>
         w_clients (Register hb c w) = (w_clients w)(old := mark_closed (w_clients w old)) \<and>
         rooms_of (w_hubs (Register hb c w) hb) (c_connectionID (w_clients w old)) = {} \<and>
         Count (w_hubs (Register hb c w) hb) = Count (w_hubs w hb)"
proof -
  obtain rep h1 where r: "register_locked (w_clients w) c (w_hubs w hb) = (rep, h1)" by fastforce
  from assms(1) have ok: "hub_ok (w_hubs w hb)" and f: "flags_ok (w_clients w old)"
    by (simp_all add: world_ok_def hubs_ok_def)
  have ok1: "hub_ok h1" using hub_ok_register [OF ok, of "w_clients w" c] r by simp
  have rep: "rep = Some old" and l: "mget (h_clients h1) u = Some c"
    and n: "length (h_clients h1) = length (h_clients (w_hubs w hb))"
    using r assms(2,3) by (auto simp: register_locked_def Lookup_def Let_def length_mset_key)
  let ?w = "upd_hub hb (\<lambda>_. h1) w"
  have reg: "Register hb c w = Close old ''duplicate_session_replaced'' ?w"
    using r rep assms(4) by (simp add: Register_def)
  have n1: "\<not> c_closeOnce (w_clients ?w old)" using f assms(6) by (simp add: flags_ok_def)
  have h: "w_hubs (Register hb c w) hb = snd (Unregister (w_clients w) old h1)"
    using n1 assms(7) by (simp add: reg Close_hubs')
  have "h_clients (snd (Unregister (w_clients w) old h1)) = h_clients h1"
    using l assms(4,5) by (auto simp: Unregister_def Let_def split: option.splits)
  moreover have "rooms_of (snd (Unregister (w_clients w) old h1)) (c_connectionID (w_clients w old)) = {}"
    using Unregister_effect(1) [OF ok1, of "w_clients w" old] by (simp add: rooms_of_def ConnectionID_def)
  moreover have "w_clients (Register hb c w) = (w_clients w)(old := mark_closed (w_clients w old))"
    using n1 by (simp add: reg Close_clients)
  ultimately show ?thesis using h l n by (simp add: Lookup_def Count_def len_def)
qed

theorem Register_replaces_session_witness:
  "Lookup ''alice'' (w_hubs (Register 0 2 (perform (DoNewClient (Some new_socket) (sample_options ''conn_c'' ''alice'' 3))
     sample_world)) 0) = Some 2"
proof -
  let ?w = "perform (DoNewClient (Some new_socket) (sample_options ''conn_c'' ''alice'' 3)) sample_world"
  have ok: "world_ok ?w"
    using world_ok_history [OF world_ok_sample, of "[DoNewClient (Some new_socket) (sample_options ''conn_c'' ''alice'' 3)]"]
    by simp
  have a: "UserID (w_clients ?w 2) = ''alice''" "Lookup ''alice'' (w_hubs ?w 0) = Some 0"
    "UserID (w_clients ?w 0) = ''alice''" "\<not> c_closed (w_clients ?w 0)" "c_onClose (w_clients ?w 0) = Some 0"
    by code_simp+
  from Register_replaces_session [OF ok a(1,2) _ a(3-5)] show ?thesis by simp
qed

subsection \<open>Shutdown\<close>

definition registered :: "href \<Rightarrow> world \<Rightarrow> cref set" where
  "registered hb w = {c. \<exists>u. mget (h_clients (w_hubs w hb)) u = Some c}"

text \<open>
  How the session handler sets sessions up: a registered session is registered under its own user, is
  open, and unregisters from this hub when it closes.
\<close>

definition attached :: "href \<Rightarrow> world \<Rightarrow> bool" where
  "attached hb w =
     (\<forall>u c. mget (h_clients (w_hubs w hb)) u = Some c \<longrightarrow>
        UserID (w_clients w c) = u \<and> c < w_next w \<and> \<not> c_closed (w_clients w c) \<and> c_onClose (w_clients w c) = Some hb)"

text \<open>The policy under which that stays so: only an open session of this hub is registered with it.\<close>

definition owner :: "href \<Rightarrow> world \<Rightarrow> href \<Rightarrow> cref \<Rightarrow> bool" where
  "owner hb w hb' c =
     (hb' = hb \<longrightarrow> c < w_next w \<and> \<not> c_closed (w_clients w c) \<and> c_onClose (w_clients w c) = Some hb)"

lemma Snapshot_registered:
  assumes "hub_ok (w_hubs w hb)" and "attached hb w"
  shows "distinct (Snapshot pick (w_hubs w hb)) \<and> set (Snapshot pick (w_hubs w hb)) = registered hb w"
proof -
  let ?m = "h_clients (w_hubs w hb)" and ?ks = "range_order pick (mkeys (h_clients (w_hubs w hb)))"
  have m: "mwf ?m" by (rule hub_okD(1) [OF assms(1)])
  have ks: "distinct ?ks" "set ?ks = set (mkeys ?m)" using m by (auto simp: mwf_def)
  have "inj_on (\<lambda>k. the (mget ?m k)) (set ?ks)"
  proof (rule inj_onI)
    fix k k'
    assume "k \<in> set ?ks" "k' \<in> set ?ks" and eq: "the (mget ?m k) = the (mget ?m k')"
    then obtain c where c: "mget ?m k = Some c" "mget ?m k' = Some c" by (auto simp: set_mkeys)
    then have "UserID (w_clients w c) = k" "UserID (w_clients w c) = k'"
      using assms(2) unfolding attached_def by blast+
    then show "k = k'" by simp
  qed
  then have "distinct (List.map_filter (mget ?m) ?ks)"
    using ks(1) unfolding map_filter_mget(1) [OF m ks] by (simp only: distinct_map)
  then show ?thesis
    using map_filter_mget(2) [OF m ks] by (simp add: Snapshot_def registered_def)
qed

lemma hub_step_sessions:
  assumes "hub_ok h"
  shows "mget (h_clients (hub_step cls op h)) u =
    (case op of
       OpRegister c \<Rightarrow> if u = UserID (cls c) then Some c else mget (h_clients h) u
     | OpUnregister c \<Rightarrow> if u = UserID (cls c) \<and> mget (h_clients h) u = Some c then None else mget (h_clients h) u
     | _ \<Rightarrow> mget (h_clients h) u)"
proof (cases op)
  case (OpUnregister c)
  then show ?thesis by (auto simp: Unregister_effect(3) [OF assms])
qed (auto simp: register_locked_def Join_def Leave_def SetBroker_def Let_def split: option.splits)

lemma Close_sessions:
  assumes "hubs_ok w" and "\<not> c_closeOnce (w_clients w c)"
  shows "mget (h_clients (w_hubs (Close c r w) hb)) u =
    (if c_onClose (w_clients w c) = Some hb \<and> u = UserID (w_clients w c) \<and> mget (h_clients (w_hubs w hb)) u = Some c
     then None else mget (h_clients (w_hubs w hb)) u)"
  using assms hub_step_sessions [of "w_hubs w hb" "w_clients w" "OpUnregister c" u]
  by (auto simp: Close_hubs' hubs_ok_def split: option.splits)

text \<open>Every atomic step keeps it.\<close>

lemma attached_keep:
  assumes "attached hb w" and "w_next w \<le> w_next w'"
    and "\<And>u c. mget (h_clients (w_hubs w' hb)) u = Some c \<Longrightarrow> mget (h_clients (w_hubs w hb)) u = Some c"
    and "\<And>c. c < w_next w \<Longrightarrow> c \<in> registered hb w' \<Longrightarrow>
           c_userID (w_clients w' c) = c_userID (w_clients w c) \<and> c_closed (w_clients w' c) = c_closed (w_clients w c) \<and>
           c_onClose (w_clients w' c) = c_onClose (w_clients w c)"
  shows "attached hb w'"
  unfolding attached_def
proof (intro allI impI)
  fix u c
  assume c: "mget (h_clients (w_hubs w' hb)) u = Some c"
  from assms(1) assms(3) [OF c] have old: "UserID (w_clients w c) = u" "c < w_next w" "\<not> c_closed (w_clients w c)"
    "c_onClose (w_clients w c) = Some hb" unfolding attached_def by blast+
  have "c \<in> registered hb w'" using c by (auto simp: registered_def)
  from assms(4) [OF old(2) this] old assms(2) show
    "UserID (w_clients w' c) = u \<and> c < w_next w' \<and> \<not> c_closed (w_clients w' c) \<and> c_onClose (w_clients w' c) = Some hb"
    by (simp add: UserID_def)
qed

lemma attached_step:
  assumes "pstep (owner hb) w w'" and "world_ok w" and "attached hb w"
  shows "attached hb w'"
  using assms(1)
proof cases
  case (ws_close c r)
  have ok: "hubs_ok w" using assms(2) by (simp add: world_ok_def)
  have gone: "c \<notin> registered hb w'"
    using assms(3) unfolding ws_close(1) registered_def attached_def
    by (auto simp: Close_sessions [OF ok ws_close(2)] split: if_splits)
  then show ?thesis
    using ws_close
    by (intro attached_keep [OF assms(3)])
      (auto simp: Close_sessions [OF ok ws_close(2)] Close_clients split: if_splits)
next
  case (ws_hub op hb')
  have ok: "hub_ok (w_hubs w hb)" using assms(2) by (simp add: world_ok_def hubs_ok_def)
  show ?thesis
  proof (cases "hb' = hb")
    case True
    note h = hub_step_sessions [OF ok, of "w_clients w" op]
    show ?thesis
      using assms(3) ws_hub True unfolding attached_def owner_def
      by (auto simp: h split: hub_op.splits if_splits)
  qed (use assms(3) ws_hub in \<open>auto simp: attached_def\<close>)
next
  case (ws_client f c)
  then show ?thesis by (intro attached_keep [OF assms(3)]) (auto simp: quiet_clientD)
next
  case (ws_new cn opts)
  then show ?thesis by (intro attached_keep [OF assms(3)]) (auto simp: newClient_simps)
next
  case (ws_push c m)
  then show ?thesis by (intro attached_keep [OF assms(3)]) auto
next
  case (ws_pop c m ch)
  then show ?thesis by (intro attached_keep [OF assms(3)]) auto
qed (use assms(3) in \<open>auto intro: attached_keep\<close>)

interpretation session_owner: transition_inv "pstep (owner hb)" "\<lambda>w. world_ok w \<and> attached hb w" for hb
  using attached_step process_inv.step_inv by unfold_locales blast

lemma attached_Close:
  assumes "world_ok w" and "attached hb w" and "c \<in> registered hb w"
  shows "attached hb (Close c r w)" and "registered hb (Close c r w) = registered hb w - {c}"
proof -
  from assms(2,3) have a: "\<not> c_closed (w_clients w c)" "c_onClose (w_clients w c) = Some hb"
    "mget (h_clients (w_hubs w hb)) (UserID (w_clients w c)) = Some c"
    by (auto simp: attached_def registered_def)
  have ok: "hubs_ok w" and n: "\<not> c_closeOnce (w_clients w c)"
    using assms(1) a(1) by (auto simp: world_ok_def flags_ok_def)
  show "attached hb (Close c r w)" by (rule attached_step [OF ws_close [OF n] assms(1,2)])
  have own: "u = UserID (w_clients w c)" if "mget (h_clients (w_hubs w hb)) u = Some c" for u
    using that assms(2) by (auto simp: attached_def)
  have gone: "mget (h_clients (w_hubs (Close c r w) hb)) u =
      (if mget (h_clients (w_hubs w hb)) u = Some c then None else mget (h_clients (w_hubs w hb)) u)" for u
  proof (cases "mget (h_clients (w_hubs w hb)) u = Some c")
    case True
    with Close_sessions [OF ok n, of r hb u] a(2) own [OF True] show ?thesis by simp
  next
    case False
    with Close_sessions [OF ok n, of r hb u] show ?thesis by simp
  qed
  have "mget (h_clients (w_hubs (Close c r w) hb)) u = Some d \<longleftrightarrow>
        mget (h_clients (w_hubs w hb)) u = Some d \<and> d \<noteq> c" for u d
    unfolding gone by auto
  then show "registered hb (Close c r w) = registered hb w - {c}"
    unfolding registered_def by (simp only:) blast
qed

lemma fold_Close_all:
  assumes "world_ok w" and "attached hb w" and "distinct cs" and "set cs = registered hb w"
  shows "registered hb (fold (\<lambda>c. Close c r) cs w) = {} \<and>
         w_clients (fold (\<lambda>c. Close c r) cs w) =
           (\<lambda>c. if c \<in> set cs then mark_closed (w_clients w c) else w_clients w c)"
  using assms
proof (induction cs arbitrary: w)
  case Nil
  then show ?case by simp
next
  case (Cons d ds)
  let ?w = "Close d r w"
  have d: "d \<in> registered hb w" using Cons.prems(4) by auto
  have ok: "world_ok ?w" by (rule process_inv.steps_inv [OF _ Cons.prems(1)]) (simp add: steps_Close)
  have "set ds = registered hb ?w"
    using attached_Close(2) [OF Cons.prems(1,2) d, of r] Cons.prems(3,4) by auto
  note ih = Cons.IH [OF ok attached_Close(1) [OF Cons.prems(1,2) d] _ this]
  have "flags_ok (w_clients w d)" "\<not> c_closed (w_clients w d)"
    using Cons.prems(1,2) d by (auto simp: world_ok_def attached_def registered_def)
  then have "w_clients ?w = (w_clients w)(d := mark_closed (w_clients w d))"
    by (simp add: Close_clients flags_ok_def)
  with ih Cons.prems(3) show ?case by (auto simp: fun_eq_iff)
qed

lemma CloseAll_result:
  assumes "world_ok w" and "attached hb w"
  shows "registered hb (CloseAll hb r w) = {}"
    and "w_clients (CloseAll hb r w) = (\<lambda>c. if c \<in> registered hb w then mark_closed (w_clients w c) else w_clients w c)"
proof -
  have t: "world_ok (tick w)" "attached hb (tick w)" "registered hb (tick w) = registered hb w"
    using assms process_inv.steps_inv [OF steps_tick [OF rtranclp.rtrancl_refl]]
    by (auto simp: attached_def registered_def)
  have "distinct (Snapshot pick (w_hubs w hb)) \<and> set (Snapshot pick (w_hubs w hb)) = registered hb w" for pick
    using assms by (intro Snapshot_registered) (auto simp: world_ok_def hubs_ok_def)
  with fold_Close_all [OF t(1,2)] t(3)
  show "registered hb (CloseAll hb r w) = {}"
    "w_clients (CloseAll hb r w) = (\<lambda>c. if c \<in> registered hb w then mark_closed (w_clients w c) else w_clients w c)"
    by (auto simp: CloseAll_def fun_eq_iff)
qed

lemma registered_empty: "(registered hb w = {}) = (Count (w_hubs w hb) = 0)"
proof -
  have "(Count (w_hubs w hb) = 0) = (h_clients (w_hubs w hb) = [])" by (simp add: Count_def len_def)
  also have "\<dots> = (\<forall>u. mget (h_clients (w_hubs w hb)) u = None)" by (rule mget_eq_Nil)
  also have "\<dots> = (registered hb w = {})" by (simp add: registered_def) (metis not_None_eq)
  finally show ?thesis by simp
qed

text \<open>
  closing all sessions of a hub whose registered sessions are open and belong to it
  closes exactly the registered sessions and leaves no user registered.
\<close>

theorem CloseAll_empties_hub:
  assumes "world_ok w" and "attached hb w"
  shows "Count (w_hubs (CloseAll hb reason w) hb) = 0 \<and>
         w_clients (CloseAll hb reason w) =
           (\<lambda>c. if c \<in> registered hb w then mark_closed (w_clients w c) else w_clients w c)"
  using CloseAll_result [OF assms, of reason] by (simp add: registered_empty [symmetric])

definition attached_check :: "href \<Rightarrow> world \<Rightarrow> bool" where
  "attached_check hb w =
     list_all (\<lambda>(u, c). UserID (w_clients w c) = u \<and> c < w_next w \<and> \<not> c_closed (w_clients w c) \<and>
                 c_onClose (w_clients w c) = Some hb) (h_clients (w_hubs w hb))"

lemma attached_check: "attached_check hb w \<Longrightarrow> attached hb w"
  unfolding attached_check_def attached_def list_all_iff by (auto dest!: mget_in_set)

theorem CloseAll_empties_hub_witness:
  "Count (w_hubs sample_world 0) = 2 \<and> Count (w_hubs (CloseAll 0 ''server_shutdown'' sample_world) 0) = 0"
proof -
  have a: "attached 0 sample_world" by (rule attached_check) code_simp
  have n: "Count (w_hubs sample_world 0) = 2" by code_simp
  from n CloseAll_empties_hub [OF world_ok_sample a] show ?thesis by simp
qed

text \<open>
  the shutdown notice is one frame sent to every registered session and to no
  other, whatever rooms they are in.
\<close>

theorem BroadcastDraining_notifies:
  assumes "world_ok w" and "attached hb w"
    and "new_event EventServerDraining [] (PDraining ''Server is shutting down. Please reconnect.'') w = (Some event, w1)"
    and "MarshalOutbound event = Some frame"
  shows "w_clients (BroadcastDraining hb w) c =
           (if c \<in> registered hb w then receive (text_frame frame) (w_clients w c) else w_clients w c)"
proof -
  note fr = new_event_frame [OF assms(3)]
  let ?cs = "Snapshot (e_order (w_env w1) (w_tick w1)) (w_hubs w1 hb)"
  have cs: "distinct ?cs" "set ?cs = registered hb w"
    using Snapshot_registered [of w hb "e_order (w_env w1) (w_tick w1)"] assms(1,2) fr(2)
    by (auto simp: world_ok_def hubs_ok_def attached_def)
  have "w_clients (fold (\<lambda>c w. snd (SendJSON c event w)) ?cs (tick w1)) c =
        (if c \<in> set ?cs then receive (text_frame frame) (w_clients (tick w1) c) else w_clients (tick w1) c)"
    using assms(1,4) by (intro fold_receive cs(1)) (auto simp: SendJSON_clients world_ok_def fr(1))
  with cs(2) fr(1) assms(3) show ?thesis by (simp add: BroadcastDraining_def)
qed

theorem BroadcastDraining_notifies_witness:
  "\<exists>frame. w_clients (BroadcastDraining 0 sample_world) 1 = receive (text_frame frame) (w_clients sample_world 1)"
proof -
  let ?n = "new_event EventServerDraining [] (PDraining ''Server is shutting down. Please reconnect.'') sample_world"
  have "(case fst ?n of None \<Rightarrow> False | Some ev \<Rightarrow> MarshalOutbound ev \<noteq> None)" by code_simp
  then obtain ev frame w1 where ev: "?n = (Some ev, w1)" and frame: "MarshalOutbound ev = Some frame"
    by (cases ?n) (auto split: option.splits)
  have a: "attached 0 sample_world" by (rule attached_check) code_simp
  have "Lookup ''bob'' (w_hubs sample_world 0) = Some 1" by code_simp
  then have "1 \<in> registered 0 sample_world" by (auto simp: registered_def Lookup_def)
  with BroadcastDraining_notifies [OF world_ok_sample a ev frame, of 1] show ?thesis by auto
qed

subsection \<open>A membership that outlives its session\<close>

text \<open>
  C32: \<open>Join\<close> does not look at the state of the session. A session that is closed
  while its read loop is about to join a room its user may join is taken out of the registry and out of every
  room, but then the join succeeds: the closed session is a member of the room although it is not registered, and
  closing it again, the only cleanup there is, does not remove it.
\<close>

theorem join_after_close_leaks:
  assumes "world_ok w" and "\<not> c_closed (w_clients w c)" and "c_onClose (w_clients w c) = Some hb"
    and "AuthorizeJoin (h_authorizer (w_hubs w hb)) (UserID (w_clients w c)) roomID = None"
    and w1: "w1 = Close c reason w" and w2: "w2 = upd_hub hb (\<lambda>h. snd (Join (w_clients w1) c roomID h)) w1"
  shows "c_closed (w_clients w1 c) \<and> rooms_of (w_hubs w1 hb) (c_connectionID (w_clients w c)) = {} \<and>
         fst (Join (w_clients w1) c roomID (w_hubs w1 hb)) = None \<and>
         is_member (w_hubs w2 hb) roomID (c_connectionID (w_clients w c)) \<and>
         c_closed (w_clients w2 c) \<and> Lookup (c_userID (w_clients w c)) (w_hubs w2 hb) \<noteq> Some c \<and>
         Close c reason' w2 = w2"
proof -
  have ok: "hub_ok (w_hubs w hb)" and n: "\<not> c_closeOnce (w_clients w c)"
    using assms(1,2) by (auto simp: world_ok_def hubs_ok_def flags_ok_def)
  have h: "w_hubs w1 hb = snd (Unregister (w_clients w) c (w_hubs w hb))" using n by (simp add: w1 Close_hubs' assms(3))
  have x: "w_clients w1 c = mark_closed (w_clients w c)" using n by (simp add: w1 Close_clients)
  note gone = Unregister_effect(1-3) [OF ok, of "w_clients w" c]
  have "\<not> room_limit_hit (ConnectionID (w_clients w1 c)) roomID (w_hubs w1 hb)"
    by (simp add: room_limit_hit_def h gone(2) x ConnectionID_def)
  moreover have "h_authorizer (w_hubs w1 hb) = h_authorizer (w_hubs w hb)"
    by (auto simp: h Unregister_def hub_note_def Let_def split: option.splits)
  ultimately have j: "fst (Join (w_clients w1) c roomID (w_hubs w1 hb)) = None"
    using assms(4) by (simp add: Join_def x UserID_def Let_def)
  have "h_clients (w_hubs w2 hb) = h_clients (w_hubs w1 hb)"
    by (auto simp: w2 Join_def Let_def hub_note_def split: option.split)
  then have "Lookup (c_userID (w_clients w c)) (w_hubs w2 hb) \<noteq> Some c"
    by (simp add: Lookup_def h gone(3) UserID_def)
  moreover have "is_member (w_hubs w2 hb) roomID (c_connectionID (w_clients w c))"
    using Join_member [OF j] by (simp add: w2 x ConnectionID_def)
  moreover have "rooms_of (w_hubs w1 hb) (c_connectionID (w_clients w c)) = {}"
    by (simp add: rooms_of_def h gone(1) ConnectionID_def)
  moreover have "c_closed (w_clients w2 c)" and "Close c reason' w2 = w2" by (simp_all add: w2 x Close_def)
  ultimately show ?thesis using j by (simp add: x)
qed

theorem join_after_close_leaks_witness:
  "\<exists>w1 w2. w1 = Close 1 ''duplicate_session_replaced'' sample_world \<and>
     w2 = upd_hub 0 (\<lambda>h. snd (Join (w_clients w1) 1 ''lobby'' h)) w1 \<and>
     is_member (w_hubs w2 0) ''lobby'' ''conn_b'' \<and> c_closed (w_clients w2 1) \<and> Close 1 ''x'' w2 = w2"
proof -
  have c: "\<not> c_closed (w_clients sample_world 1)" by code_simp
  have hb: "c_onClose (w_clients sample_world 1) = Some 0" by code_simp
  have a: "AuthorizeJoin (h_authorizer (w_hubs sample_world 0)) (UserID (w_clients sample_world 1)) ''lobby'' = None"
    by code_simp
  have k: "c_connectionID (w_clients sample_world 1) = ''conn_b''" by code_simp
  from join_after_close_leaks [OF world_ok_sample c hb a refl refl, of "''duplicate_session_replaced''" "''x''"]
  show ?thesis unfolding k by blast
qed

end
