(* ===== verification/Server.thy ===== *)
theory Server
  imports Admission Loops Lifecycle
begin

text \<open>
  The composed process (\<open>internal/app\<close>): construction from a configuration, the session handler that
  joins the HTTP boundary to a realtime session, and \<open>Serve\<close> with its shutdown sequence.
  Durations are signed 64-bit numbers of nanoseconds, so their products wrap around.
\<close>

subsection \<open>Construction\<close>

definition wrap64 :: "int \<Rightarrow> int" where
  "wrap64 n = (n + 2 ^ 63) mod 2 ^ 64 - 2 ^ 63"

record httpServer =
  hs_Addr :: bytes
  hs_ReadHeaderTimeout :: int
  hs_ReadTimeout :: int
  hs_WriteTimeout :: int
  hs_IdleTimeout :: int

text \<open>\<open>sv_handler\<close> is the WebSocket handler inside the router of \<open>httpServer\<close>; \<open>sv_config\<close> is the session handler's copy of the configuration.\<close>

record Server =
  sv_httpServer :: httpServer
  sv_handler :: webSocketHandler
  sv_hub :: href
  sv_broker :: bref
  sv_shutdownTimeout :: int
  sv_config :: Config

text \<open>The results of the NATS library calls of construction, subscription and consumption.\<close>

record nats_answers =
  na_connect :: "goerror option"
  na_jetstream :: "goerror option"
  na_stream :: "goerror option"
  na_consumer :: "bytes \<Rightarrow> goerror option"
  na_consume :: "goerror + nat"

datatype new_error = BrokerFailed goerror | MakeChanPanic

definition new_broker :: "nats_answers \<Rightarrow> Config \<Rightarrow> goerror + broker_impl" where
  "new_broker answers cfg =
     (if cf_BrokerURL cfg \<noteq> [] then
        (case fst (NewNATSBroker (na_connect answers) (na_jetstream answers) (na_stream answers) (cf_NodeID cfg)) of
           Inl err \<Rightarrow> Inl err
         | Inr nb \<Rightarrow> Inr (Nats nb))
      else Inr (Mem NewMemoryBroker))"

text \<open>\<open>hb\<close> and \<open>b\<close> are the references under which the new hub and the new broker are stored.\<close>

definition NewServerWithAuthenticator ::
    "href \<Rightarrow> bref \<Rightarrow> nats_answers \<Rightarrow> Config \<Rightarrow> Authenticator \<Rightarrow> world \<Rightarrow> new_error + Server \<times> boundary" where
  "NewServerWithAuthenticator hb b answers cfg authenticator w =
     (case new_broker answers cfg of
        Inl err \<Rightarrow> Inl (BrokerFailed err)
      | Inr br \<Rightarrow>
          (let hub = SetBroker b (cf_NodeID cfg) (NewHub AllowAllAuthorizer (cf_MaxRoomsPerClient cfg));
               w1 = w\<lparr>w_hubs := (w_hubs w)(hb := hub), w_brokers := (w_brokers w)(b := br)\<rparr>
           in case NewWebSocketHandler \<lparr>wo_Authenticator = authenticator, wo_AllowedOrigins = cf_AllowedOrigins cfg,
                                        wo_MaxConnections = cf_MaxConnections cfg\<rparr> of
                None \<Rightarrow> Inl MakeChanPanic
              | Some (handler, admission) \<Rightarrow>
                  Inr (\<lparr>sv_httpServer = \<lparr>hs_Addr = cf_HTTPAddress cfg, hs_ReadHeaderTimeout = cf_ReadHeader cfg,
                          hs_ReadTimeout = cf_ReadTimeout cfg, hs_WriteTimeout = cf_WriteTimeout cfg,
                          hs_IdleTimeout = cf_IdleTimeout cfg\<rparr>,
                        sv_handler = handler, sv_hub = hb, sv_broker = b,
                        sv_shutdownTimeout = cf_ShutdownTimeout cfg, sv_config = cfg\<rparr>,
                       \<lparr>bd_health = SetChecker b NewHealth, bd_admission = admission, bd_world = w1\<rparr>)))"

definition NewServer ::
    "href \<Rightarrow> bref \<Rightarrow> nats_answers \<Rightarrow> Config \<Rightarrow> world \<Rightarrow> new_error + Server \<times> boundary" where
  "NewServer hb b answers cfg w =
     NewServerWithAuthenticator hb b answers cfg
       (if cf_Environment cfg = ''production'' then RejectingAuthenticator else DevelopmentAuthenticator) w"

definition ActiveClients :: "Server \<Rightarrow> boundary \<Rightarrow> int" where
  "ActiveClients srv s = Count (w_hubs (bd_world s) (sv_hub srv))"

definition Server_Ready :: "bool \<Rightarrow> boundary \<Rightarrow> bool" where
  "Server_Ready isConnected s = Ready isConnected (bd_world s) (bd_health s)"

subsection \<open>The session handler\<close>

definition ping_interval :: "Config \<Rightarrow> int" where
  "ping_interval cfg = wrap64 (cf_WebSocketReadTimeout cfg * 9) sdiv 10"

definition new_limiter :: "Config \<Rightarrow> world \<Rightarrow> RateLimiter option \<times> world" where
  "new_limiter cfg w =
     (if 0 < cf_RateLimitMessages cfg \<and> 0 < cf_RateLimitInterval cfg then
        (case draw_clock w of (t, w1) \<Rightarrow>
           (Some (NewRateLimiter (cf_RateLimitMessages cfg) (cf_RateLimitInterval cfg) (fst t)), w1))
      else (None, w))"

definition session_options :: "Config \<Rightarrow> href \<Rightarrow> Session \<Rightarrow> RateLimiter option \<Rightarrow> ClientOptions" where
  "session_options cfg hb session limiter =
     \<lparr>co_ConnectionID = se_ConnectionID session, co_UserID = se_UserID session,
      co_QueueCapacity = cf_OutboundQueueCapacity cfg, co_ReadTimeout = cf_WebSocketReadTimeout cfg,
      co_WriteTimeout = cf_WebSocketWriteTimeout cfg, co_OnClose = Some hb, co_Hub = Some hb,
      co_PingInterval = ping_interval cfg, co_MaxMessageSize = cf_WebSocketMaxMessageSize cfg,
      co_RateLimiter = limiter\<rparr>"

text \<open>\<open>Handle\<close> up to the registration, and the whole handler for a schedule \<open>evs\<close> of the session's two loops.\<close>

definition Handle_open :: "Config \<Rightarrow> href \<Rightarrow> socket \<Rightarrow> Session \<Rightarrow> world \<Rightarrow> cref \<times> world" where
  "Handle_open cfg hb connection session w =
     (case new_limiter cfg w of (limiter, w1) \<Rightarrow>
      case newClient (Some connection) (session_options cfg hb session limiter) w1 of (c, w2) \<Rightarrow>
        (c, Register hb c w2))"

definition Handle ::
    "Config \<Rightarrow> href \<Rightarrow> session_event list \<Rightarrow> socket \<Rightarrow> Session \<Rightarrow> world \<Rightarrow> bool \<times> world" where
  "Handle cfg hb evs connection session w =
     (case Handle_open cfg hb connection session w of (c, w1) \<Rightarrow> Run c evs w1)"

subsection \<open>Serve\<close>

datatype subscription = MemorySub nat | NatsSub nat

definition broker_Subscribe :: "nats_answers \<Rightarrow> bref \<Rightarrow> bytes \<Rightarrow> href \<Rightarrow> world \<Rightarrow> (goerror + subscription) \<times> world" where
  "broker_Subscribe answers b subject hb w =
     (case w_brokers w b of
        Mem mb \<Rightarrow>
          (case mem_Subscribe subject hb mb of
             (r, mb') \<Rightarrow> (map_sum id MemorySub r, w\<lparr>w_brokers := (w_brokers w)(b := Mem mb')\<rparr>))
      | Nats nb \<Rightarrow>
          (case nats_Subscribe (na_consumer answers) (na_consume answers) subject nb of
             (r, nb') \<Rightarrow> (map_sum id NatsSub r, w\<lparr>w_brokers := (w_brokers w)(b := Nats nb')\<rparr>)))"

text \<open>The cancel function of a subscription; stopping a NATS consumer is a library call.\<close>

definition unsubscribe :: "bref \<Rightarrow> subscription \<Rightarrow> world \<Rightarrow> world" where
  "unsubscribe b sub w =
     (case (w_brokers w b, sub) of
        (Mem mb, MemorySub subID) \<Rightarrow> w\<lparr>w_brokers := (w_brokers w)(b := Mem (mem_cancel subID mb))\<rparr>
      | _ \<Rightarrow> w)"

definition broker_Close :: "bref \<Rightarrow> world \<Rightarrow> world" where
  "broker_Close b w =
     w\<lparr>w_brokers := (w_brokers w)(b := (case w_brokers w b of
                                          Mem mb \<Rightarrow> Mem (mem_Close mb)
                                        | Nats nb \<Rightarrow> Nats (fst (nats_Close nb))))\<rparr>"

definition set_ready :: "bool \<Rightarrow> boundary \<Rightarrow> boundary" where
  "set_ready ready s = s\<lparr>bd_health := SetReady ready (bd_health s)\<rparr>"

definition drain_timeout :: "Server \<Rightarrow> int" where
  "drain_timeout srv = wrap64 (sv_shutdownTimeout srv * 8) sdiv 10"

definition remaining_timeout :: "Server \<Rightarrow> int" where
  "remaining_timeout srv =
     (let remaining = wrap64 (sv_shutdownTimeout srv - drain_timeout srv) in
      if remaining \<le> 0 then 1000000000 else remaining)"

text \<open>
  The body of the shutdown goroutine. \<open>draining\<close> and \<open>closing\<close> are what the rest of the process does to
  the world during the sleep and during \<open>httpServer.Shutdown\<close>, whose outcome is \<open>shutdownErr\<close>.
  Durations are logged as numbers.
\<close>

definition shutdown_notice :: "Server \<Rightarrow> boundary \<Rightarrow> boundary" where
  "shutdown_notice srv s =
     on_world
       (\<lambda>w. let w1 = BroadcastDraining (sv_hub srv)
                       (logged Info ''server_shutdown_started'' [(''timeout'', LInt (sv_shutdownTimeout srv))] w)
            in if 0 < drain_timeout srv
               then logged Info ''server_drain_started'' [(''drain_timeout'', LInt (drain_timeout srv))] w1 else w1)
       (set_ready False s)"

definition drained :: "Server \<Rightarrow> (world \<Rightarrow> world) \<Rightarrow> boundary \<Rightarrow> boundary" where
  "drained srv draining s =
     (let s1 = shutdown_notice srv s in if 0 < drain_timeout srv then on_world draining s1 else s1)"

definition shutdown :: "Server \<Rightarrow> (world \<Rightarrow> world) \<Rightarrow> (world \<Rightarrow> world) \<Rightarrow> bool \<Rightarrow> boundary \<Rightarrow> boundary" where
  "shutdown srv draining closing shutdownErr s =
     (let s1 = on_world (CloseAll (sv_hub srv) ''server_shutdown'') (drained srv draining s);
          s2 = on_world closing s1
      in if shutdownErr then on_world (logged Error ''server_shutdown_failed'' [(''error'', LErr)]) s2 else s2)"

text \<open>The deferred calls of \<open>Serve\<close>: cancel the subscription, then close the broker.\<close>

definition Serve_exit :: "Server \<Rightarrow> subscription \<Rightarrow> boundary \<Rightarrow> boundary" where
  "Serve_exit srv sub s = on_world (\<lambda>w. broker_Close (sv_broker srv) (unsubscribe (sv_broker srv) sub w)) s"

definition Serve_start :: "Server \<Rightarrow> nats_answers \<Rightarrow> bytes \<Rightarrow> boundary \<Rightarrow> (goerror + subscription) \<times> boundary" where
  "Serve_start srv answers address s =
     (case broker_Subscribe answers (sv_broker srv) ''blockforge.>'' (sv_hub srv) (bd_world s) of
        (Inl err, w1) \<Rightarrow> (Inl err, s\<lparr>bd_world := broker_Close (sv_broker srv) w1\<rparr>)
      | (Inr sub, w1) \<Rightarrow>
          (Inr sub, on_world (logged Info ''server_started'' [(''address'', LStr address)])
                      (set_ready True (s\<lparr>bd_world := w1\<rparr>))))"

text \<open>
  How serving ends: the context is cancelled; \<open>httpServer.Serve\<close> fails with an error other than
  \<open>ErrServerClosed\<close>, and cancels the context; or it fails after the context was cancelled, so that its
  \<open>CloseAll\<close> runs beside the shutdown goroutine, while that drains or later, and is followed by \<open>after\<close>.
\<close>

datatype serve_end = Cancelled | Failed goerror | FailedLate goerror bool "world \<Rightarrow> world"

fun end_error :: "serve_end \<Rightarrow> goerror option" where
  "end_error Cancelled = None"
| "end_error (Failed err) = Some err"
| "end_error (FailedLate err _ _) = Some err"

definition late_failure :: "Server \<Rightarrow> (world \<Rightarrow> world) \<Rightarrow> (world \<Rightarrow> world) \<Rightarrow> world \<Rightarrow> world" where
  "late_failure srv after before w = after (CloseAll (sv_hub srv) ''server_failure'' (before w))"

text \<open>\<open>running\<close> is what happens while the server serves.\<close>

definition Serve ::
    "Server \<Rightarrow> nats_answers \<Rightarrow> bytes \<Rightarrow> (world \<Rightarrow> world) \<Rightarrow> (world \<Rightarrow> world) \<Rightarrow> (world \<Rightarrow> world) \<Rightarrow>
     serve_end \<Rightarrow> bool \<Rightarrow> boundary \<Rightarrow> goerror option \<times> boundary" where
  "Serve srv answers address running draining closing ending shutdownErr s =
     (case Serve_start srv answers address s of
        (Inl err, s1) \<Rightarrow> (Some err, s1)
      | (Inr sub, s1) \<Rightarrow>
          (let s2 = on_world running s1 in
           case ending of
             Failed err \<Rightarrow>
               (Some err,
                Serve_exit srv sub
                  (shutdown srv draining closing shutdownErr
                    (on_world (CloseAll (sv_hub srv) ''server_failure'') (set_ready False s2))))
           | FailedLate err inDrain after \<Rightarrow>
               (Some err,
                Serve_exit srv sub
                  (if inDrain then shutdown srv (late_failure srv after draining) closing shutdownErr s2
                   else shutdown srv draining (late_failure srv after closing) shutdownErr s2))
           | Cancelled \<Rightarrow>
               (None,
                Serve_exit srv sub
                  (on_world (logged Info ''server_stopped'' []) (shutdown srv draining closing shutdownErr s2)))))"

end
