(* ===== verification/Process.thy ===== *)
theory Process
  imports Server
begin

text \<open>
  The process end to end: production stays closed without a verifier, a session handler cleans up after
  its session, the order of a shutdown, and the timeouts the code derives from the configured ones.
\<close>

subsection \<open>Construction\<close>

lemma NewServer_handler:
  assumes "NewServer hb b answers cfg w = Inr (srv, s)"
  shows "wh_authenticator (sv_handler srv) =
           (if cf_Environment cfg = ''production'' then RejectingAuthenticator else DevelopmentAuthenticator)"
    and "bd_health s = \<lparr>he_ready = False, he_checker = Some b\<rparr>"
    and "sv_hub srv = hb" and "sv_broker srv = b" and "sv_shutdownTimeout srv = cf_ShutdownTimeout cfg" and "sv_config srv = cfg"
  using assms
  by (auto simp: NewServer_def NewServerWithAuthenticator_def NewWebSocketHandler_def NewHealth_def SetChecker_def
      split: sum.splits if_splits)

lemma rejecting_admit:
  assumes "wh_authenticator h = RejectingAuthenticator"
  shows "\<exists>r s'. ServeHTTP_admit g isConnected h request s = (Refused r, s') \<and> rs_Status r \<in> {401, 403, 426, 503}"
  using assms
  by (auto simp: ServeHTTP_admit_def refused_def reject_def writeStatus_def RejectingAuthenticator_def Let_def)

lemma rejecting_run:
  assumes "wh_authenticator h = RejectingAuthenticator"
  shows "fst (fold (http_step g h) evs ([], s)) = []"
proof (induction evs arbitrary: s)
  case (Cons ev evs)
  have "\<exists>s'. http_step g h ev ([], s) = ([], s')"
  proof (cases ev)
    case (Arrive isConnected request)
    with rejecting_admit [OF assms, of g isConnected request s] show ?thesis by auto
  qed auto
  with Cons show ?case by auto
qed simp

text \<open>
  C17: a server built for production has no verifier, so it fails closed: whatever requests arrive
  and whatever the library answers, no session ever starts and every upgrade request gets an error status.
\<close>

theorem production_closed:
  assumes "NewServer hb b answers cfg w = Inr (srv, s)" and "cf_Environment cfg = ''production''"
  shows "fst (fold (http_step g (sv_handler srv)) evs ([], s)) = [] \<and>
    (\<exists>r s1. ServeHTTP_admit g isConnected (sv_handler srv) request s' = (Refused r, s1) \<and>
            rs_Status r \<in> {401, 403, 426, 503})"
proof -
  have "wh_authenticator (sv_handler srv) = RejectingAuthenticator"
    using NewServer_handler(1) [OF assms(1)] assms(2) by simp
  from rejecting_run [OF this] rejecting_admit [OF this] show ?thesis by blast
qed

subsection \<open>The session handler\<close>

lemma new_limiter_steps: "new_limiter cfg w = (l, w1) \<Longrightarrow> psteps pol w w1 \<and> w_clients w1 = w_clients w \<and> w_next w1 = w_next w"
  by (auto simp: new_limiter_def draw_clock_def intro: steps_tick split: if_splits)

lemma Handle_open_steps:
  assumes "Handle_open cfg hb connection session w = (c, w1)"
  shows "psteps (owner hb) w w1" and "c = w_next w" and "c < w_next w1"
proof -
  obtain l wa where l: "new_limiter cfg w = (l, wa)" by fastforce
  obtain c' wb where n: "newClient (Some connection) (session_options cfg hb session l) wa = (c', wb)" by fastforce
  note la = new_limiter_steps [OF l]
  have c: "c' = w_next wa" "wb = snd (newClient (Some connection) (session_options cfg hb session l) wa)"
    using n newClient_simps(1) by (metis fst_conv, metis snd_conv)
  have own: "owner hb wb hb c'"
    using c(1) unfolding owner_def c(2) by (simp add: newClient_def client_of_def session_options_def metric_def)
  have wb: "psteps (owner hb) w wb" unfolding c(2) by (rule steps_new) (use la in blast)
  have w1: "w1 = Register hb c' wb" "c = c'" using assms l n by (auto simp: Handle_open_def)
  show st: "psteps (owner hb) w w1" unfolding w1 by (rule steps_Register [where pol = "owner hb", OF own wb])
  show "c = w_next w" using w1(2) c(1) la [of "owner hb"] by simp
  have "grows wb w1" unfolding w1 by (rule steps_grows) (rule steps_Register [where pol = "owner hb", OF own rtranclp.rtrancl_refl])
  moreover have "w_next wb = Suc c'" using c newClient_simps(3) by simp
  ultimately show "c < w_next w1" using w1(2) by (simp add: grows_def)
qed

text \<open>
  C15: a session handler whose connection fails at some point returns, whatever happened in between,
  with its session closed, its socket closed, and the user no longer registered to it.
\<close>

theorem Handle_cleans_up:
  assumes "world_ok w" and "attached hb w" and "list_ex read_fails evs"
  shows "\<exists>w'. Handle cfg hb evs connection session w = (True, w') \<and>
     c_closed (w_clients w' (w_next w)) \<and> Lookup u (w_hubs w' hb) \<noteq> Some (w_next w) \<and>
     map_option so_closed (c_connection (w_clients w' (w_next w))) \<noteq> Some False"
proof -
  obtain c w1 where o: "Handle_open cfg hb connection session w = (c, w1)" by fastforce
  note op = Handle_open_steps [OF o]
  obtain fin w' where r: "Run c evs w1 = (fin, w')" by fastforce
  have inv1: "world_ok w1" using process_inv.steps_inv [OF op(1) assms(1)] .
  have fin: fin using Run_returns [OF assms(3) r] .
  have all: "psteps (owner hb) w w'" by (rule steps_Run [OF r op(1)])
  have inv: "world_ok w'" "attached hb w'" using session_owner.steps_inv [OF all] assms(1,2) by blast+
  have closed: "c_closed (w_clients w' c)" using Run_finished_closed [OF inv1] r fin by simp
  moreover have "Lookup u (w_hubs w' hb) \<noteq> Some c" using inv(2) closed by (auto simp: attached_def Lookup_def)
  moreover have "map_option so_closed (c_connection (w_clients w' c)) \<noteq> Some False"
    using inv(1) closed by (auto simp: world_ok_def flags_ok_def)
  ultimately show ?thesis using o r fin op(2) by (simp add: Handle_def)
qed

subsection \<open>Shutdown\<close>

lemma set_ready_simps [simp]:
  "bd_world (set_ready r s) = bd_world s" "he_ready (bd_health (set_ready r s)) = r"
  "he_checker (bd_health (set_ready r s)) = he_checker (bd_health s)"
  by (simp_all add: set_ready_def SetReady_def)

lemma drained_steps:
  assumes "\<And>w. psteps pol w (draining w)"
  shows "psteps pol (bd_world s) (bd_world (drained srv draining s))"
proof -
  have "psteps pol (bd_world s) (bd_world (shutdown_notice srv s))"
    by (auto simp: shutdown_notice_def Let_def intro!: step_intros)
  then show ?thesis using assms [of "bd_world (shutdown_notice srv s)"]
    by (auto simp: drained_def Let_def intro: rtranclp_trans)
qed

lemma shutdown_world:
  "w_clients (bd_world (shutdown srv draining closing err s)) =
     w_clients (closing (CloseAll (sv_hub srv) ''server_shutdown'' (bd_world (drained srv draining s))))"
  "w_hubs (bd_world (shutdown srv draining closing err s)) =
     w_hubs (closing (CloseAll (sv_hub srv) ''server_shutdown'' (bd_world (drained srv draining s))))"
  by (simp_all add: shutdown_def Let_def)

lemma shutdown_health: "he_ready (bd_health (shutdown srv draining closing err s)) = False"
  by (simp add: shutdown_def drained_def shutdown_notice_def Let_def)

text \<open>
  C14: in any process whose sessions are set up by the session handler, the shutdown switches
  readiness off, closes every session that is registered when the drain period ends, and leaves no user
  registered, provided no handler registers a session after the forced close.
\<close>

theorem shutdown_closes_sessions:
  assumes "world_ok (bd_world s)" and "attached (sv_hub srv) (bd_world s)"
    and "\<And>w. psteps (owner (sv_hub srv)) w (draining w)" and "\<And>w. psteps (owner (sv_hub srv)) w (closing w)"
    and "\<And>w. Count (w_hubs w (sv_hub srv)) = 0 \<Longrightarrow> Count (w_hubs (closing w) (sv_hub srv)) = 0"
  shows "ActiveClients srv (shutdown srv draining closing err s) = 0 \<and>
     \<not> Server_Ready isConnected (shutdown srv draining closing err s) \<and>
     (\<forall>c. c \<in> registered (sv_hub srv) (bd_world (drained srv draining s)) \<longrightarrow>
        c_closed (w_clients (bd_world (shutdown srv draining closing err s)) c))"
proof -
  let ?hb = "sv_hub srv"
  let ?w = "bd_world (drained srv draining s)"
  let ?w2 = "CloseAll ?hb ''server_shutdown'' ?w"
  have inv: "world_ok ?w" "attached ?hb ?w"
    using session_owner.steps_inv [OF drained_steps [OF assms(3)]] assms(1,2) by blast+
  note all = CloseAll_result [OF inv, of "''server_shutdown''"]
  have "Count (w_hubs (closing ?w2) ?hb) = 0" using all(1) assms(5) [of ?w2] by (simp add: registered_empty)
  moreover have "c_closed (w_clients (closing ?w2) c)" if "c \<in> registered ?hb ?w" for c
  proof -
    have "c < w_next ?w" using that inv(2) by (auto simp: attached_def registered_def)
    moreover have "grows ?w ?w2" by (rule steps_grows [where pol = "owner ?hb"]) (simp add: steps_routines(4))
    ultimately have "c < w_next ?w2" by (simp add: grows_def)
    moreover have "c_closed (w_clients ?w2 c)" using that all(2) by simp
    ultimately show ?thesis using steps_grows [OF assms(4) [of ?w2]] by (auto simp: grows_def client_grows_def)
  qed
  ultimately show ?thesis
    by (simp add: ActiveClients_def shutdown_world shutdown_health Server_Ready_def Ready_def)
qed

text \<open>
  C33: the proviso is needed. A request that passed the readiness check before the shutdown
  began may register its session after the forced close; that session stays open and registered although
  the shutdown is over.
\<close>

theorem late_registration_survives:
  assumes "world_ok (bd_world s)" and "attached (sv_hub srv) (bd_world s)"
    and "\<And>w. psteps (owner (sv_hub srv)) w (draining w)"
    and "\<not> c_closed (w_clients (bd_world (drained srv draining s)) c)"
    and "c \<notin> registered (sv_hub srv) (bd_world (drained srv draining s))"
  shows "Lookup (c_userID (w_clients (bd_world (drained srv draining s)) c))
            (w_hubs (bd_world (shutdown srv draining (Register (sv_hub srv) c) err s)) (sv_hub srv)) = Some c \<and>
         \<not> c_closed (w_clients (bd_world (shutdown srv draining (Register (sv_hub srv) c) err s)) c)"
proof -
  let ?hb = "sv_hub srv" and ?w = "bd_world (drained srv draining s)"
  let ?w2 = "CloseAll ?hb ''server_shutdown'' ?w"
  have inv: "world_ok ?w" "attached ?hb ?w"
    using session_owner.steps_inv [OF drained_steps [OF assms(3)]] assms(1,2) by blast+
  note all = CloseAll_result [OF inv, of "''server_shutdown''"]
  have empty: "h_clients (w_hubs ?w2 ?hb) = []" using all(1) by (simp add: registered_empty Count_def len_def)
  have c: "w_clients ?w2 c = w_clients ?w c" using all(2) assms(5) by simp
  obtain h where "register_locked (w_clients ?w2) c (w_hubs ?w2 ?hb) = (None, h)"
    and "h_clients h = [(UserID (w_clients ?w2 c), c)]"
    by (simp add: register_locked_def Let_def empty hub_note_def)
  then show ?thesis
    using assms(4) by (simp add: shutdown_world Register_def Lookup_def c UserID_def)
qed

text \<open>Whether a broker of either kind is closed.\<close>

definition broker_closed :: "broker_impl \<Rightarrow> bool" where
  "broker_closed br = (case br of Mem mb \<Rightarrow> mb_closed mb | Nats nb \<Rightarrow> nb_closed nb)"

lemma broker_Close_closes: "broker_closed (w_brokers (broker_Close b w) b)"
  by (simp add: broker_Close_def broker_closed_def mem_Close_def nats_Close_def split: broker_impl.split)

lemma broker_closed_refuses:
  assumes "broker_closed (w_brokers w b)"
  shows "fst (Publish b subject data w) = Some ErrBrokerClosed" and "\<not> broker_Ready isConnected (w_brokers w b)"
  using assms
  by (auto simp: broker_closed_def Publish_def broker_Ready_def nats_Publish_def nats_Ready_def mem_Publish_def mem_Ready_def
      split: broker_impl.splits)

lemma Serve_closes_broker:
  assumes "Serve srv answers address running draining closing ending err s = (result, s')"
  shows "broker_closed (w_brokers (bd_world s') (sv_broker srv))"
proof (cases "Serve_start srv answers address s")
  case (Pair r s1)
  with assms show ?thesis
    by (cases r; auto simp: Serve_def Serve_start_def Serve_exit_def Let_def broker_Close_closes
        split: prod.splits sum.splits serve_end.splits)
qed

text \<open>
  C16: however \<open>Serve\<close> ends, by a failed subscription, a server failure, a cancelled context or both,
  the process is not ready afterwards and its broker is closed: publishing is refused. Its result is the
  subscription error, the server's error, or none.
\<close>

theorem Serve_leaves_closed:
  assumes "Serve srv answers address running draining closing ending err s = (result, s')"
    and "\<not> he_ready (bd_health s)"
  shows "\<not> Server_Ready isConnected s' \<and>
     fst (Publish (sv_broker srv) subject data (bd_world s')) = Some ErrBrokerClosed \<and>
     result = (case fst (Serve_start srv answers address s) of Inl e \<Rightarrow> Some e | Inr sub \<Rightarrow> end_error ending)"
proof (cases "Serve_start srv answers address s")
  case (Pair r s1)
  note closed = Serve_closes_broker [OF assms(1)]
  have "\<not> he_ready (bd_health s')"
  proof (cases r)
    case (Inl e)
    with Pair assms show ?thesis by (auto simp: Serve_def Serve_start_def split: prod.splits sum.splits)
  next
    case (Inr sub)
    with Pair assms(1) show ?thesis
      by (auto simp: Serve_def Serve_exit_def Let_def shutdown_health split: serve_end.splits if_splits)
  qed
  moreover have "result = (case r of Inl e \<Rightarrow> Some e | Inr sub \<Rightarrow> end_error ending)"
    using Pair assms(1) by (auto simp: Serve_def Let_def split: sum.splits serve_end.splits)
  ultimately show ?thesis
    using Pair broker_closed_refuses(1) [OF closed] by (simp add: Server_Ready_def Ready_def)
qed

subsection \<open>Derived timeouts\<close>

lemma wrap64_id: "- (2 ^ 63) \<le> n \<Longrightarrow> n < 2 ^ 63 \<Longrightarrow> wrap64 n = n"
  by (simp add: wrap64_def)

lemma sdiv_nonneg: "0 \<le> (a :: int) \<Longrightarrow> a sdiv 10 = a div 10"
  by (cases "a = 0") (simp_all add: signed_divide_int_def)

text \<open>
  for configured timeouts of at most about 32 years, a connection is pinged before its read
  timeout expires (when that is at least two nanoseconds), and a shutdown spends four fifths of its time
  draining, keeps a positive rest for closing, and takes the configured time in all. The products do not
  overflow in that range.
\<close>

theorem derived_timeouts:
  assumes "2 \<le> cf_WebSocketReadTimeout cfg" and "cf_WebSocketReadTimeout cfg \<le> 2 ^ 63 div 9"
    and "0 < sv_shutdownTimeout srv" and "sv_shutdownTimeout srv \<le> 2 ^ 63 div 9"
  shows "0 < ping_interval cfg \<and> ping_interval cfg < cf_WebSocketReadTimeout cfg \<and>
     drain_timeout srv = sv_shutdownTimeout srv * 8 div 10 \<and> 0 < remaining_timeout srv \<and>
     drain_timeout srv + remaining_timeout srv = sv_shutdownTimeout srv"
proof -
  have ping: "ping_interval cfg = cf_WebSocketReadTimeout cfg * 9 div 10"
    using assms(1,2) by (simp add: ping_interval_def wrap64_id sdiv_nonneg)
  have drain: "drain_timeout srv = sv_shutdownTimeout srv * 8 div 10"
    using assms(3,4) by (simp add: drain_timeout_def wrap64_id sdiv_nonneg)
  have "0 < sv_shutdownTimeout srv - drain_timeout srv" using assms(3) unfolding drain by linarith
  moreover have "sv_shutdownTimeout srv - drain_timeout srv < 2 ^ 63" using assms(3,4) unfolding drain by simp
  ultimately have "remaining_timeout srv = sv_shutdownTimeout srv - drain_timeout srv"
    by (simp add: remaining_timeout_def wrap64_id)
  moreover have "0 < ping_interval cfg" "ping_interval cfg < cf_WebSocketReadTimeout cfg"
    using assms(1) unfolding ping by linarith+
  ultimately show ?thesis using drain \<open>0 < _ - _\<close> by simp
qed

subsection \<open>Witnesses\<close>

definition sample_config :: "bytes \<Rightarrow> Config" where
  "sample_config environment =
     \<lparr>cf_Environment = environment, cf_HTTPAddress = '':8080'', cf_ReadHeader = seconds 5, cf_ReadTimeout = seconds 15,
      cf_WriteTimeout = seconds 15, cf_IdleTimeout = seconds 60, cf_ShutdownTimeout = seconds 10,
      cf_AllowedOrigins = [''http://localhost:3000''], cf_MaxConnections = 2, cf_OutboundQueueCapacity = 4,
      cf_WebSocketReadTimeout = seconds 60, cf_WebSocketWriteTimeout = seconds 10, cf_WebSocketMaxMessageSize = 4096,
      cf_RateLimitMessages = 100, cf_RateLimitInterval = seconds 60, cf_MaxRoomsPerClient = 10, cf_BrokerURL = [],
      cf_NodeID = ''node-a''\<rparr>"

definition sample_answers :: nats_answers where
  "sample_answers = \<lparr>na_connect = None, na_jetstream = None, na_stream = None, na_consumer = (\<lambda>_. None), na_consume = Inr 0\<rparr>"

lemma sample_server:
  "\<exists>srv s. NewServer 0 0 sample_answers (sample_config environment) sample_start = Inr (srv, s)"
  by (simp add: NewServer_def NewServerWithAuthenticator_def new_broker_def NewWebSocketHandler_def sample_config_def Let_def)

theorem production_closed_witness:
  "\<exists>srv s. NewServer 0 0 sample_answers (sample_config ''production'') sample_start = Inr (srv, s) \<and>
     fst (fold (http_step sample_gorilla (sv_handler srv)) [SwitchReady True, Arrive True (sample_request [] ''user_id=ann'')] ([], s)) = []"
proof -
  obtain srv s where s: "NewServer 0 0 sample_answers (sample_config ''production'') sample_start = Inr (srv, s)"
    using sample_server by blast
  have "cf_Environment (sample_config ''production'') = ''production''" by (simp add: sample_config_def)
  from production_closed [OF s this] s show ?thesis by blast
qed

lemma attached_samples: "attached 0 sample_start" "attached 0 sample_world"
  by (rule attached_check, code_simp)+

lemma world_ok_start: "world_ok sample_start"
  unfolding sample_start_def by (intro world_ok_initial hub_ok_new)

theorem Handle_cleans_up_witness:
  "\<exists>w'. Handle (sample_config ''test'') 0 [Writes ChooseMessage, Reads ReadError] new_socket
          \<lparr>se_ConnectionID = ''conn_1'', se_UserID = ''ann''\<rparr> sample_start = (True, w') \<and>
        Lookup ''ann'' (w_hubs w' 0) \<noteq> Some (w_next sample_start)"
proof -
  have "list_ex read_fails [Writes ChooseMessage, Reads ReadError]" by (simp add: read_fails_def)
  from Handle_cleans_up [OF world_ok_start attached_samples(1) this] show ?thesis by blast
qed

definition sample_srv :: Server where
  "sample_srv =
     \<lparr>sv_httpServer = \<lparr>hs_Addr = '':8080'', hs_ReadHeaderTimeout = seconds 5, hs_ReadTimeout = seconds 15,
        hs_WriteTimeout = seconds 15, hs_IdleTimeout = seconds 60\<rparr>,
      sv_handler = \<lparr>wh_authenticator = DevelopmentAuthenticator, wh_allowedOrigins = []\<rparr>, sv_hub = 0, sv_broker = 0,
      sv_shutdownTimeout = seconds 10, sv_config = sample_config ''test''\<rparr>"

definition sample_busy :: boundary where
  "sample_busy = \<lparr>bd_health = \<lparr>he_ready = True, he_checker = Some 0\<rparr>, bd_admission = make_chan 3, bd_world = sample_world\<rparr>"

theorem shutdown_closes_sessions_witness:
  "ActiveClients sample_srv sample_busy = 2 \<and> ActiveClients sample_srv (shutdown sample_srv id id False sample_busy) = 0"
proof -
  have w: "bd_world sample_busy = sample_world" "sv_hub sample_srv = 0" by (simp_all add: sample_busy_def sample_srv_def)
  have "world_ok (bd_world sample_busy)" "attached (sv_hub sample_srv) (bd_world sample_busy)"
    using world_ok_sample attached_samples(2) by (simp_all add: w)
  from shutdown_closes_sessions [OF this, of id id False] have
    "ActiveClients sample_srv (shutdown sample_srv id id False sample_busy) = 0" by simp
  moreover have "ActiveClients sample_srv sample_busy = 2" by code_simp
  ultimately show ?thesis by blast
qed

definition sample_late :: boundary where
  "sample_late = sample_busy\<lparr>bd_world :=
     perform (DoNewClient (Some new_socket) (sample_options ''conn_c'' ''carol'' 1)) sample_world\<rparr>"

theorem late_registration_survives_witness:
  "Lookup ''carol'' (w_hubs (bd_world (shutdown sample_srv id (Register 0 2) False sample_late)) 0) = Some 2"
proof -
  have hub: "sv_hub sample_srv = 0" by (simp add: sample_srv_def)
  let ?ops = "[DoNewClient (Some new_socket) (sample_options ''conn_c'' ''carol'' 1)]"
  have "bd_world sample_late = fold perform ?ops sample_world" by (simp add: sample_late_def)
  then have ok: "world_ok (bd_world sample_late)" using world_ok_history [OF world_ok_sample, of ?ops] by simp
  have att: "attached (sv_hub sample_srv) (bd_world sample_late)" unfolding hub by (rule attached_check) code_simp
  have new: "\<not> c_closed (w_clients (bd_world (drained sample_srv id sample_late)) 2)"
    "c_userID (w_clients (bd_world (drained sample_srv id sample_late)) 2) = ''carol''"
    "list_all (\<lambda>(u, c). c \<noteq> 2) (h_clients (w_hubs (bd_world (drained sample_srv id sample_late)) 0))"
    by code_simp+
  then have "2 \<notin> registered (sv_hub sample_srv) (bd_world (drained sample_srv id sample_late))"
    unfolding hub registered_def list_all_iff by (auto dest!: mget_in_set)
  from late_registration_survives [OF ok att _ new(1) this, of False] new(2) show ?thesis by (simp add: hub)
qed

theorem Serve_leaves_closed_witness:
  "\<exists>s'. Serve sample_srv sample_answers ''127.0.0.1:8080'' id id id Cancelled False
          (sample_busy\<lparr>bd_health := SetChecker 0 NewHealth\<rparr>) = (None, s') \<and>
        fst (Publish 0 ''blockforge.rooms.lobby'' ''{}'' (bd_world s')) = Some ErrBrokerClosed"
proof -
  let ?s = "sample_busy\<lparr>bd_health := SetChecker 0 NewHealth\<rparr>"
  obtain result s' where run: "Serve sample_srv sample_answers ''127.0.0.1:8080'' id id id Cancelled False ?s = (result, s')"
    by fastforce
  have "\<not> he_ready (bd_health ?s)" by (simp add: SetChecker_def NewHealth_def)
  note Serve_leaves_closed [OF run this, of True "''blockforge.rooms.lobby''" "''{}''"]
  moreover have "\<not> isl (fst (Serve_start sample_srv sample_answers ''127.0.0.1:8080'' ?s))" by code_simp
  moreover have "sv_broker sample_srv = 0" by (simp add: sample_srv_def)
  ultimately show ?thesis using run by (auto split: sum.splits)
qed

theorem derived_timeouts_witness:
  "ping_interval (sample_config ''test'') = seconds 54 \<and> drain_timeout sample_srv = seconds 8 \<and>
   remaining_timeout sample_srv = seconds 2"
proof -
  have c: "cf_WebSocketReadTimeout (sample_config ''test'') = seconds 60" "sv_shutdownTimeout sample_srv = seconds 10"
    by (simp_all add: sample_config_def sample_srv_def)
  have "drain_timeout sample_srv = seconds 8 \<and> drain_timeout sample_srv + remaining_timeout sample_srv = seconds 10"
    using derived_timeouts [of "sample_config ''test''" sample_srv] by (simp add: c)
  moreover have "ping_interval (sample_config ''test'') = seconds 54" by code_simp
  ultimately show ?thesis by simp
qed

end
