(* ===== verification/Entry.thy ===== *)
theory Entry
  imports Process
begin

text \<open>
  The entry point (\<open>cmd/server/main.go\<close>): load the configuration, listen, build the server and serve. The
  environment, the listener and everything \<open>Serve\<close> takes from outside are arguments; durations are logged
  as numbers.
\<close>

datatype run_error = LoadFailed load_error | ListenFailed goerror | NewFailed new_error | ServeFailed goerror

record process_inputs =
  pi_rand :: "bytes option"
  pi_lookup :: lookup_fn
  pi_listen :: "bytes \<Rightarrow> goerror + bytes"
  pi_nats :: nats_answers
  pi_running :: "world \<Rightarrow> world"
  pi_draining :: "world \<Rightarrow> world"
  pi_closing :: "world \<Rightarrow> world"
  pi_ending :: serve_end
  pi_shutdownErr :: bool

definition configuration_loaded :: "Config \<Rightarrow> world \<Rightarrow> world" where
  "configuration_loaded cfg =
     logged Info ''configuration_loaded''
       [(''environment'', LStr (cf_Environment cfg)), (''http_address'', LStr (cf_HTTPAddress cfg)),
        (''shutdown_timeout'', LInt (cf_ShutdownTimeout cfg)), (''max_connections'', LInt (cf_MaxConnections cfg)),
        (''allowed_origins'', LStrs (cf_AllowedOrigins cfg)),
        (''outbound_queue_capacity'', LInt (cf_OutboundQueueCapacity cfg)),
        (''websocket_read_timeout'', LInt (cf_WebSocketReadTimeout cfg)),
        (''websocket_write_timeout'', LInt (cf_WebSocketWriteTimeout cfg))]"

definition serve_with :: "process_inputs \<Rightarrow> bytes \<Rightarrow> Server \<times> boundary \<Rightarrow> goerror option \<times> boundary" where
  "serve_with i address ss =
     Serve (fst ss) (pi_nats i) address (pi_running i) (pi_draining i) (pi_closing i) (pi_ending i) (pi_shutdownErr i) (snd ss)"

definition run :: "href \<Rightarrow> bref \<Rightarrow> process_inputs \<Rightarrow> world \<Rightarrow> run_error option \<times> world" where
  "run hb b i w =
     (case LoadFrom (pi_rand i) (pi_lookup i) of
        Inl err \<Rightarrow> (Some (LoadFailed err), w)
      | Inr cfg \<Rightarrow>
          (case pi_listen i (cf_HTTPAddress cfg) of
             Inl err \<Rightarrow> (Some (ListenFailed err), w)
           | Inr address \<Rightarrow>
               (case NewServer hb b (pi_nats i) cfg (configuration_loaded cfg w) of
                  Inl err \<Rightarrow> (Some (NewFailed err), configuration_loaded cfg w)
                | Inr ss \<Rightarrow>
                    (case serve_with i address ss of
                       (None, s) \<Rightarrow> (None, bd_world s)
                     | (Some err, s) \<Rightarrow> (Some (ServeFailed err), bd_world s)))))"

text \<open>The exit status of the process.\<close>

definition main :: "href \<Rightarrow> bref \<Rightarrow> process_inputs \<Rightarrow> world \<Rightarrow> nat \<times> world" where
  "main hb b i w =
     (case run hb b i w of
        (None, w1) \<Rightarrow> (0, w1)
      | (Some err, w1) \<Rightarrow> (1, logged Error ''server_exit_failed'' [(''error'', LErr)] w1))"

lemma NewServer_total:
  assumes "0 \<le> cf_MaxConnections cfg"
  shows "NewServer hb b answers cfg w \<noteq> Inl MakeChanPanic"
    and "new_broker answers cfg = Inr br \<Longrightarrow> \<exists>ss. NewServer hb b answers cfg w = Inr ss"
  using assms
  by (auto simp: NewServer_def NewServerWithAuthenticator_def NewWebSocketHandler_def Let_def split: sum.splits)

lemma NewServer_capacity:
  assumes "NewServer hb b answers cfg w = Inr (srv, s)"
  shows "ch_cap (bd_admission s) = nat (cf_MaxConnections cfg)"
  using assms
  by (auto simp: NewServer_def NewServerWithAuthenticator_def NewWebSocketHandler_def make_chan_def Let_def
      split: sum.splits if_splits)

text \<open>
  C18: from a configuration that loads, an address it can listen on and a broker it can reach, the
  process always builds its server and serves: the semaphore and the outbound queues get positive
  capacities, every session is rate limited and every socket has a read limit. (A queue capacity so large that
  its buffer exceeds the address space makes Go's \<open>make\<close> panic when the session is created; the
  configuration has no upper bound that would exclude it.) What \<open>Serve\<close> returns decides the exit status, and the broker is closed at the end.
\<close>

theorem run_builds_and_serves:
  assumes "LoadFrom (pi_rand i) (pi_lookup i) = Inr cfg" and "pi_listen i (cf_HTTPAddress cfg) = Inr address"
    and "new_broker (pi_nats i) cfg = Inr br"
  shows "\<exists>srv s result s'.
     NewServer hb b (pi_nats i) cfg (configuration_loaded cfg w) = Inr (srv, s) \<and>
     serve_with i address (srv, s) = (result, s') \<and>
     run hb b i w = (map_option ServeFailed result, bd_world s') \<and>
     fst (main hb b i w) = (if result = None then 0 else 1) \<and>
     broker_closed (w_brokers (bd_world s') b) \<and>
     0 < ch_cap (bd_admission s) \<and>
     (\<forall>session w1. \<exists>limiter w2. new_limiter (sv_config srv) w1 = (Some limiter, w2) \<and>
        0 < co_QueueCapacity (session_options (sv_config srv) hb session (Some limiter)) \<and>
        0 < co_MaxMessageSize (session_options (sv_config srv) hb session (Some limiter)))"
proof -
  have ok: "config_ok cfg" using assms(1) unfolding LoadFrom_iff by blast
  then obtain srv s where new: "NewServer hb b (pi_nats i) cfg (configuration_loaded cfg w) = Inr (srv, s)"
    using NewServer_total(2) [OF _ assms(3)] by (fastforce simp: config_ok_def)
  obtain result s' where serve: "serve_with i address (srv, s) = (result, s')" by fastforce
  then have closed: "broker_closed (w_brokers (bd_world s') b)"
    using Serve_closes_broker NewServer_handler(4) [OF new] unfolding serve_with_def by fastforce
  have run: "run hb b i w = (map_option ServeFailed result, bd_world s')"
    using assms new serve by (simp add: run_def split: option.split)
  then have status: "fst (main hb b i w) = (if result = None then 0 else 1)"
    by (simp add: main_def split: option.split)
  have cap: "0 < ch_cap (bd_admission s)"
    using NewServer_capacity [OF new] ok by (simp add: config_ok_def)
  have "\<exists>limiter w2. new_limiter cfg w1 = (Some limiter, w2)" for w1
    using ok by (simp add: new_limiter_def config_ok_def split: prod.split)
  then have "\<forall>session w1. \<exists>limiter w2. new_limiter (sv_config srv) w1 = (Some limiter, w2) \<and>
        0 < co_QueueCapacity (session_options (sv_config srv) hb session (Some limiter)) \<and>
        0 < co_MaxMessageSize (session_options (sv_config srv) hb session (Some limiter))"
    using ok NewServer_handler(6) [OF new] by (simp add: session_options_def config_ok_def)
  with new serve run status closed cap show ?thesis by blast
qed

definition sample_inputs :: process_inputs where
  "sample_inputs =
     \<lparr>pi_rand = Some ''0123456789abcdef'', pi_lookup = (\<lambda>_. None), pi_listen = (\<lambda>_. Inr ''[::]:8080''), pi_nats = sample_answers,
      pi_running = id, pi_draining = id, pi_closing = id, pi_ending = Cancelled, pi_shutdownErr = False\<rparr>"

theorem run_builds_and_serves_witness:
  "\<exists>result w'. run 0 0 sample_inputs sample_start = (map_option ServeFailed result, w') \<and> broker_closed (w_brokers w' 0)"
proof -
  let ?cfg = "configured (Some ''0123456789abcdef'') (\<lambda>_. None)"
  have "LoadFrom (pi_rand sample_inputs) (pi_lookup sample_inputs) = Inr ?cfg"
    by (simp add: sample_inputs_def LoadFrom_defaults)
  moreover have "pi_listen sample_inputs (cf_HTTPAddress ?cfg) = Inr ''[::]:8080''"
    by (simp add: sample_inputs_def)
  moreover have "new_broker (pi_nats sample_inputs) ?cfg = Inr (Mem NewMemoryBroker)"
    by (simp add: new_broker_def configured_def valueOrDefault_def nonblank_def Let_def)
  ultimately show ?thesis
    using run_builds_and_serves [of sample_inputs ?cfg "''[::]:8080''" "Mem NewMemoryBroker" 0 0 sample_start] by blast
qed

end
