(* ===== verification/Interleaving.thy ===== *)
theory Interleaving
  imports Delivery
begin

text \<open>
  The steps of a process with a session close at the granularity of the code. The body of \<open>Close\<close> runs
  once but is no critical section: between marking the session, closing the socket, running \<open>onClose\<close>,
  logging and counting, the other goroutines go on. A phase per session records how far its close has got, and the invariants of the
  process are shown for every interleaving of these pieces with all other steps.
\<close>

subsection \<open>The pieces of a close\<close>

datatype close_phase = Idle | CloseSocket bytes | CallOnClose bytes | LogClose bytes | CountClose bytes | CountReason bytes

type_synonym config = "world \<times> (cref \<Rightarrow> close_phase)"

text \<open>As for \<open>pstep\<close>, a policy says which sessions may be registered with which hub.\<close>

inductive pfstep :: "(world \<Rightarrow> href \<Rightarrow> cref \<Rightarrow> bool) \<Rightarrow> config \<Rightarrow> config \<Rightarrow> bool" for pol where
  fs_other: "pstep pol w w' \<Longrightarrow> pfstep pol (w, ph) (w', ph)"
| fs_mark: "\<not> c_closeOnce (w_clients w c) \<Longrightarrow> pfstep pol (w, ph) (upd_client c mark w, ph(c := CloseSocket reason))"
| fs_socket: "ph c = CloseSocket reason \<Longrightarrow> pfstep pol (w, ph) (upd_client c close_socket w, ph(c := CallOnClose reason))"
| fs_onClose: "ph c = CallOnClose reason \<Longrightarrow> pfstep pol (w, ph) (run_onClose c w, ph(c := LogClose reason))"
| fs_log: "ph c = LogClose reason \<Longrightarrow> pfstep pol (w, ph) (log_close c reason w, ph(c := CountClose reason))"
| fs_count: "ph c = CountClose reason \<Longrightarrow> pfstep pol (w, ph) (metric DecrementActiveConnections w, ph(c := CountReason reason))"
| fs_reason: "ph c = CountReason reason \<Longrightarrow> pfstep pol (w, ph) (metric (count_reason reason) w, ph(c := Idle))"

abbreviation fstep :: "config \<Rightarrow> config \<Rightarrow> bool" where
  "fstep \<equiv> pfstep (\<lambda>_ _ _. True)"

lemma pstep_wstep: "pstep pol w w' \<Longrightarrow> wstep w w'"
  by (induction rule: pstep.induct) (auto intro: pstep.intros)

lemma Close_interleaved:
  assumes "\<not> c_closeOnce (w_clients w c)" and "ph c = Idle"
  shows "fstep\<^sup>*\<^sup>* (w, ph) (Close c reason w, ph)"
proof -
  let ?w1 = "upd_client c mark w"
  let ?w2 = "upd_client c close_socket ?w1"
  let ?w3 = "run_onClose c ?w2"
  let ?w4 = "log_close c reason ?w3"
  let ?w5 = "metric DecrementActiveConnections ?w4"
  have "fstep (w, ph) (?w1, ph(c := CloseSocket reason))" using assms(1) by (rule fs_mark)
  moreover have "fstep (?w1, ph(c := CloseSocket reason)) (?w2, ph(c := CallOnClose reason))"
    using fs_socket [of "ph(c := CloseSocket reason)" c reason] by simp
  moreover have "fstep (?w2, ph(c := CallOnClose reason)) (?w3, ph(c := LogClose reason))"
    using fs_onClose [of "ph(c := CallOnClose reason)" c reason] by simp
  moreover have "fstep (?w3, ph(c := LogClose reason)) (?w4, ph(c := CountClose reason))"
    using fs_log [of "ph(c := LogClose reason)" c reason] by simp
  moreover have "fstep (?w4, ph(c := CountClose reason)) (?w5, ph(c := CountReason reason))"
    using fs_count [of "ph(c := CountClose reason)" c reason] by simp
  moreover have "fstep (?w5, ph(c := CountReason reason)) (Close c reason w, ph)"
    using fs_reason [of "ph(c := CountReason reason)" c reason _ ?w5] assms by (simp add: Close_pieces fun_upd_idem)
  ultimately show ?thesis by (meson converse_rtranclp_into_rtranclp rtranclp.rtrancl_refl)
qed

subsection \<open>The invariant\<close>

definition counted :: "close_phase \<Rightarrow> bool" where
  "counted p = (case p of Idle \<Rightarrow> True | CountReason _ \<Rightarrow> True | _ \<Rightarrow> False)"

definition closing_sessions :: "(cref \<Rightarrow> close_phase) \<Rightarrow> cref set" where
  "closing_sessions ph = {c. \<not> counted (ph c)}"

definition socket_done :: "close_phase \<Rightarrow> bool" where
  "socket_done p = (case p of CloseSocket _ \<Rightarrow> False | _ \<Rightarrow> True)"

definition config_inv :: "config \<Rightarrow> bool" where
  "config_inv s = (case s of (w, ph) \<Rightarrow>
     hubs_ok w \<and> (\<forall>c. queue_ok (w_clients w c) \<and> flags_at (socket_done (ph c)) (w_clients w c)) \<and>
     finite (closing_sessions ph) \<and> (\<forall>c. ph c \<noteq> Idle \<longrightarrow> c < w_next w \<and> c_closeOnce (w_clients w c)) \<and>
     gauge_at (of_nat (card (closing_sessions ph))) w \<and> inbound_balanced (w_metrics w))"

lemma closing_sessions_upd:
  "closing_sessions (ph(c := p)) = (if counted p then closing_sessions ph - {c} else insert c (closing_sessions ph))"
  by (auto simp: closing_sessions_def)

lemma of_nat_card_Diff: "finite A \<Longrightarrow> c \<in> A \<Longrightarrow> (of_nat (card A) :: int64) = of_nat (card (A - {c})) + 1"
  by (metis add.commute card_Suc_Diff1 of_nat_Suc)

lemma gauge_at_mark:
  assumes "gauge_at n w" and "\<not> c_closeOnce (w_clients w c)"
  shows "gauge_at (n + 1) (upd_client c mark w)"
proof -
  have c: "c \<in> open_sessions w" and o: "open_sessions (upd_client c mark w) = open_sessions w - {c}"
    using assms(2) by (auto simp: open_sessions_def mark_def)
  with assms(1) of_nat_card_Diff [OF _ c] show ?thesis by (auto simp: gauge_at_def)
qed

lemma gauge_at_count: "gauge_at n w \<Longrightarrow> gauge_at (n - 1) (metric DecrementActiveConnections w)"
  by (simp add: gauge_at_def open_sessions_def DecrementActiveConnections_def)

lemma phase_flags:
  "flags_at b (mark x) = (b \<longrightarrow> flags_at b (close_socket (mark x)) \<longrightarrow> (case c_connection x of None \<Rightarrow> True | Some s \<Rightarrow> so_closed s))"
  "flags_at False x \<Longrightarrow> flags_at True (close_socket x)"
  "flags_at True x \<Longrightarrow> flags_at b x"
  "queue_ok (mark x) = queue_ok x" "queue_ok (close_socket x) = queue_ok x"
  "c_closeOnce (mark x)" "c_closeOnce (close_socket x) = c_closeOnce x"
  by (auto simp: flags_at_def mark_def close_socket_def queue_ok_def split: option.splits)

lemma quiet_reason: "quiet (count_reason reason)"
  by (simp add: quiet_def count_reason_def metric_defs inbound_balanced_def inbound_total_def)

lemma phase_simps [simp]:
  "counted Idle" "counted (CountReason r)" "\<not> counted (CloseSocket r)" "\<not> counted (CallOnClose r)"
  "\<not> counted (LogClose r)" "\<not> counted (CountClose r)"
  "socket_done Idle" "socket_done (CountReason r)" "\<not> socket_done (CloseSocket r)" "socket_done (CallOnClose r)"
  "socket_done (LogClose r)" "socket_done (CountClose r)"
  by (simp_all add: counted_def socket_done_def)

lemma config_invD:
  assumes "config_inv (w, ph)"
  shows "hubs_ok w" and "queue_ok (w_clients w c)" and "flags_at (socket_done (ph c)) (w_clients w c)"
    and "ph c \<noteq> Idle \<Longrightarrow> c < w_next w" and "ph c \<noteq> Idle \<Longrightarrow> c_closeOnce (w_clients w c)"
    and "gauge_at (of_nat (card (closing_sessions ph))) w" and "finite (closing_sessions ph)"
    and "inbound_balanced (w_metrics w)"
  using assms unfolding config_inv_def prod.case by blast+

lemma uncounted_busy: "\<not> counted p \<Longrightarrow> p \<noteq> Idle"
  by auto

lemma closing_not_open: "config_inv (w, ph) \<Longrightarrow> closing_sessions ph \<inter> open_sessions w = {}"
  using config_invD(5) uncounted_busy by (fastforce simp: open_sessions_def closing_sessions_def)

lemma config_inv_other:
  assumes "wstep w w'" and "config_inv (w, ph)"
  shows "config_inv (w', ph)"
proof -
  have "c < w_next w' \<and> c_closeOnce (w_clients w' c)" if "c < w_next w" "c_closeOnce (w_clients w c)" for c
    using wstep_grows [OF assms(1)] that by (auto simp: grows_def client_grows_def)
  with assms show ?thesis
    unfolding config_inv_def prod.case
    using wstep_hubs_ok [OF assms(1)] wstep_clients_at [OF assms(1), of "\<lambda>c. socket_done (ph c)"]
      wstep_gauge_at [OF assms(1)] wstep_balanced [OF assms(1)] by blast
qed

lemma config_inv_mark:
  assumes "\<not> c_closeOnce (w_clients w c)" and "config_inv (w, ph)"
  shows "config_inv (upd_client c mark w, ph(c := CloseSocket reason))"
proof -
  have idle: "ph c = Idle" and old: "c < w_next w"
    using assms by (auto simp: config_inv_def gauge_at_def open_sessions_def)
  then have "c \<notin> closing_sessions ph" by (simp add: closing_sessions_def)
  moreover have "gauge_at (1 + of_nat (card (closing_sessions ph))) (upd_client c mark w)"
    using gauge_at_mark [OF config_invD(6) [OF assms(2)] assms(1)] by (simp add: add.commute)
  ultimately show ?thesis
    using assms old by (auto simp: config_inv_def closing_sessions_upd hubs_ok_def phase_flags)
qed

lemma hubs_ok_onClose: "hubs_ok w \<Longrightarrow> hubs_ok (run_onClose c w)"
  by (auto simp: hubs_ok_def run_onClose_def hub_ok_Unregister split: option.splits)

text \<open>A piece of a close that has not yet been counted, up to the counting.\<close>

lemma config_inv_piece:
  assumes "config_inv (w, ph)" and "\<not> counted (ph c)" and "\<not> counted p"
    and "hubs_ok w'" and "w_next w' = w_next w" and "w_metrics w' = w_metrics w"
    and "w_clients w' = (w_clients w)(c := x)" and "c_closeOnce x = c_closeOnce (w_clients w c)"
    and "queue_ok x" and "flags_at (socket_done p) x"
  shows "config_inv (w', ph(c := p))"
proof -
  have "closing_sessions (ph(c := p)) = closing_sessions ph"
    using assms(2,3) by (auto simp: closing_sessions_def)
  moreover have "gauge_at (of_nat (card (closing_sessions ph))) w'"
    by (rule gauge_at_frame [OF config_invD(6) [OF assms(1)]]) (simp_all add: assms(5-8))
  moreover have "c < w_next w \<and> c_closeOnce (w_clients w c)"
    using config_invD(4,5) [OF assms(1) uncounted_busy [OF assms(2)]] by blast
  ultimately show ?thesis using assms by (auto simp: config_inv_def)
qed

lemma config_inv_count:
  assumes "config_inv (w, ph)" and "ph c = CountClose reason"
  shows "config_inv (metric DecrementActiveConnections w, ph(c := CountReason reason))"
proof -
  have c: "c \<in> closing_sessions ph" using assms(2) by (simp add: closing_sessions_def)
  note g = config_invD(6) [OF assms(1)] and fin = config_invD(7) [OF assms(1)]
  have "gauge_at (of_nat (card (closing_sessions ph - {c}))) (metric DecrementActiveConnections w)"
    using gauge_at_count [OF g] of_nat_card_Diff [OF fin c] by simp
  moreover have "flags_at True (w_clients w c)" using config_invD(3) [OF assms(1), of c] assms(2) by simp
  moreover have "inbound_balanced (DecrementActiveConnections m) = inbound_balanced m" for m
    by (simp add: metric_defs inbound_balanced_def inbound_total_def)
  ultimately show ?thesis
    using assms by (auto simp: config_inv_def closing_sessions_upd hubs_ok_def)
qed

lemma config_inv_reason:
  assumes "config_inv (w, ph)" and "ph c = CountReason reason"
  shows "config_inv (metric (count_reason reason) w, ph(c := Idle))"
proof -
  have "closing_sessions (ph(c := Idle)) = closing_sessions ph"
    using assms(2) by (auto simp: closing_sessions_def)
  moreover have "config_inv (metric (count_reason reason) w, ph)"
    by (rule config_inv_other [OF _ assms(1)]) (rule ws_metric [OF quiet_reason])
  moreover have "flags_at True (w_clients w c)" using config_invD(3) [OF assms(1), of c] assms(2) by simp
  ultimately show ?thesis using assms(2) by (auto simp: config_inv_def)
qed

lemma config_inv_step: "pfstep pol s t \<Longrightarrow> config_inv s \<Longrightarrow> config_inv t"
proof (induction rule: pfstep.induct)
  case (fs_socket ph c reason w)
  have "queue_ok (w_clients w c)" "flags_at False (w_clients w c)" "hubs_ok w"
    using config_invD(1) [OF fs_socket(2)] config_invD(2,3) [OF fs_socket(2), of c] fs_socket(1) by simp_all
  with fs_socket show ?case
    by (intro config_inv_piece [of w ph c _ _ "close_socket (w_clients w c)"]) (simp_all add: phase_flags hubs_ok_def)
next
  case (fs_onClose ph c reason w)
  have "queue_ok (w_clients w c)" "flags_at True (w_clients w c)" "hubs_ok w"
    using config_invD(1) [OF fs_onClose(2)] config_invD(2,3) [OF fs_onClose(2), of c] fs_onClose(1) by simp_all
  with fs_onClose show ?case
    by (intro config_inv_piece [of w ph c _ _ "w_clients w c"]) (simp_all add: hubs_ok_onClose)
next
  case (fs_log ph c reason w)
  have "queue_ok (w_clients w c)" "flags_at True (w_clients w c)" "hubs_ok w"
    using config_invD(1) [OF fs_log(2)] config_invD(2,3) [OF fs_log(2), of c] fs_log(1) by simp_all
  with fs_log show ?case
    by (intro config_inv_piece [of w ph c _ _ "w_clients w c"]) (simp_all add: log_close_def hubs_ok_def)
qed (auto intro: config_inv_other pstep_wstep config_inv_mark config_inv_count config_inv_reason)

interpretation interleaved: transition_inv "pfstep pol" config_inv for pol
  by unfold_locales (rule config_inv_step)

lemma config_inv_idle: "config_inv (w, \<lambda>_. Idle) = world_ok w"
  by (simp add: config_inv_def world_ok_def flags_ok_at gauge_ok_at closing_sessions_def)

text \<open>
  however the pieces of session closes interleave with each other and with every other step of
  the process, the hubs keep their invariants and the queues their bounds, only a session still about to
  close its socket is marked closed with an open socket, and the connection gauge counts the open sessions
  and those whose close has not been counted yet. Once no close is under way, the whole invariant of the
  process holds.
\<close>

theorem interleaved_close:
  assumes "fstep\<^sup>*\<^sup>* (initial e (\<lambda>hb. NewHub (authorizer hb) (limit hb)) brokers, \<lambda>_. Idle) (w, ph)"
  shows "hubs_ok w \<and> (\<forall>c. queue_ok (w_clients w c) \<and> flags_at (socket_done (ph c)) (w_clients w c)) \<and>
     ActiveConnections (w_metrics w) = of_nat (card (open_sessions w)) + of_nat (card (closing_sessions ph)) \<and>
     open_sessions w \<inter> closing_sessions ph = {} \<and>
     ((\<forall>c. ph c = Idle) \<longrightarrow> world_ok w)"
proof -
  have "config_inv (initial e (\<lambda>hb. NewHub (authorizer hb) (limit hb)) brokers, \<lambda>_. Idle)"
    unfolding config_inv_idle by (rule world_ok_initial [OF hub_ok_new])
  from interleaved.steps_inv [OF assms this] have inv: "config_inv (w, ph)" .
  moreover have "open_sessions w \<inter> closing_sessions ph = {}" using closing_not_open [OF inv] by blast
  moreover have "world_ok w" if "\<forall>c. ph c = Idle"
  proof -
    from that have "ph = (\<lambda>_. Idle)" by auto
    with inv show ?thesis by (simp add: config_inv_idle)
  qed
  ultimately show ?thesis by (simp add: config_inv_def gauge_at_def)
qed

theorem interleaved_close_witness:
  "let w = upd_client 0 mark (snd (newClient (Some new_socket) (sample_options ''conn_a'' ''bob'' 1) sample_start)) in
     ActiveConnections (w_metrics w) = of_nat (card (open_sessions w)) + 1 \<and> \<not> world_ok w"
proof -
  let ?o = "sample_options ''conn_a'' ''bob'' 1"
  let ?born = "snd (newClient (Some new_socket) ?o sample_start)"
  let ?w = "upd_client 0 mark ?born" and ?ph = "(\<lambda>_. Idle)(0 := CloseSocket ''read_error'')"
  have n: "w_next sample_start = 0" by (simp add: sample_start_def initial_def)
  have x: "w_clients ?born 0 = client_of (Some new_socket) ?o" by (simp add: newClient_simps n)
  have "fstep (sample_start, \<lambda>_. Idle) (?born, \<lambda>_. Idle)" by (intro fs_other ws_new)
  moreover have "fstep (?born, \<lambda>_. Idle) (?w, ?ph)"
    by (rule fs_mark [of ?born 0 _ "\<lambda>_. Idle"]) (simp only: x client_of_ok not_False_eq_True)
  ultimately have "fstep\<^sup>*\<^sup>* (sample_start, \<lambda>_. Idle) (?w, ?ph)" by (meson converse_rtranclp_into_rtranclp rtranclp.rtrancl_refl)
  then have "fstep\<^sup>*\<^sup>* (initial sample_env (\<lambda>hb. NewHub ((\<lambda>_. AllowAllAuthorizer) hb) ((\<lambda>_. 5) hb)) (\<lambda>b. Mem NewMemoryBroker), \<lambda>_. Idle) (?w, ?ph)"
    by (simp only: sample_start_def)
  note inv = interleaved_close [OF this]
  moreover have "closing_sessions ?ph = {0}" by (auto simp: closing_sessions_def)
  moreover have "\<not> flags_ok (w_clients ?w 0)"
    by (simp add: newClient_simps n mark_def flags_ok_def client_of_def sample_options_def new_socket_def)
  ultimately show ?thesis by (simp add: Let_def world_ok_def) blast
qed

end
