(* ===== verification/Concurrency.thy ===== *)
theory Concurrency
  imports Process Interleaving
begin

text \<open>
  The goroutines of the process, interleaved action by action: what holds between any two actions of any
  number of connections, write loops, broker callbacks and shutdowns.
\<close>

subsection \<open>The goroutines\<close>

text \<open>The session handler for what its connection will deliver; the socket the library hands over is fresh.\<close>

definition pHandle_open :: "Config \<Rightarrow> href \<Rightarrow> socket \<Rightarrow> Session \<Rightarrow> cref routine" where
  "pHandle_open cfg hb connection session =
     andThen (atomic (new_limiter cfg)) (\<lambda>limiter.
     andThen (atomic (newClient (Some connection) (session_options cfg hb session limiter))) (\<lambda>c.
     thenDo (pRegister hb c) (Return c)))"

definition pHandle :: "Config \<Rightarrow> href \<Rightarrow> read_result list \<Rightarrow> socket \<Rightarrow> Session \<Rightarrow> bool routine" where
  "pHandle cfg hb rs connection session = andThen (pHandle_open cfg hb connection session) (\<lambda>c. pRun c rs)"

lemma exec_pHandle_open: "exec (pHandle_open cfg hb connection session) w = Handle_open cfg hb connection session w"
  by (simp add: pHandle_open_def Handle_open_def exec_simps split: prod.split)

lemma exec_pHandle: "exec (pHandle cfg hb rs connection session) w = Handle cfg hb (map Reads rs) connection session w"
  by (simp add: pHandle_def Handle_def exec_pHandle_open exec_simps)

inductive goroutine :: "unit routine \<Rightarrow> bool" where
  go_handle: "so_written connection = [] \<Longrightarrow> goroutine (thenDo (pHandle cfg hb rs connection session) (Return ()))"
| go_write: "goroutine (pWriteLoop c choices)"
| go_callback: "goroutine (pBrokerCallback subject data hb)"
| go_draining: "goroutine (pBroadcastDraining hb)"
| go_close_all: "goroutine (pCloseAll hb reason)"

subsection \<open>Closes taken apart\<close>

text \<open>
  A program that has marked a session owes the remaining pieces of its close: its ghost is the session and the
  phase. The other actions are steps of the process, and with the pieces they are steps of \<open>fstep\<close>.
\<close>

type_synonym duty = "(cref \<times> close_phase) option"

definition at_phase :: "(cref \<Rightarrow> close_phase) \<Rightarrow> duty \<Rightarrow> bool" where
  "at_phase ph g = (case g of None \<Rightarrow> True | Some (c, p) \<Rightarrow> ph c = p)"

definition move_phase :: "duty \<Rightarrow> duty \<Rightarrow> (cref \<Rightarrow> close_phase) \<Rightarrow> cref \<Rightarrow> close_phase" where
  "move_phase g g' ph =
     (case g' of Some (c, p) \<Rightarrow> ph(c := p) | None \<Rightarrow> (case g of Some (c, _) \<Rightarrow> ph(c := Idle) | None \<Rightarrow> ph))"

definition duty_order :: "duty \<Rightarrow> duty \<Rightarrow> bool" where
  "duty_order g g' =
     (case g' of None \<Rightarrow> True | Some (c, p) \<Rightarrow> p \<noteq> Idle \<and> (case g of None \<Rightarrow> True | Some (d, _) \<Rightarrow> d = c))"

definition closes :: "duty \<Rightarrow> world \<Rightarrow> duty \<Rightarrow> world \<Rightarrow> bool" where
  "closes g w g' w' =
     (duty_order g g' \<and>
      (\<forall>c p. g = None \<longrightarrow> g' = Some (c, p) \<longrightarrow> \<not> c_closeOnce (w_clients w c)) \<and>
      (\<forall>ph. at_phase ph g \<longrightarrow> fstep\<^sup>*\<^sup>* (w, ph) (w', move_phase g g' ph)))"

lemmas duty_defs = at_phase_def move_phase_def duty_order_def

lemma fsteps_other: "steps w w' \<Longrightarrow> fstep\<^sup>*\<^sup>* (w, ph) (w', ph)"
  by (induction rule: rtranclp_induct) (auto intro: rtranclp.rtrancl_into_rtrancl fs_other)

lemma closes_idle: "steps w w' \<Longrightarrow> closes None w None w'"
  by (simp add: closes_def duty_defs fsteps_other)

lemma closes_trans: "closes None s None t \<Longrightarrow> closes None t None u \<Longrightarrow> closes None s None u"
  by (auto simp: closes_def duty_defs intro: rtranclp_trans)

lemma closes_pClose: "rg (\<lambda>_ _. True) closes None (\<lambda>_. True) (pClose c r) None"
proof (rule rg_pClose [where marked = "\<lambda>_ :: unit. Some (c, CloseSocket r)" and unplugged = "\<lambda>_. Some (c, CallOnClose r)" and
      called = "\<lambda>_. Some (c, LogClose r)" and noted = "\<lambda>_. Some (c, CountClose r)" and
      uncounted = "\<lambda>_. Some (c, CountReason r)"])
qed (auto simp: closes_def duty_defs intro: pfstep.intros)

interpretation closing: registering_actions "\<lambda>_ _. True" closes None "\<lambda>_. True" "\<lambda>_ _. True"
proof unfold_locales
  show "closes None w None (upd_client c (\<lambda>x. x\<lparr>c_send := ch\<rparr>) w) \<and> True"
    if "try_recv (c_send (w_clients w c)) = Some (m, ch)" for w c m ch
    using steps_pop [OF that] by (auto intro: closes_idle)
  show "closes None w None (upd_client c k w)" if "silent_client k" for w c k
    using that by (auto simp: silent_client_def intro!: closes_idle steps_client)
  show "closes None w None (upd_client c (\<lambda>x. x\<lparr>c_send := snd (try_send m (c_send x))\<rparr>) w)"
    if "\<not> c_closed (w_clients w c)" "fst (try_send m (c_send (w_clients w c)))" for w m c
    by (auto intro: closes_idle steps_push [OF that])
  show "closes None s None u" if "closes None s None t" "closes None t None u" for s t u
    using that by (rule closes_trans)
qed (auto intro!: closes_idle closes_pClose hub_steps step_intros steps_hub simp del: hub_step.simps)

lemma steps_limiter: "psteps pol w (snd (new_limiter cfg w))"
  by (auto simp: new_limiter_def draw_clock_def intro: step_intros split: prod.split)

lemma closing_pHandle: "closing.guards (\<lambda>_. True) (pHandle cfg hb rs connection session)"
  unfolding pHandle_def pHandle_open_def
  by (intro closing.guards_then rg_atomic closing.guards_pRegister closing.guards_pRun rg_Return)
     (simp_all add: closes_idle steps_limiter step_intros)

lemma closing_goroutine: "goroutine p \<Longrightarrow> closing.guards (\<lambda>_. True) p"
  by (induction rule: goroutine.induct)
     (auto intro: closing.guards_then closing_pHandle closing.guards_pWriteLoop closing.guards_pBrokerCallback
        closing.guards_pBroadcastDraining closing.guards_pCloseAll)

text \<open>Every close under way belongs to exactly one program.\<close>

definition owned :: "(cref \<Rightarrow> nat) \<Rightarrow> duty list \<Rightarrow> (cref \<Rightarrow> close_phase) \<Rightarrow> bool" where
  "owned own gs ph =
     ((\<forall>i<length gs. \<forall>c p. gs ! i = Some (c, p) \<longleftrightarrow> p \<noteq> Idle \<and> ph c = p \<and> own c = i) \<and>
      (\<forall>c. ph c \<noteq> Idle \<longrightarrow> own c < length gs))"

lemma ownedD:
  assumes "owned own gs ph"
  shows "i < length gs \<Longrightarrow> gs ! i = Some (c, p) \<longleftrightarrow> p \<noteq> Idle \<and> ph c = p \<and> own c = i"
    and "ph c \<noteq> Idle \<Longrightarrow> own c < length gs"
  using assms unfolding owned_def by blast+

lemma owned_move:
  assumes "owned own gs ph" and "i < length gs" and "duty_order (gs ! i) g'"
    and "\<And>c p. gs ! i = None \<Longrightarrow> g' = Some (c, p) \<Longrightarrow> ph c = Idle"
  shows "\<exists>own. owned own (gs[i := g']) (move_phase (gs ! i) g' ph)"
proof (cases g')
  case None
  note own = ownedD(1) [OF assms(1)] and i = ownedD(1) [OF assms(1,2)]
  have "owned own (gs[i := None]) (move_phase (gs ! i) None ph)"
  proof (cases "gs ! i")
    case None
    then show ?thesis using assms(1,2) list_update_id [of gs i] by (simp add: move_phase_def)
  next
    case (Some cp)
    obtain c p where cp: "cp = (c, p)" by fastforce
    then have c: "p \<noteq> Idle" "ph c = p" "own c = i" using i [of c p] Some by auto
    have only: "d = c" if "own d = i" "ph d \<noteq> Idle" for d
      using i [of d "ph d"] that Some cp by simp
    have "gs[i := None] ! j = Some (d, q) \<longleftrightarrow> q \<noteq> Idle \<and> (ph(c := Idle)) d = q \<and> own d = j" if "j < length gs" for j d q
    proof (cases "j = i")
      case True
      then show ?thesis using only [of d] assms(2) by auto
    next
      case False
      then show ?thesis using own [OF that, of d q] c(3) by auto
    qed
    moreover have "own d < length gs" if "(ph(c := Idle)) d \<noteq> Idle" for d
      using that ownedD(2) [OF assms(1), of d] by (simp split: if_splits)
    ultimately have "owned own (gs[i := None]) (ph(c := Idle))" by (simp add: owned_def)
    with Some cp show ?thesis by (simp add: move_phase_def)
  qed
  with None show ?thesis by blast
next
  case (Some cp)
  note own = ownedD(1) [OF assms(1)] and i = ownedD(1) [OF assms(1,2)]
  obtain c p where cp: "cp = (c, p)" by fastforce
  have p: "p \<noteq> Idle" and c: "ph c = Idle \<or> own c = i"
    using assms(3,4) Some cp i by (auto simp: duty_order_def split: option.splits)
  have other: "own d \<noteq> i \<or> ph d = Idle" if "d \<noteq> c" for d
    using assms(3) Some cp that i [of d "ph d"] by (auto simp: duty_order_def)
  have "owned (own(c := i)) (gs[i := Some (c, p)]) (ph(c := p))"
    unfolding owned_def using p c other own i assms(2) ownedD(2) [OF assms(1)]
    by (auto simp: nth_list_update)
  with Some cp show ?thesis by (auto simp: move_phase_def)
qed

lemma owned_idle:
  assumes "owned own gs ph"
  shows "owned own (gs @ [None]) ph"
  unfolding owned_def
proof (intro conjI allI impI)
  fix i c p
  assume "i < length (gs @ [None])"
  then consider "i < length gs" | "i = length gs" by fastforce
  then show "(gs @ [None]) ! i = Some (c, p) \<longleftrightarrow> p \<noteq> Idle \<and> ph c = p \<and> own c = i"
    using ownedD(1) [OF assms] ownedD(2) [OF assms, of c] by cases (auto simp: nth_append)
qed (use ownedD(2) [OF assms] in \<open>simp add: less_Suc_eq\<close>)

definition duties_ok :: "duty list \<Rightarrow> world \<Rightarrow> bool" where
  "duties_ok gs w = (\<exists>ph own. config_inv (w, ph) \<and> owned own gs ph)"

interpretation closing_pool: pool_invariant "\<lambda>_ _. True" closes None duties_ok
proof unfold_locales
  show "duties_ok (gs[i := g']) w'" if ok: "duties_ok gs w" and i: "i < length gs" and c: "closes (gs ! i) w g' w'" for gs w i g' w'
  proof -
    from ok obtain ph own where ph: "config_inv (w, ph)" "owned own gs ph" unfolding duties_ok_def by blast
    have "at_phase ph (gs ! i)" using ownedD(1) [OF ph(2) i] by (auto simp: at_phase_def split: option.split)
    with c have "fstep\<^sup>*\<^sup>* (w, ph) (w', move_phase (gs ! i) g' ph)" by (simp add: closes_def)
    then have "config_inv (w', move_phase (gs ! i) g' ph)" using ph(1) by (rule interleaved.steps_inv)
    moreover have "\<exists>own. owned own (gs[i := g']) (move_phase (gs ! i) g' ph)"
      using c config_invD(5) [OF ph(1)] by (intro owned_move [OF ph(2) i]) (auto simp: closes_def)
    ultimately show ?thesis unfolding duties_ok_def by blast
  qed
  show "duties_ok (gs @ [None]) w" if "duties_ok gs w" for gs w
    using that owned_idle unfolding duties_ok_def by blast
qed simp

lemma unfinished_duties:
  assumes "list_all2 (rg I G None Q) ps gs" and "owned own gs ph"
  shows "finite {c. ph c \<noteq> Idle} \<and> card {c. ph c \<noteq> Idle} \<le> length (filter (\<lambda>p. \<not> finished p) ps)"
proof -
  let ?busy = "{i. i < length ps \<and> \<not> finished (ps ! i)}"
  have "{c. ph c \<noteq> Idle} \<subseteq> (\<lambda>i. fst (the (gs ! i))) ` ?busy"
  proof
    fix c
    assume "c \<in> {c. ph c \<noteq> Idle}"
    then have "ph c \<noteq> Idle" by simp
    with ownedD [OF assms(2)] obtain i where i: "i < length gs" "gs ! i = Some (c, ph c)" by blast
    with assms(1) have "rg I G None Q (ps ! i) (Some (c, ph c))" and "i < length ps"
      by (auto simp: list_all2_conv_all_nth)
    then have "i \<in> ?busy" by (cases "ps ! i") auto
    with i(2) show "c \<in> (\<lambda>i. fst (the (gs ! i))) ` ?busy" by (intro image_eqI [of _ _ i]) auto
  qed
  moreover have "finite ?busy" by simp
  ultimately have "finite {c. ph c \<noteq> Idle}" and "card {c. ph c \<noteq> Idle} \<le> card ?busy"
    by (blast intro: finite_subset finite_imageI, blast intro: surj_card_le)
  then show ?thesis by (simp add: length_filter_conv_card)
qed


subsection \<open>What is on the wire\<close>

definition client_frames :: "Client \<Rightarrow> outboundMessage set" where
  "client_frames x = set (ch_buf (c_send x)) \<union> set (written x)"

definition frames_ok :: "world \<Rightarrow> bool" where
  "frames_ok w = (\<forall>c. \<forall>m \<in> client_frames (w_clients w c). wire_frame m)"

lemma frames_okI: "(\<And>c. client_frames (w_clients w' c) \<subseteq> client_frames (w_clients w c)) \<Longrightarrow> frames_ok w \<Longrightarrow> frames_ok w'"
  unfolding frames_ok_def by blast

lemma frames_upd:
  assumes "frames_ok w" and "\<forall>m \<in> client_frames (f (w_clients w c)). m \<in> client_frames (w_clients w c) \<or> wire_frame m"
  shows "frames_ok (upd_client c f w)"
  using assms by (auto simp: frames_ok_def)

lemma written_send [simp]: "written (x\<lparr>c_send := ch\<rparr>) = written x"
  by (simp add: written_def)

lemma frames_mark_closed: "client_frames (mark_closed x) = client_frames x"
  by (simp add: client_frames_def mark_closed_def written_def split: option.split)

lemma frames_silent: "silent_client k \<Longrightarrow> client_frames (k x) = client_frames x"
proof -
  assume k: "silent_client k"
  then have "c_send (k x) = c_send x" and "map_option so_written (c_connection (k x)) = map_option so_written (c_connection x)"
    using quiet_clientD(1) by (auto simp: silent_client_def)
  moreover from this have "written (k x) = written x"
    by (cases "c_connection x"; cases "c_connection (k x)") (simp_all add: written_def)
  ultimately show ?thesis by (simp add: client_frames_def)
qed

lemma frames_onClose: "frames_ok w \<Longrightarrow> frames_ok (run_onClose c w)"
  by (simp add: frames_ok_def run_onClose_def split: option.split)

lemma wire_pClose: "rg (\<lambda>_ :: unit. frames_ok) (\<lambda>_ _ _. frames_ok) () (\<lambda>_. True) (pClose c r) ()"
proof (rule rg_pClose [where marked = "\<lambda>_ :: unit. ()"])
  have "client_frames (mark x) = client_frames x" "client_frames (close_socket x) = client_frames x" for x
    by (simp_all add: client_frames_def mark_def close_socket_def written_def split: option.split)
  then have pieces: "frames_ok (upd_client c mark w)" "frames_ok (upd_client c close_socket w)" if "frames_ok w" for w
    using that by (auto intro!: frames_upd)
  show "\<exists>x :: unit. frames_ok (upd_client c mark w)" if "frames_ok w" for w
    using pieces(1) [OF that] by simp
  show "frames_ok (upd_client c close_socket w)" if "frames_ok w" for w by (rule pieces(2) [OF that])
qed (simp_all add: frames_onClose, simp_all add: frames_ok_def log_close_def)

interpretation wire: registering_actions "\<lambda>_ :: unit. frames_ok" "\<lambda>_ _ _. frames_ok" "()" wire_frame "\<lambda>_ _. True"
proof unfold_locales
  show "rg (\<lambda>_ :: unit. frames_ok) (\<lambda>_ _ _. frames_ok) () (\<lambda>_. True) (pClose c reason) ()" for c reason
    by (rule wire_pClose)
  show "frames_ok (upd_client c (\<lambda>x. x\<lparr>c_send := snd (try_send m (c_send x))\<rparr>) w)" if "frames_ok w" "wire_frame m" for w m c
    by (rule frames_upd [OF that(1)]) (auto simp: client_frames_def try_send_def that(2))
  show "frames_ok (upd_client c (\<lambda>x. x\<lparr>c_send := ch\<rparr>) w) \<and> wire_frame m"
    if "frames_ok w" "try_recv (c_send (w_clients w c)) = Some (m, ch)" for w c m ch
  proof
    from try_recv_suffix [OF that(2)] have b: "ch_buf (c_send (w_clients w c)) = m # ch_buf ch" .
    with that(1) show "wire_frame m" unfolding frames_ok_def client_frames_def by (metis UnI1 list.set_intros(1))
    show "frames_ok (upd_client c (\<lambda>x. x\<lparr>c_send := ch\<rparr>) w)"
      by (rule frames_upd [OF that(1)]) (simp add: client_frames_def b)
  qed
  show "frames_ok (upd_client c (put_frame m) w)" if "frames_ok w" "wire_frame m" for w c m
    using that by (intro frames_upd) (auto simp: client_frames_def written_def put_frame_def split: option.splits)
  show "frames_ok (upd_client c k w)" if "frames_ok w" "silent_client k" for w c k
    using that by (intro frames_upd) (auto simp: frames_silent)
qed (auto simp: frames_ok_def simp del: hub_step.simps)

interpretation wire_pool: pool_invariant "\<lambda>_ :: unit. frames_ok" "\<lambda>_ _ _. frames_ok" "()" "\<lambda>_. frames_ok"
  by unfold_locales

lemma frames_new: "frames_ok w \<Longrightarrow> so_written s = [] \<Longrightarrow> frames_ok (snd (newClient (Some s) opts w))"
  by (auto simp: frames_ok_def newClient_simps client_frames_def client_of_def make_chan_def written_def)

lemma frames_limiter: "frames_ok w \<Longrightarrow> frames_ok (snd (new_limiter cfg w))"
  by (auto simp: frames_ok_def new_limiter_def draw_clock_def split: prod.split)

lemma own_eventD:
  "own_event v \<Longrightarrow> out_Version v = ProtocolVersion \<and> (\<exists>value. out_EventID v = ''evt_'' @ hex_EncodeToString value)"
proof -
  assume "own_event v"
  then obtain r n t q p where "newOutboundMessage r n t q p = Some v" unfolding own_event_def by blast
  then show ?thesis by (cases r) (auto simp: newOutboundMessage_def newEventID_def)
qed

lemma wire_goroutine: "goroutine p \<Longrightarrow> wire.guards (\<lambda>_. True) p"
proof (induction rule: goroutine.induct)
  case (go_handle connection cfg hb rs session)
  have "wire.guards (\<lambda>_. True) (pHandle cfg hb rs connection session)"
    unfolding pHandle_def pHandle_open_def
    by (intro wire.guards_then rg_atomic wire.guards_pRegister wire.guards_pRun rg_Return)
       (simp_all add: go_handle frames_new frames_limiter)
  then show ?case by (auto intro: wire.guards_then)
qed (auto intro: wire.guards_pWriteLoop wire.guards_pBrokerCallback wire.guards_pBroadcastDraining wire.guards_pCloseAll)

text \<open>
  C4: in every interleaving of the goroutines, whatever waits in a session's queue or has been written to
  its socket is either an empty ping frame or a text frame that holds the JSON text of one event of this
  protocol version with a generated event identifier.
\<close>

theorem wire_protocol:
  assumes "pool_steps goroutine ([], initial e hubs brokers) (ps, w)"
    and "m \<in> set (ch_buf (c_send (w_clients w c)) @ written (w_clients w c))"
  shows "om_messageType m = PingMessage \<and> om_payload m = [] \<or>
    om_messageType m = TextMessage \<and>
      (\<exists>v value. MarshalOutbound v = Some (om_payload m) \<and> out_Version v = ProtocolVersion \<and>
                 out_EventID v = ''evt_'' @ hex_EncodeToString value)"
proof -
  have "frames_ok (initial e hubs brokers)"
    by (simp add: frames_ok_def initial_def no_client_def client_frames_def written_def make_chan_def)
  from wire_pool.pool_ok_steps [OF assms(1) wire_goroutine wire_pool.pool_ok_start [OF this]] have "frames_ok w"
    by (auto simp: wire_pool.pool_ok_def)
  with assms(2) have "wire_frame m" by (auto simp: frames_ok_def client_frames_def)
  then show ?thesis unfolding wire_frame_def using own_eventD by blast
qed

subsection \<open>Witnesses\<close>

text \<open>Two connections of one user, one after the other; neither has delivered a frame yet.\<close>

definition sample_login :: "bytes \<Rightarrow> world \<Rightarrow> world" where
  "sample_login connectionID w =
     snd (Handle (sample_config ''test'') 0 [] new_socket \<lparr>se_ConnectionID = connectionID, se_UserID = ''ann''\<rparr> w)"

lemma pool_login: "pool_steps goroutine (ps, w) (ps @ [Return ()], sample_login connectionID w)"
proof -
  let ?h = "pHandle (sample_config ''test'') 0 [] new_socket \<lparr>se_ConnectionID = connectionID, se_UserID = ''ann''\<rparr>"
  let ?p = "thenDo ?h (Return ())"
  have "goroutine ?p" by (rule go_handle) (simp add: new_socket_def)
  then have "pool_step goroutine (ps, w) (ps @ [?p], w)" by (rule pool_spawn)
  moreover have "exec ?p w = ((), sample_login connectionID w)"
    by (simp add: exec_simps exec_pHandle sample_login_def split: prod.split)
  then have "pool_steps goroutine (ps @ [?p], w) ((ps @ [?p])[length ps := Return ()], sample_login connectionID w)"
    by (intro pool_exec) simp_all
  ultimately show ?thesis by (simp add: converse_rtranclp_into_rtranclp)
qed

lemma pool_logins:
  "pool_steps goroutine ([], sample_start) ([Return (), Return ()], sample_login ''conn_b'' (sample_login ''conn_a'' sample_start))"
  using rtranclp_trans [OF pool_login [of "[]" sample_start "''conn_a''"] pool_login [of "[] @ [Return ()]" _ "''conn_b''"]]
  by simp


theorem wire_protocol_witness:
  "\<exists>m v. ch_buf (c_send (w_clients (sample_login ''conn_a'' sample_start) 0)) = [m] \<and> MarshalOutbound v = Some (om_payload m)"
proof -
  have "map om_messageType (ch_buf (c_send (w_clients (sample_login ''conn_a'' sample_start) 0))) = [TextMessage]" by code_simp
  then obtain m where m: "ch_buf (c_send (w_clients (sample_login ''conn_a'' sample_start) 0)) = [m]" "om_messageType m = TextMessage"
    by auto
  have "pool_steps goroutine ([], sample_start) ([Return ()], sample_login ''conn_a'' sample_start)"
    using pool_login [of "[]" sample_start "''conn_a''"] by simp
  from wire_protocol [OF this [unfolded sample_start_def [of]], of m 0] m show ?thesis
    by (auto simp: sample_start_def TextMessage_def PingMessage_def)
qed

end
