(* ===== verification/Takeover.thy ===== *)
theory Takeover
  imports Concurrency
begin

text \<open>
  A second connection of a user takes over the registration of the first. Replacing the entry in the registry
  and closing the older session are separate actions of the goroutine that registers, and the close is
  itself many actions; this theory shows that whatever runs in between, at most one session of a user stays open.
\<close>

subsection \<open>The registration of a session\<close>

text \<open>\<open>held c hb\<close>: the hub has the session as the one of its user. \<open>bounded\<close>: only sessions that exist are open.\<close>

definition held :: "cref \<Rightarrow> href \<Rightarrow> world \<Rightarrow> bool" where
  "held c hb w = (Lookup (UserID (w_clients w c)) (w_hubs w hb) = Some c)"

definition bounded :: "world \<Rightarrow> bool" where
  "bounded w = (\<exists>n. gauge_at n w)"

lemma bounded_initial: "bounded (initial e hubs brokers)"
  unfolding bounded_def
  by (rule exI [of _ "ActiveConnections (w_metrics (initial e hubs brokers))"])
     (simp add: gauge_at_def open_sessions_def initial_def no_client_def)

lemma bounded_exists: "bounded w \<Longrightarrow> \<not> c_closeOnce (w_clients w c) \<Longrightarrow> c < w_next w"
  by (auto simp: bounded_def gauge_at_def open_sessions_def intro: leI)

lemma held_frame:
  "h_clients (w_hubs w' hb) = h_clients (w_hubs w hb) \<Longrightarrow> UserID (w_clients w' c) = UserID (w_clients w c) \<Longrightarrow>
     held c hb w' = held c hb w"
  by (simp add: held_def Lookup_def)

lemma grows_user: "grows w w' \<Longrightarrow> c < w_next w \<Longrightarrow> UserID (w_clients w' c) = UserID (w_clients w c)"
  by (simp add: grows_def client_grows_def UserID_def)

lemma membership_clients:
  "h_clients (snd (Join cls c r h)) = h_clients h" "h_clients (Leave cls c r h) = h_clients h"
  by (simp_all add: Join_def Leave_def Let_def split: option.split)

lemma Unregister_other:
  assumes "mget (h_clients h) u = Some c" and "d \<noteq> c"
  shows "mget (h_clients (snd (Unregister cls d h))) u = Some c"
  using assms by (auto simp: Unregister_def Let_def split: option.splits)

subsection \<open>Handing over\<close>

text \<open>
  For one session and one hub, a program is free, owes the session its close (it has taken over the
  registration), or has marked the session closed and is in the middle of the close.
\<close>

datatype takeover = Free | Owes | Closing

definition minds :: "cref \<Rightarrow> takeover \<Rightarrow> world \<Rightarrow> bool" where
  "minds c g w = (bounded w \<and> (g = Closing \<longrightarrow> c < w_next w \<and> c_closeOnce (w_clients w c)))"

definition passes :: "cref \<Rightarrow> href \<Rightarrow> takeover \<Rightarrow> world \<Rightarrow> takeover \<Rightarrow> world \<Rightarrow> bool" where
  "passes c hb g w g' w' =
     (minds c g' w' \<and> grows w w' \<and>
      (c < w_next w \<longrightarrow>
         (held c hb w \<longrightarrow> held c hb w' \<or> c_closeOnce (w_clients w' c) \<or> g' = Owes) \<and>
         (g = Owes \<longrightarrow> g' = Owes \<or> c_closeOnce (w_clients w' c))))"

text \<open>What every action of the process does, whatever the session.\<close>

definition sound :: "world \<Rightarrow> world \<Rightarrow> bool" where
  "sound w w' = (grows w w' \<and> (bounded w \<longrightarrow> bounded w'))"

lemma sound_refl [simp]: "sound w w"
  by (simp add: sound_def)

lemma sound_steps: "steps w w' \<Longrightarrow> sound w w'"
proof (induction rule: rtranclp_induct)
  case (step v u)
  then show ?case
    using grows_trans [OF _ wstep_grows [OF step.hyps(2)]] wstep_gauge_at [OF step.hyps(2)]
    by (auto simp: sound_def bounded_def)
qed (simp add: sound_def)

lemma grows_client: "client_grows (w_clients w c) (f (w_clients w c)) \<Longrightarrow> grows w (upd_client c f w)"
  by (auto simp: grows_def)

lemma sound_pieces:
  "\<not> c_closeOnce (w_clients w c) \<Longrightarrow> sound w (upd_client c mark w)"
  "sound w (upd_client c close_socket w)" "sound w (run_onClose c w)" "sound w (log_close c r w)"
  "sound w (metric DecrementActiveConnections w)" "sound w (metric (count_reason r) w)"
proof -
  have g: "grows w (upd_client c mark w)" "grows w (upd_client c close_socket w)"
    by (rule grows_client, simp add: client_grows_def mark_def close_socket_def)+
  show "sound w (upd_client c mark w)" if "\<not> c_closeOnce (w_clients w c)"
    using g(1) gauge_at_mark [OF _ that] by (auto simp: sound_def bounded_def)
  have "gauge_at n w \<Longrightarrow> gauge_at n (upd_client c close_socket w)" "gauge_at n w \<Longrightarrow> gauge_at n (run_onClose c w)" for n
    by (erule gauge_at_frame, auto simp: close_socket_def run_onClose_def split: option.split)+
  moreover have "grows w (run_onClose c w)" by (simp add: grows_def run_onClose_def split: option.split)
  ultimately show "sound w (upd_client c close_socket w)" "sound w (run_onClose c w)"
    using g(2) by (auto simp: sound_def bounded_def)
  show "sound w (log_close c r w)" by (simp add: log_close_def sound_steps step_intros)
  show "sound w (metric (count_reason r) w)" by (simp add: sound_steps step_intros quiet_reason)
  show "sound w (metric DecrementActiveConnections w)"
    using gauge_at_count by (auto simp: sound_def bounded_def grows_def)
qed

lemma passes_held:
  "minds c Free w \<Longrightarrow> sound w w' \<Longrightarrow> (c < w_next w \<Longrightarrow> held c hb w \<Longrightarrow> held c hb w') \<Longrightarrow> passes c hb Free w Free w'"
  by (simp add: passes_def minds_def sound_def)

lemma passes_frame:
  assumes "minds c Free w" and "sound w w'" and "h_clients (w_hubs w' hb) = h_clients (w_hubs w hb)"
  shows "passes c hb Free w Free w'"
  using assms held_frame [OF assms(3) grows_user] by (intro passes_held) (auto simp: sound_def)

lemma passes_steps:
  "minds c Free w \<Longrightarrow> steps w w' \<Longrightarrow> h_clients (w_hubs w' hb) = h_clients (w_hubs w hb) \<Longrightarrow> passes c hb Free w Free w'"
  by (rule passes_frame [OF _ sound_steps])

lemma passes_closing:
  "minds c Closing w \<Longrightarrow> sound w w' \<Longrightarrow> g' \<noteq> Owes \<Longrightarrow> passes c hb Closing w g' w'"
  by (auto simp: passes_def minds_def sound_def grows_def client_grows_def)

text \<open>The session's own close, which settles what is owed, and the close of any other.\<close>

lemma passes_own_close: "rg (minds c) (passes c hb) Free (\<lambda>_. True) (pClose c r) g"
proof (rule rg_pClose [where marked = "\<lambda>_ :: unit. Closing" and unplugged = "\<lambda>_. Closing" and called = "\<lambda>_. Closing" and
      noted = "\<lambda>_. Closing" and uncounted = "\<lambda>_. Closing"])
  show "passes c hb g w Free w" if "minds c g w" "c_closeOnce (w_clients w c)" for w
    using that by (simp add: passes_def minds_def)
  show "\<exists>_ :: unit. passes c hb g w Closing (upd_client c mark w)" if "minds c g w" "\<not> c_closeOnce (w_clients w c)" for w
    using that sound_pieces(1) [OF that(2)] bounded_exists [of w c]
    by (auto simp: passes_def minds_def sound_def phase_flags)
qed (auto intro: passes_closing sound_pieces)

lemma passes_other_close:
  assumes "d \<noteq> c"
  shows "rg (minds c) (passes c hb) Free (\<lambda>_. True) (pClose d r) Free"
proof (rule rg_pClose [where marked = "\<lambda>_ :: unit. Free" and unplugged = "\<lambda>_. Free" and called = "\<lambda>_. Free" and
      noted = "\<lambda>_. Free" and uncounted = "\<lambda>_. Free"])
  show "\<exists>_ :: unit. passes c hb Free w Free (upd_client d mark w)" if "minds c Free w" "\<not> c_closeOnce (w_clients w d)" for w
    using passes_frame [OF that(1) sound_pieces(1) [OF that(2)]] by simp
  show "passes c hb Free w Free (run_onClose d w)" if "minds c Free w" for w
    using that assms Unregister_other
    by (intro passes_held sound_pieces) (auto simp: held_def Lookup_def run_onClose_def split: option.split)
  show "passes c hb Free w Free (log_close d r w)" if "minds c Free w" for w
    using passes_frame [OF that sound_pieces(4)] by (simp add: log_close_def)
qed (auto intro!: passes_frame sound_pieces)

lemma passes_close: "rg (minds c) (passes c hb) Free (\<lambda>_. True) (pClose d r) Free"
  using passes_own_close passes_other_close by (cases "d = c") auto

interpretation holding: session_actions "minds c" "passes c hb" Free "\<lambda>_. True" for c hb
proof unfold_locales
  show "passes c hb Free s Free u" if "minds c Free s" "passes c hb Free s Free t" "passes c hb Free t Free u" for s t u
  proof -
    have "c_closeOnce (w_clients t c) \<longrightarrow> c_closeOnce (w_clients u c)" and "c < w_next t" if "c < w_next s"
      using \<open>passes c hb Free t Free u\<close> \<open>passes c hb Free s Free t\<close> that
      by (auto simp: passes_def grows_def client_grows_def)
    then show ?thesis using that grows_trans unfolding passes_def by blast
  qed
  show "passes c hb Free w Free (upd_hub hb' (hub_step (w_clients w) (OpJoin d r)) w)" if "minds c Free w" for w hb' d r
    using that by (rule passes_steps) (rule hub_steps, simp add: membership_clients)
  show "passes c hb Free w Free (upd_hub hb' (hub_step (w_clients w) (OpLeave d r)) w)" if "minds c Free w" for w hb' d r
    using that by (rule passes_steps) (rule hub_steps, simp add: membership_clients)
  show "passes c hb Free w Free (upd_client d k w)" if "minds c Free w" "silent_client k" for w d k
    using that by (intro passes_steps) (auto simp: silent_client_def intro: step_intros)
  show "passes c hb Free w Free (upd_client d (\<lambda>x. x\<lparr>c_send := ch\<rparr>) w) \<and> True"
    if "minds c Free w" "try_recv (c_send (w_clients w d)) = Some (m, ch)" for w d m ch
    using passes_steps [OF that(1) steps_pop [OF that(2) rtranclp.rtrancl_refl]] by simp
  show "passes c hb Free w Free (upd_client d (\<lambda>x. x\<lparr>c_send := snd (try_send m (c_send x))\<rparr>) w)"
    if "minds c Free w" "\<not> c_closed (w_clients w d)" "fst (try_send m (c_send (w_clients w d)))" for w m d
    using passes_steps [OF that(1) steps_push [OF that(2,3) rtranclp.rtrancl_refl]] by simp
  show "minds c Free t" if "passes c hb Free s Free t" for s t
    using that by (simp add: passes_def)
qed (auto intro!: passes_close passes_steps step_intros)

text \<open>The critical section of \<open>Register\<close> takes over a user's registration; its goroutine then closes the older session.\<close>

lemma register_takes_over:
  assumes "held c hb w" and "\<not> held c hb (upd_hub hb' (hub_step (w_clients w) (OpRegister d)) w)"
  shows "hb' = hb \<and> fst (register_locked (w_clients w) d (w_hubs w hb)) = Some c \<and> d \<noteq> c"
  using assms by (auto simp: held_def Lookup_def register_locked_def Let_def split: if_splits)

lemma passes_register: "holding.guards c hb (\<lambda>_. True) (pRegister hb' d)"
  unfolding pRegister_def
proof (rule rg_atomic_then)
  fix w
  assume w: "minds c Free w"
  let ?w' = "upd_hub hb' (hub_step (w_clients w) (OpRegister d)) w"
  let ?old = "fst (register_locked (w_clients w) d (w_hubs w hb'))"
  let ?rest = "case ?old of None \<Rightarrow> Return () | Some old \<Rightarrow> if old \<noteq> d then pClose old ''duplicate_session_replaced'' else Return ()"
  have sound: "sound w ?w'" by (rule sound_steps [OF steps_hub [OF rtranclp.rtrancl_refl]]) simp
  have "\<exists>g. passes c hb Free w g ?w' \<and> rg (minds c) (passes c hb) Free (\<lambda>_. True) ?rest g"
  proof (cases "held c hb w \<and> \<not> held c hb ?w'")
    case True
    with register_takes_over [of c hb w hb' d] have "?old = Some c" "c \<noteq> d" by auto
    then have "rg (minds c) (passes c hb) Free (\<lambda>_. True) ?rest Owes" by (simp add: passes_own_close)
    moreover have "passes c hb Free w Owes ?w'" using sound w by (simp add: passes_def minds_def sound_def)
    ultimately show ?thesis by blast
  next
    case False
    have "rg (minds c) (passes c hb) Free (\<lambda>_. True) ?rest Free" by (simp add: passes_close split: option.split)
    moreover have "passes c hb Free w Free ?w'" using False by (intro passes_held w sound) blast
    ultimately show ?thesis by blast
  qed
  then show "\<exists>g. passes c hb Free w g (snd (?old, ?w')) \<and>
      rg (minds c) (passes c hb) Free (\<lambda>_. True)
        (case fst (?old, ?w') of None \<Rightarrow> Return () | Some old \<Rightarrow> if old \<noteq> d then pClose old ''duplicate_session_replaced'' else Return ()) g"
    by (simp only: fst_conv snd_conv)
qed

lemma passes_pHandle: "holding.guards c hb (\<lambda>_. True) (pHandle cfg hb' rs connection session)"
proof -
  have "passes c hb Free w Free (snd (new_limiter cfg w))" if "minds c Free w" for w
    by (rule passes_steps [OF that steps_limiter]) (simp add: new_limiter_def draw_clock_def split: prod.split)
  moreover have "passes c hb Free w Free (snd (newClient cn opts w))" if "minds c Free w" for w cn opts
    by (rule passes_steps [OF that steps_new [OF rtranclp.rtrancl_refl]]) (simp add: newClient_simps)
  ultimately show ?thesis
    unfolding pHandle_def pHandle_open_def
    by (intro holding.guards_then rg_atomic passes_register holding.guards_pRun rg_Return) simp_all
qed

lemma passes_goroutine: "goroutine p \<Longrightarrow> holding.guards c hb (\<lambda>_. True) p"
  by (induction rule: goroutine.induct)
     (auto intro: holding.guards_then passes_pHandle holding.guards_pWriteLoop holding.guards_pBrokerCallback
        holding.guards_pBroadcastDraining holding.guards_pCloseAll)

subsection \<open>A pool of goroutines\<close>

text \<open>
  \<open>will_close c p\<close>: the rest of the program closes the session, whatever the others do before.
\<close>

primrec will_close :: "cref \<Rightarrow> (world, 'a) prog \<Rightarrow> bool" where
  "will_close c (Return x) = False"
| "will_close c (Act a) =
     (\<forall>w. case map_prod (will_close c) id (a w) of (later, w') \<Rightarrow>
        bounded w \<longrightarrow> c < w_next w \<longrightarrow> c_closeOnce (w_clients w' c) \<or> later)"

lemma will_close_Act:
  "will_close c (Act a) =
     (\<forall>w. bounded w \<longrightarrow> c < w_next w \<longrightarrow> c_closeOnce (w_clients (snd (a w)) c) \<or> will_close c (fst (a w)))"
  by (simp add: case_prod_beta)

lemma finished_will_close: "finished p \<Longrightarrow> \<not> will_close c p"
  by (cases p) simp_all

lemma owes_will_close: "rg (minds c) (passes c hb) Free Q p Owes \<Longrightarrow> will_close c p"
proof (induction p)
  case (Act a)
  have "c_closeOnce (w_clients (snd (a w)) c) \<or> will_close c (fst (a w))" if "bounded w" "c < w_next w" for w
  proof -
    have "minds c Owes w" using that by (simp add: minds_def)
    with Act.prems obtain g where g: "passes c hb Owes w g (snd (a w))" "rg (minds c) (passes c hb) Free Q (fst (a w)) g"
      unfolding rg_Act by blast
    from g(1) that(2) have "g = Owes \<or> c_closeOnce (w_clients (snd (a w)) c)" by (simp add: passes_def)
    with Act.IH [of w] g(2) show ?thesis by blast
  qed
  then show ?case by (simp add: will_close_Act del: will_close.simps(2))
qed simp

definition minding :: "cref \<Rightarrow> takeover list \<Rightarrow> world \<Rightarrow> bool" where
  "minding c gs w = (\<forall>g \<in> insert Free (set gs). minds c g w)"

definition tended :: "cref \<Rightarrow> href \<Rightarrow> takeover list \<Rightarrow> world \<Rightarrow> bool" where
  "tended c hb gs w =
     (minding c gs w \<and> c < w_next w \<and> (held c hb w \<or> c_closeOnce (w_clients w c) \<or> Owes \<in> set gs))"

lemma minds_grows: "minds c g w \<Longrightarrow> grows w w' \<Longrightarrow> bounded w' \<Longrightarrow> minds c g w'"
  by (auto simp: minds_def grows_def client_grows_def)

lemma minding_step:
  assumes "minding c gs w" and "passes c hb g w g' w'"
  shows "minding c (gs[i := g']) w'"
proof -
  have new: "minds c g' w'" "grows w w'" using assms(2) by (simp_all add: passes_def)
  then have "minds c h w'" if "minds c h w" for h using minds_grows [OF that] by (simp add: minds_def)
  with assms(1) new(1) show ?thesis
    by (auto simp: minding_def dest: set_update_subset_insert [THEN subsetD])
qed

interpretation minding_pool: pool_invariant "minds c" "passes c hb" Free "minding c" for c hb
  by unfold_locales (auto intro: minding_step, auto simp: minding_def)

lemma Owes_stays:
  assumes "Owes \<in> set gs" and "gs ! i \<noteq> Owes"
  shows "Owes \<in> set (gs[i := g])"
  using assms by (metis in_set_conv_nth length_list_update nth_list_update_neq)

lemma tended_step:
  assumes "tended c hb gs w" and "i < length gs" and "passes c hb (gs ! i) w g' w'"
  shows "tended c hb (gs[i := g']) w'"
proof -
  have g: "grows w w'" and old: "c < w_next w" using assms by (simp_all add: passes_def tended_def)
  have mono: "c_closeOnce (w_clients w c) \<Longrightarrow> c_closeOnce (w_clients w' c)" and "c < w_next w'"
    using g old by (auto simp: grows_def client_grows_def)
  moreover have g': "g' \<in> set (gs[i := g'])" using assms(2) by (rule set_update_memI)
  ultimately show ?thesis
    using assms old Owes_stays [of gs i g'] minding_step [of c gs w hb "gs ! i" g' w' i]
    unfolding tended_def passes_def by metis
qed

interpretation tended_pool: pool_invariant "minds c" "passes c hb" Free "tended c hb" for c hb
proof unfold_locales
  show "minds c (gs ! i) w" if "tended c hb gs w" "i < length gs" for gs w i
    using that by (intro minding_pool.Inv_ghost) (simp_all add: tended_def)
  show "tended c hb (gs @ [Free]) w" if "tended c hb gs w" for gs w
    using that minding_pool.Inv_spawn by (auto simp: tended_def)
qed (rule tended_step)

lemma tended_start:
  assumes "pool_steps goroutine ([], initial e hubs brokers) (ps, w)" and "c < w_next w" and "held c hb w"
  shows "tended_pool.pool_ok c hb (ps, w)"
proof -
  have "minding c [] (initial e hubs brokers)" by (simp add: minding_def minds_def bounded_initial)
  from minding_pool.pool_ok_steps [OF assms(1) passes_goroutine minding_pool.pool_ok_start [OF this]]
  show ?thesis using assms(2,3) by (auto simp: minding_pool.pool_ok_def tended_pool.pool_ok_def tended_def)
qed

lemma tended_outcome:
  assumes "tended_pool.pool_ok c hb (ps, w)"
  shows "held c hb w \<or> c_closeOnce (w_clients w c) \<or> (\<exists>p \<in> set ps. will_close c p)"
proof -
  from assms obtain gs where gs: "list_all2 (rg (minds c) (passes c hb) Free (\<lambda>_. True)) ps gs" and t: "tended c hb gs w"
    by (auto simp: tended_pool.pool_ok_def)
  have "\<exists>p \<in> set ps. will_close c p" if "Owes \<in> set gs"
  proof -
    from that obtain i where "i < length gs" "gs ! i = Owes" by (auto simp: in_set_conv_nth)
    with gs have "i < length ps" "rg (minds c) (passes c hb) Free (\<lambda>_. True) (ps ! i) Owes"
      by (auto simp: list_all2_conv_all_nth)
    then show ?thesis using owes_will_close nth_mem by metis
  qed
  with t show ?thesis by (auto simp: tended_def)
qed

text \<open>
  C2: once a hub holds a session as the one of its user, then at every later point of every
  interleaving it still does, or the session is marked closed, or some goroutine is bound to close it. So when all
  goroutines have finished, two sessions of one user that were both registered at some time are not both
  open, however their registrations raced.
\<close>

theorem one_session_per_user:
  assumes "pool_steps goroutine ([], initial e hubs brokers) (ps1, w1)" and "held c hb w1" and "c < w_next w1"
    and "pool_steps goroutine (ps1, w1) (ps2, w2)" and "held d hb w2" and "d < w_next w2"
    and "pool_steps goroutine (ps2, w2) (ps, w)"
  shows "(held c hb w \<or> c_closeOnce (w_clients w c) \<or> (\<exists>p \<in> set ps. will_close c p)) \<and>
    ((\<forall>p \<in> set ps. finished p) \<longrightarrow> c \<noteq> d \<longrightarrow> UserID (w_clients w c) = UserID (w_clients w d) \<longrightarrow>
       c_closeOnce (w_clients w c) \<or> c_closeOnce (w_clients w d))"
proof -
  have "tended_pool.pool_ok c hb (ps, w)"
    by (rule tended_pool.pool_ok_steps [OF rtranclp_trans [OF assms(4,7)] passes_goroutine tended_start [OF assms(1,3,2)]])
  moreover have "tended_pool.pool_ok d hb (ps, w)"
    by (rule tended_pool.pool_ok_steps [OF assms(7) passes_goroutine tended_start [OF rtranclp_trans [OF assms(1,4)] assms(6,5)]])
  ultimately have "held c hb w \<or> c_closeOnce (w_clients w c) \<or> (\<exists>p \<in> set ps. will_close c p)"
    and "held d hb w \<or> c_closeOnce (w_clients w d) \<or> (\<exists>p \<in> set ps. will_close d p)"
    by (simp_all only: tended_outcome)
  moreover have "\<not> will_close x p" if "\<forall>p \<in> set ps. finished p" "p \<in> set ps" for x p
    using that finished_will_close by blast
  ultimately show ?thesis by (auto simp: held_def)
qed

lemma held_Register: "held c hb (Register hb c w)"
proof -
  have "UserID (w_clients (Register hb c w) c) = UserID (w_clients w c)"
    by (auto simp: Register_clients UserID_def mark_closed_def split: option.split)
  moreover have "mget (h_clients (w_hubs (Register hb c w) hb)) (UserID (w_clients w c)) = Some c"
    by (auto simp: Register_def register_locked_def Let_def Close_hubs Unregister_other split: option.split)
  ultimately show ?thesis by (simp add: held_def Lookup_def)
qed

lemma Handle_open_held:
  assumes "Handle_open cfg hb connection session w = (c, w1)"
  shows "held c hb w1" and "UserID (w_clients w1 c) = se_UserID session"
proof -
  obtain l wa wb where n: "newClient (Some connection) (session_options cfg hb session l) wa = (c, wb)" and w1: "w1 = Register hb c wb"
    using assms by (auto simp: Handle_open_def split: prod.splits)
  show "held c hb w1" unfolding w1 by (rule held_Register)
  have "wb = snd (newClient (Some connection) (session_options cfg hb session l) wa)" "c = w_next wa"
    using n newClient_simps(1) by (metis snd_conv, metis fst_conv)
  then show "UserID (w_clients w1 c) = se_UserID session"
    by (auto simp: w1 Register_clients newClient_simps UserID_def client_of_def session_options_def mark_closed_def split: option.split)
qed

text \<open>Both connections register before either session starts to run.\<close>

theorem one_session_per_user_witness:
  "case Handle_open (sample_config ''test'') 0 new_socket \<lparr>se_ConnectionID = ''conn_a'', se_UserID = ''ann''\<rparr> sample_start of (c, w1) \<Rightarrow>
   case Handle_open (sample_config ''test'') 0 new_socket \<lparr>se_ConnectionID = ''conn_b'', se_UserID = ''ann''\<rparr> w1 of (d, w2) \<Rightarrow>
   let w = snd (Run d [] (snd (Run c [] w2))) in c_closeOnce (w_clients w c) \<or> c_closeOnce (w_clients w d)"
proof -
  let ?o = "\<lambda>k. pHandle_open (sample_config ''test'') 0 new_socket \<lparr>se_ConnectionID = k, se_UserID = ''ann''\<rparr>"
  let ?p = "\<lambda>k. andThen (?o k) (\<lambda>c. thenDo (pRun c []) (Return ()))"
  obtain c w1 d w2 where o: "exec (?o ''conn_a'') sample_start = (c, w1)" "exec (?o ''conn_b'') w1 = (d, w2)" by fastforce
  let ?ps1 = "[thenDo (pRun c []) (Return ())]"
  let ?ps2 = "[thenDo (pRun c []) (Return ()), thenDo (pRun d []) (Return ())]"
  let ?w3 = "snd (Run c [] w2)"
  let ?w = "snd (Run d [] ?w3)"
  have "goroutine (?p k)" for k
    using go_handle [of new_socket "sample_config ''test''" 0 "[]"] by (simp add: pHandle_def new_socket_def andThen_assoc)
  then have run1: "pool_steps goroutine ([], sample_start) (?ps1, w1)" and run2: "pool_steps goroutine (?ps1, w1) (?ps2, w2)"
    using pool_start [where code = goroutine and f = "\<lambda>c. thenDo (pRun c []) (Return ())" and ps = "[]", OF _ o(1)]
      pool_start [where code = goroutine and f = "\<lambda>c. thenDo (pRun c []) (Return ())" and ps = ?ps1, OF _ o(2)] by simp_all
  have "pool_steps goroutine (?ps2, w2) (?ps2[0 := Return ()], ?w3)"
    by (rule pool_exec [OF _ refl]) (simp_all add: exec_andThen exec_pRun case_prod_beta)
  moreover have "pool_steps goroutine (?ps2[0 := Return ()], ?w3) (?ps2[0 := Return (), 1 := Return ()], ?w)"
    by (rule pool_exec [OF _ refl]) (simp_all add: exec_andThen exec_pRun case_prod_beta)
  ultimately have run3: "pool_steps goroutine (?ps2, w2) ([Return (), Return ()], ?w)" by simp
  note a = o(1) [unfolded exec_pHandle_open] and b = o(2) [unfolded exec_pHandle_open]
  have "grows w1 w2" by (rule steps_grows [OF Handle_open_steps(1) [OF b]])
  moreover have "psteps (\<lambda>_ _ _. True) w2 ?w"
    by (rule steps_Run [OF prod.collapse [symmetric] steps_Run [OF prod.collapse [symmetric] rtranclp.rtrancl_refl]])
  then have g: "grows w2 ?w" by (rule steps_grows)
  ultimately have user: "UserID (w_clients ?w c) = ''ann''" "UserID (w_clients ?w d) = ''ann''"
    using grows_user [of w1 w2 c] grows_user [OF g] Handle_open_held(2) [OF a] Handle_open_held(2) [OF b]
      Handle_open_steps(3) [OF a] Handle_open_steps(3) [OF b]
    by (auto simp: grows_def)
  have "c \<noteq> d" using Handle_open_steps(3) [OF a] Handle_open_steps(2) [OF b] by simp
  with one_session_per_user [OF run1 [unfolded sample_start_def] Handle_open_held(1) [OF a] Handle_open_steps(3) [OF a]
      run2 Handle_open_held(1) [OF b] Handle_open_steps(3) [OF b] run3] user a b show ?thesis
    by simp
qed

end
