(* ===== verification/Traces.thy ===== *)
theory Traces
  imports Threads
begin

text \<open>
  The trace of a program among others: the states before and after each of its own actions, in order. Between
  two of them the other programs may change the state in any way, so a statement about all traces holds
  under every interference.
\<close>

inductive runs :: "('s, 'a) prog \<Rightarrow> ('s \<times> 's) list \<Rightarrow> 'a \<Rightarrow> bool" where
  runs_Return: "runs (Return x) [] x"
| runs_Act: "runs (fst (a s)) tr x \<Longrightarrow> runs (Act a) ((s, snd (a s)) # tr) x"

inductive_simps runs_Return_iff [simp]: "runs (Return x) tr y"
inductive_simps runs_Act_iff: "runs (Act a) tr y"

lemma runs_atomic: "runs (atomic f) tr x \<longleftrightarrow> (\<exists>s. tr = [(s, snd (f s))] \<and> x = fst (f s))"
  by (auto simp: atomic_def runs_Act_iff)

lemma runs_modify: "runs (modify f) tr x \<longleftrightarrow> (\<exists>s. tr = [(s, f s)])"
  by (simp add: modify_def runs_atomic)

lemma runs_andThen: "runs (andThen p f) tr y \<longleftrightarrow> (\<exists>t u x. tr = t @ u \<and> runs p t x \<and> runs (f x) u y)"
proof (induction p arbitrary: tr)
  case (Act a)
  show ?case
  proof
    assume "runs (andThen (Act a) f) tr y"
    then obtain s tr' where tr: "tr = (s, snd (a s)) # tr'" and "runs (andThen (fst (a s)) f) tr' y"
      by (auto simp: runs_Act_iff)
    from Act.IH [THEN iffD1, OF this(2)] obtain t u x where "tr' = t @ u" "runs (fst (a s)) t x" "runs (f x) u y" by blast
    then show "\<exists>t u x. tr = t @ u \<and> runs (Act a) t x \<and> runs (f x) u y"
      unfolding tr by (intro exI [of _ "(s, snd (a s)) # t"] exI [of _ u] exI [of _ x]) (simp add: runs_Act)
  next
    assume "\<exists>t u x. tr = t @ u \<and> runs (Act a) t x \<and> runs (f x) u y"
    then obtain s t u x where tr: "tr = ((s, snd (a s)) # t) @ u" and "runs (fst (a s)) t x" "runs (f x) u y"
      by (auto simp: runs_Act_iff)
    then have "runs (andThen (fst (a s)) f) (t @ u) y" using Act.IH by blast
    then show "runs (andThen (Act a) f) tr y" unfolding tr by (auto simp: runs_Act_iff)
  qed
qed simp

lemma runs_then_atomic:
  "runs (andThen (atomic f) g) tr y \<longleftrightarrow> (\<exists>s rest. tr = (s, snd (f s)) # rest \<and> runs (g (fst (f s))) rest y)"
  by (simp add: atomic_def runs_Act_iff)

lemma runs_each: "runs (each f xs) tr y \<Longrightarrow> \<exists>trs. tr = concat trs \<and> list_all2 (\<lambda>x t. runs (f x) t ()) xs trs"
proof (induction xs arbitrary: tr)
  case (Cons x xs)
  then obtain t u where tu: "tr = t @ u" "runs (f x) t ()" "runs (each f xs) u y" by (auto simp: runs_andThen)
  from Cons.IH [OF tu(3)] obtain trs where "u = concat trs" "list_all2 (\<lambda>x t. runs (f x) t ()) xs trs" by blast
  with tu show ?case by (intro exI [of _ "t # trs"]) simp
qed simp

text \<open>Running alone is one way to run.\<close>

primrec trace_of :: "('s, 'a) prog \<Rightarrow> 's \<Rightarrow> ('s \<times> 's) list" where
  "trace_of (Return x) = (\<lambda>s. [])"
| "trace_of (Act a) = (\<lambda>s. case map_prod trace_of id (a s) of (rest, s') \<Rightarrow> (s, s') # rest s')"

lemma exec_runs: "runs p (trace_of p s) (fst (exec p s))"
proof (induction p arbitrary: s)
  case (Act a)
  then show ?case by (simp add: exec_Act case_prod_beta runs_Act del: exec.simps)
qed (simp add: runs_Return)

lemma trace_of_runs: "runs p (trace_of p s) ()"
  using exec_runs [of p s] by simp

text \<open>A program of a pool that is over has a trace, whose entries are actions that the pool took.\<close>

lemma pool_runs:
  assumes "pool_steps code st st'" and "i < length (fst st)" and "fst st' ! i = Return x"
  shows "\<exists>tr. runs (fst st ! i) tr x \<and>
    (\<forall>(u, v) \<in> set tr. \<exists>ps qs. pool_steps code st (ps, u) \<and> pool_step code (ps, u) (qs, v) \<and> pool_steps code (qs, v) st')"
  using assms(1,2)
proof (induction rule: converse_rtranclp_induct)
  case base
  with assms(3) show ?case by (intro exI [of _ "[]"]) simp
next
  case (step st0 st1)
  have len: "i < length (fst st1)" using step.hyps(1) step.prems by cases (auto simp: nth_append)
  from step.IH [OF len] obtain tr where tr: "runs (fst st1 ! i) tr x"
    and in_pool: "\<And>u v. (u, v) \<in> set tr \<Longrightarrow>
      \<exists>ps qs. pool_steps code st1 (ps, u) \<and> pool_step code (ps, u) (qs, v) \<and> pool_steps code (qs, v) st'"
    by blast
  have later: "\<exists>ps qs. pool_steps code st0 (ps, u) \<and> pool_step code (ps, u) (qs, v) \<and> pool_steps code (qs, v) st'"
    if "(u, v) \<in> set tr" for u v
    using in_pool [OF that] converse_rtranclp_into_rtranclp [of "pool_step code" st0 st1, OF step.hyps(1)] by blast
  consider (own) a p s' where "fst st0 ! i = Act a" "a (snd st0) = (p, s')" "fst st1 ! i = p" "snd st1 = s'"
    | (other) "fst st1 ! i = fst st0 ! i"
    using step.hyps(1)
  proof cases
    case (pool_run j ps a s p s')
    then show ?thesis using step.prems that by (cases "j = i") auto
  next
    case (pool_spawn p ps s)
    then show ?thesis using step.prems that(2) by (simp add: nth_append)
  qed
  then show ?case
  proof cases
    case own
    then have "runs (fst st0 ! i) ((snd st0, snd st1) # tr) x" using tr runs_Act [of a "snd st0" tr x] by simp
    moreover have "\<exists>ps qs. pool_steps code st0 (ps, snd st0) \<and> pool_step code (ps, snd st0) (qs, snd st1) \<and>
        pool_steps code (qs, snd st1) st'"
      using step.hyps by (intro exI [of _ "fst st0"] exI [of _ "fst st1"]) simp
    ultimately show ?thesis using later by (intro exI [of _ "(snd st0, snd st1) # tr"]) auto
  next
    case other
    with tr later show ?thesis by (intro exI [of _ tr]) auto
  qed
qed

end
