(* ===== verification/Interference.thy ===== *)
theory Interference
  imports Loops Traces
begin

text \<open>
  A broadcast and a write loop while other goroutines run: between collecting the recipients, making the event
  and each single delivery, and between taking a frame and writing it, sessions may join, leave, close, send
  and receive in any way. The statements are about the traces of the two programs; every program that ends
  in a pool has one (\<open>pool_runs\<close>).
\<close>

subsection \<open>What leaves the queues alone\<close>

definition same_queues :: "world \<times> world \<Rightarrow> bool" where
  "same_queues act = (case act of (u, v) \<Rightarrow> \<forall>c. c_send (w_clients v c) = c_send (w_clients u c))"

lemma same_queues_simps [simp]:
  "same_queues (w, w)" "same_queues (w, logged l m a w)" "same_queues (w, metric f w)" "same_queues (w, run_onClose c w)"
  "same_queues (w, log_close c r w)" "same_queues (w, note_queue_full c w)" "same_queues (w, note_unavailable r c w)"
  "same_queues (w, upd_client c mark w)" "same_queues (w, upd_client c close_socket w)"
  by (auto simp: same_queues_def run_onClose_def log_close_def note_queue_full_def note_unavailable_def mark_def
      close_socket_def split: option.split)

lemma runs_pClose:
  assumes "runs (pClose c r) tr ()"
  shows "list_all same_queues tr" and "\<exists>(u, v) \<in> set tr. c_closeOnce (w_clients v c)"
  using assms
  by (auto simp: pClose_def runs_then_atomic runs_modify modify_def runs_atomic first_close_def mark_def split: if_splits)

subsection \<open>One delivery\<close>

text \<open>
  The trace of one delivery: its first action finds the session closed, or appends the message to the queue, or
  finds the queue full, and then the delivery closes the session; nothing else happens to any queue.
\<close>

fun offered :: "cref \<Rightarrow> outboundMessage \<Rightarrow> (world \<times> world) list \<Rightarrow> bool" where
  "offered c m [] = False"
| "offered c m ((u, v) # tr) =
     (list_all same_queues tr \<and>
      (if c_closed (w_clients u c) then v = u
       else if has_room (w_clients u c) then
         v = upd_client c (\<lambda>x. x\<lparr>c_send := (c_send x)\<lparr>ch_buf := ch_buf (c_send x) @ [m]\<rparr>\<rparr>) u
       else v = u \<and> (\<exists>(a, b) \<in> set tr. c_closeOnce (w_clients b c))))"

lemma enqueue_cases:
  "c_closed (w_clients u c) \<Longrightarrow> enqueue c m u = (Refused_closed, u)"
  "\<not> c_closed (w_clients u c) \<Longrightarrow> has_room (w_clients u c) \<Longrightarrow>
     enqueue c m u = (Queued, upd_client c (\<lambda>x. x\<lparr>c_send := (c_send x)\<lparr>ch_buf := ch_buf (c_send x) @ [m]\<rparr>\<rparr>) u)"
  "\<not> c_closed (w_clients u c) \<Longrightarrow> \<not> has_room (w_clients u c) \<Longrightarrow> enqueue c m u = (Queue_full, u)"
  by (simp_all add: enqueue_def try_send_def has_room_def upd_client_def)

lemma runs_pSend:
  assumes "runs (pSend c t p) tr ok"
  shows "offered c \<lparr>om_messageType = t, om_payload = p\<rparr> tr"
proof -
  let ?m = "\<lparr>om_messageType = t, om_payload = p\<rparr>"
  from assms obtain u rest where tr: "tr = (u, snd (enqueue c ?m u)) # rest"
    and rest: "runs (case fst (enqueue c ?m u) of
         Refused_closed \<Rightarrow> Return False
       | Queued \<Rightarrow>
           andThen (reading (\<lambda>w. length (ch_buf (c_send (w_clients w c))))) (\<lambda>depth.
           thenDo (modify (metric (UpdateMaxQueueDepth (of_nat depth)))) (Return True))
       | Queue_full \<Rightarrow> thenDo (modify (note_queue_full c)) (thenDo (pClose c ''outbound_queue_full'') (Return False))) rest ok"
    unfolding pSend_def runs_then_atomic by blast
  consider "c_closed (w_clients u c)" | "\<not> c_closed (w_clients u c)" "has_room (w_clients u c)"
    | "\<not> c_closed (w_clients u c)" "\<not> has_room (w_clients u c)" by blast
  then show ?thesis
  proof cases
    case 3
    with rest obtain a cl where "rest = (a, note_queue_full c a) # cl" "runs (pClose c ''outbound_queue_full'') cl ()"
      by (auto simp: enqueue_cases runs_andThen runs_modify)
    with 3 runs_pClose [OF this(2)] show ?thesis by (auto simp: tr enqueue_cases)
  qed (use rest in \<open>auto simp: tr enqueue_cases runs_andThen runs_modify reading_def runs_atomic\<close>)
qed

lemma offered_snoc: "offered c m tr \<Longrightarrow> same_queues act \<Longrightarrow> offered c m (tr @ [act])"
  by (cases tr) (auto split: if_splits)

lemma runs_pDeliver:
  assumes "runs (pDeliver roomID event c) tr ()" and "MarshalOutbound event = Some frame"
  shows "offered c (text_frame frame) tr"
proof -
  from assms(1) obtain t u ok where tr: "tr = t @ u" and send: "runs (pSendJSON c event) t ok"
    and report: "runs (if ok then Return () else modify (note_unavailable roomID c)) u ()"
    unfolding pDeliver_def runs_andThen by blast
  from send assms(2) have "offered c (text_frame frame) t" by (simp add: pSendJSON_def runs_pSend text_frame_def)
  with report show ?thesis by (auto simp: tr runs_modify intro: offered_snoc split: if_splits)
qed

lemma runs_event:
  "runs (andThen (pNewEvent t q p) f) tr y \<longleftrightarrow>
     (\<exists>u v rest. tr = (u, tick u) # (v, tick v) # rest \<and>
        runs (f (newOutboundMessage (e_rand (w_env u) (w_tick u)) (snd (e_clock (w_env v) (w_tick v))) t q p)) rest y)"
  by (simp add: pNewEvent_def andThen_assoc runs_then_atomic draw_rand_def draw_clock_def) blast

subsection \<open>The broadcast\<close>

lemma runs_broadcast:
  assumes "newOutboundMessage (e_rand (w_env u) (w_tick u)) (snd (e_clock (w_env v) (w_tick v)))
      CommandRoomBroadcast [] (PBroadcast roomID senderID payload) = Some event"
  shows "runs (pLocalBroadcast hb senderID roomID payload) ((w, w') # (u, u') # (v, v') # tr) () \<longleftrightarrow>
    (\<exists>rs. recipients (e_order (w_env w) (w_tick w)) (w_clients w) senderID roomID (w_hubs w hb) = Some rs \<and>
       w' = tick w \<and> u' = tick u \<and> v' = tick v \<and> runs (each (pDeliver roomID event) rs) tr ())"
  using assms
  by (auto simp: pLocalBroadcast_def runs_then_atomic runs_event collect_recipients_def split: option.splits)

text \<open>
  C5: whatever other goroutines do between the actions of a local broadcast, it offers one and
  the same text frame, once each and in one go over them, to exactly the sessions that were members of the room with a
  user other than the sender when it collected its recipients: each of them has the frame appended to its
  queue, or was already closed by then, or has a full queue and is closed for it. No other action of the
  broadcast changes a queue.
\<close>

theorem broadcast_offered:
  assumes "runs (pLocalBroadcast hb senderID roomID payload) ((w, w') # (u, u') # (v, v') # tr) ()"
    and "hub_ok (w_hubs w hb)" and "refs_ok (w_clients w) (w_hubs w hb)"
    and "newOutboundMessage (e_rand (w_env u) (w_tick u)) (snd (e_clock (w_env v) (w_tick v)))
           CommandRoomBroadcast [] (PBroadcast roomID senderID payload) = Some event"
    and "MarshalOutbound event = Some frame"
  shows "\<exists>rs served. distinct rs \<and>
    (\<forall>c. c \<in> set rs \<longleftrightarrow> (\<exists>k. nget (h_rooms (w_hubs w hb)) roomID k = Some c) \<and> UserID (w_clients w c) \<noteq> senderID) \<and>
    tr = concat served \<and> list_all2 (\<lambda>c t. offered c (text_frame frame) t) rs served"
proof -
  let ?r = "recipients (e_order (w_env w) (w_tick w)) (w_clients w) senderID roomID (w_hubs w hb)"
  note exact = recipients_exact [OF assms(2,3), where pick = "e_order (w_env w) (w_tick w)" and senderID = senderID and roomID = roomID]
  from assms(1) obtain rs where rs: "?r = Some rs" and rest: "runs (each (pDeliver roomID event) rs) tr ()"
    unfolding runs_broadcast [OF assms(4)] by blast
  from runs_each [OF rest] obtain served
    where served: "tr = concat served" "list_all2 (\<lambda>c t. runs (pDeliver roomID event c) t ()) rs served" by blast
  from served(2) have "list_all2 (\<lambda>c t. offered c (text_frame frame) t) rs served"
    by (rule list_all2_mono) (rule runs_pDeliver [OF _ assms(5)])
  with exact rs served(1) show ?thesis by auto
qed

text \<open>A recipient that closes after it was collected and before it is served.\<close>

theorem broadcast_offered_witness:
  "\<exists>tr rs served frame. runs (pLocalBroadcast 0 ''alice'' ''lobby'' ''{}'') tr () \<and> drop 3 tr = concat served \<and>
     list_all2 (\<lambda>c t. offered c (text_frame frame) t) rs served \<and> 1 \<in> set rs \<and> 0 \<notin> set rs"
proof -
  have refs: "refs_ok (w_clients room_world) (w_hubs room_world 0)" by (rule refs_ok_check) code_simp
  have ok: "hub_ok (w_hubs room_world 0)" using world_ok_room by (simp add: world_ok_def hubs_ok_def)
  let ?u = "tick room_world" and ?v = "tick (tick room_world)"
  let ?n = "newOutboundMessage (e_rand (w_env ?u) (w_tick ?u)) (snd (e_clock (w_env ?v) (w_tick ?v)))
      CommandRoomBroadcast [] (PBroadcast ''lobby'' ''alice'' ''{}'')"
  have "(case ?n of None \<Rightarrow> False | Some ev \<Rightarrow> MarshalOutbound ev \<noteq> None)" by code_simp
  then obtain ev frame where ev: "?n = Some ev" and frame: "MarshalOutbound ev = Some frame"
    by (cases ?n) (auto split: option.splits)
  have "recipients (e_order (w_env room_world) (w_tick room_world)) (w_clients room_world) ''alice'' ''lobby''
      (w_hubs room_world 0) = Some [1]" by code_simp
  then have "runs (pLocalBroadcast 0 ''alice'' ''lobby'' ''{}'') ((room_world, ?u) # (?u, ?v) # (?v, tick ?v) #
      trace_of (each (pDeliver ''lobby'' ev) [1]) (Close 1 ''read_error'' room_world)) ()"
    unfolding runs_broadcast [OF ev] by (intro exI [of _ "[1]"]) (simp only: simp_thms trace_of_runs)
  note run = this and served = broadcast_offered [OF this ok refs ev frame]
  have "nget (h_rooms (w_hubs room_world 0)) ''lobby'' ''conn_b'' = Some 1"
    "UserID (w_clients room_world 1) \<noteq> ''alice''" "UserID (w_clients room_world 0) = ''alice''"
    by code_simp+
  with served run show ?thesis by fastforce
qed

subsection \<open>The write loop\<close>

text \<open>
  What an action takes off a session's queue and what it puts on the session's socket. Pings do not come from
  the queue and are left out.
\<close>

definition queue_of :: "cref \<Rightarrow> world \<Rightarrow> outboundMessage list" where
  "queue_of c w = ch_buf (c_send (w_clients w c))"

definition taken :: "cref \<Rightarrow> (world \<times> world) list \<Rightarrow> outboundMessage list" where
  "taken c tr = concat (map (\<lambda>(u, v). take (length (queue_of c u) - length (queue_of c v)) (queue_of c u)) tr)"

definition put_out :: "cref \<Rightarrow> (world \<times> world) list \<Rightarrow> outboundMessage list" where
  "put_out c tr = concat (map (\<lambda>(u, v). drop (length (written (w_clients u c))) (written (w_clients v c))) tr)"

definition no_pings :: "outboundMessage list \<Rightarrow> outboundMessage list" where
  "no_pings = filter (\<lambda>m. om_messageType m \<noteq> PingMessage)"

lemma io_append [simp]:
  "taken c [] = []" "put_out c [] = []" "no_pings [] = []"
  "taken c (t @ u) = taken c t @ taken c u" "put_out c (t @ u) = put_out c t @ put_out c u"
  "no_pings (xs @ ys) = no_pings xs @ no_pings ys"
  by (simp_all add: taken_def put_out_def no_pings_def)

lemma io_Cons:
  "taken c (x # t) = taken c [x] @ taken c t" "put_out c (x # t) = put_out c [x] @ put_out c t"
  by (simp_all add: taken_def put_out_def)

definition no_io :: "cref \<Rightarrow> world \<times> world \<Rightarrow> bool" where
  "no_io c act = (case act of (u, v) \<Rightarrow>
     queue_of c v = queue_of c u \<and> written (w_clients v c) = written (w_clients u c))"

lemma no_io_trace: "list_all (no_io c) tr \<Longrightarrow> taken c tr = [] \<and> put_out c tr = []"
  by (induction tr) (auto simp: taken_def put_out_def no_io_def)

lemma no_io_simps [simp]:
  "no_io c (w, w)" "no_io c (w, logged l m a w)" "no_io c (w, metric f w)" "no_io c (w, run_onClose d w)"
  "no_io c (w, log_close d r w)" "no_io c (w, upd_client d mark w)" "no_io c (w, upd_client d close_socket w)"
  "no_io c (w, tick w)"
  by (auto simp: no_io_def queue_of_def run_onClose_def log_close_def mark_def close_socket_def written_def split: option.split)

lemma no_io_deadline: "no_io c (w, snd (set_write_deadline d w))"
  by (auto simp: no_io_def queue_of_def set_write_deadline_def draw_clock_def written_def Let_def split: option.split prod.split)

lemma no_io_pClose: "runs (pClose d r) tr x \<Longrightarrow> list_all (no_io c) tr"
  by (auto simp: pClose_def runs_then_atomic runs_modify modify_def runs_atomic first_close_def split: if_splits)

text \<open>A trace that closes the session at some point.\<close>

definition closes_session :: "cref \<Rightarrow> (world \<times> world) list \<Rightarrow> bool" where
  "closes_session c tr = (\<exists>(u, v) \<in> set tr. c_closeOnce (w_clients v c))"

lemma closes_session_append [simp]: "closes_session c (t @ u) = (closes_session c t \<or> closes_session c u)"
  by (auto simp: closes_session_def)

lemma closing_trace:
  assumes "runs (thenDo (pClose c r) (Return x)) tr y"
  shows "y = x \<and> taken c tr = [] \<and> put_out c tr = [] \<and> closes_session c tr"
proof -
  have "runs (pClose c r) tr ()" and "y = x" using assms by (auto simp: runs_andThen)
  then show ?thesis using no_io_trace [OF no_io_pClose] runs_pClose(2) by (simp add: closes_session_def)
qed

lemma socket_write_trace:
  assumes "c_connection (w_clients u c) \<noteq> None"
  shows "taken c [(u, snd (socket_write c m u))] = []"
    and "put_out c [(u, snd (socket_write c m u))] = (if fst (socket_write c m u) then [m] else [])"
  using assms by (auto simp: taken_def put_out_def queue_of_def socket_write_def written_def)

definition connected :: "cref \<Rightarrow> (world \<times> world) list \<Rightarrow> bool" where
  "connected c tr = (\<forall>(u, v) \<in> set tr. c_connection (w_clients u c) \<noteq> None)"

lemma connected_append [simp]:
  "connected c []" "connected c (t @ u) = (connected c t \<and> connected c u)"
  "connected c ((a, b) # t) = (c_connection (w_clients a c) \<noteq> None \<and> connected c t)"
  by (auto simp: connected_def)

lemma frame_trace:
  assumes "runs (pWriteFrame c m) tr ok" and "connected c tr"
  shows "taken c tr = [] \<and> put_out c tr = (if ok then [m] else []) \<and> (ok \<or> closes_session c tr)"
proof -
  from assms(1) obtain w t u goes where tr: "tr = (w, w) # t @ u"
    and t: "runs (if 0 < c_writeTimeout (w_clients w c) then atomic (set_write_deadline c) else Return True) t goes"
    and u: "runs (if goes then
         andThen (atomic (socket_write c m)) (\<lambda>written.
           if written then Return True else thenDo (pClose c ''write_failed'') (Return False))
       else thenDo (pClose c ''write_deadline_failed'') (Return False)) u ok"
    unfolding pWriteFrame_def reading_def runs_then_atomic by (auto simp: runs_andThen)
  have "list_all (no_io c) ((w, w) # t)"
    using t by (auto simp: runs_atomic no_io_deadline split: if_splits)
  note prelude = no_io_trace [OF this]
  have "taken c u = [] \<and> put_out c u = (if ok then [m] else []) \<and> (ok \<or> closes_session c u)"
  proof (cases goes)
    case False
    with u have "runs (thenDo (pClose c ''write_deadline_failed'') (Return False)) u ok" by simp
    from closing_trace [OF this] show ?thesis by simp
  next
    case True
    with u obtain s rest where u': "u = (s, snd (socket_write c m s)) # rest"
      and rest: "runs (if fst (socket_write c m s) then Return True else thenDo (pClose c ''write_failed'') (Return False)) rest ok"
      by (auto simp: runs_then_atomic)
    have s: "c_connection (w_clients s c) \<noteq> None" using assms(2) by (simp add: tr u')
    show ?thesis
    proof (cases "fst (socket_write c m s)")
      case True
      with rest socket_write_trace [OF s, of m] show ?thesis by (simp add: u')
    next
      case False
      with rest closing_trace [of c "''write_failed''" False rest ok] socket_write_trace [OF s, of m] show ?thesis
        by (simp add: u' io_Cons [of c _ rest]) (auto simp: closes_session_def)
    qed
  qed
  with prelude show ?thesis
    using io_append(4,5) [of c "(w, w) # t" u] by (auto simp: tr closes_session_def)
qed

lemma take_message_trace:
  "taken c [(u, snd (take_message c u))] = (case fst (take_message c u) of None \<Rightarrow> [] | Some m \<Rightarrow> [m])"
  "put_out c [(u, snd (take_message c u))] = []"
  using try_recv_suffix [of "c_send (w_clients u c)"]
  by (auto simp: taken_def put_out_def queue_of_def take_message_def written_def split: option.split)

text \<open>
  How a part of the loop ends: with everything taken also put out, or with the session closed and at most the last
  frame taken not put out.
\<close>

definition in_order :: "cref \<Rightarrow> (world \<times> world) list \<Rightarrow> bool \<Rightarrow> bool" where
  "in_order c tr goes =
     (no_pings (put_out c tr) = no_pings (taken c tr) \<or>
      \<not> goes \<and> closes_session c tr \<and> (\<exists>m. no_pings (taken c tr) = no_pings (put_out c tr) @ no_pings [m]))"

lemma in_order_append: "in_order c t True \<Longrightarrow> in_order c u goes \<Longrightarrow> in_order c (t @ u) goes"
  by (auto simp: in_order_def)

lemma select_trace:
  assumes "runs (pWriteSelect c choice) tr goes" and "connected c tr"
  shows "in_order c tr goes"
proof (cases choice)
  case ChooseDone
  with assms(1) obtain w where "tr = [(w, w)]" by (auto simp: pWriteSelect_def reading_def runs_atomic)
  then show ?thesis using no_io_trace [of c tr] by (simp add: in_order_def)
next
  case ChooseMessage
  with assms(1) obtain w rest where tr: "tr = (w, snd (take_message c w)) # rest"
    and rest: "runs (case fst (take_message c w) of
        None \<Rightarrow> Return True
      | Some message \<Rightarrow>
          andThen (pWriteFrame c message) (\<lambda>ok.
            if ok then thenDo (modify (metric IncrementMessagesSent)) (Return True) else Return False)) rest goes"
    by (auto simp: pWriteSelect_def runs_then_atomic)
  note head = take_message_trace [of c w]
  show ?thesis
  proof (cases "fst (take_message c w)")
    case None
    with rest head show ?thesis by (simp add: tr in_order_def)
  next
    case (Some m)
    with rest obtain t u ok where rest': "rest = t @ u" and t: "runs (pWriteFrame c m) t ok"
      and u: "runs (if ok then thenDo (modify (metric IncrementMessagesSent)) (Return True) else Return False) u goes"
      by (auto simp: runs_andThen)
    have "list_all (no_io c) u" and goes: "goes = ok" using u by (auto simp: runs_andThen runs_modify split: if_splits)
    with no_io_trace frame_trace [OF t] assms(2) head Some show ?thesis
      by (auto simp: tr rest' in_order_def io_Cons [of c _ "t @ u"] closes_session_def)
  qed
next
  case ChoosePing
  with assms(1) obtain w rest where tr: "tr = (w, w) # rest"
    and rest: "runs (if 0 < c_pingInterval (w_clients w c) then pWriteFrame c \<lparr>om_messageType = PingMessage, om_payload = []\<rparr>
       else Return True) rest goes"
    by (auto simp: pWriteSelect_def reading_def runs_then_atomic)
  have "no_io c (w, w)" by simp
  then have head: "taken c [(w, w)] = [] \<and> put_out c [(w, w)] = []" by (intro no_io_trace) simp
  show ?thesis
  proof (cases "0 < c_pingInterval (w_clients w c)")
    case True
    with rest frame_trace [of c _ rest goes] assms(2) head show ?thesis
      by (simp add: tr in_order_def io_Cons [of c _ rest]) (simp add: no_pings_def)
  next
    case False
    with rest head show ?thesis by (simp add: tr in_order_def)
  qed
qed

lemma step_trace:
  assumes "runs (pWriteStep c choice) tr goes" and "connected c tr"
  shows "in_order c tr goes"
proof -
  from assms(1) obtain w rest where tr: "tr = [(w, w)] @ rest"
    and rest: "runs (if c_closed (w_clients w c) then Return False else pWriteSelect c choice) rest goes"
    by (auto simp: pWriteStep_def reading_def runs_then_atomic)
  have "taken c [(w, w)] = [] \<and> put_out c [(w, w)] = []" by (intro no_io_trace) simp
  then have "in_order c [(w, w)] True" by (simp add: in_order_def)
  moreover have "in_order c rest goes"
    using rest select_trace [of c choice rest goes] assms(2) by (auto simp: tr in_order_def split: if_splits)
  ultimately show ?thesis unfolding tr by (rule in_order_append)
qed

text \<open>
  C6: whatever other goroutines do between its actions, the write loop of a connected session puts on the
  socket exactly the frames it takes off the queue, in that order and besides its own pings; only when it
  closes the session can the last frame it took be missing.
\<close>

theorem write_loop_order:
  assumes "runs (pWriteLoop c choices) tr ()" and "\<forall>(u, v) \<in> set tr. c_connection (w_clients u c) \<noteq> None"
  shows "no_pings (put_out c tr) = no_pings (taken c tr) \<or>
    (\<exists>m. no_pings (taken c tr) = no_pings (put_out c tr @ [m])) \<and> (\<exists>(u, v) \<in> set tr. c_closeOnce (w_clients v c))"
proof -
  have "connected c tr" using assms(2) by (simp add: connected_def)
  with assms(1) have "in_order c tr False"
  proof (induction choices arbitrary: tr)
    case (Cons choice choices)
    then obtain t u goes where tr: "tr = t @ u" and t: "runs (pWriteStep c choice) t goes"
      and u: "runs (if goes then pWriteLoop c choices else Return ()) u ()"
      by (auto simp: runs_andThen)
    have "in_order c t goes" using step_trace [OF t] Cons.prems(2) by (simp add: tr)
    with u Cons.IH [of u] Cons.prems(2) show ?case
      by (cases goes) (auto simp: tr intro: in_order_append)
  qed (simp add: in_order_def)
  then show ?thesis by (auto simp: in_order_def closes_session_def)
qed

definition sample_queued :: world where
  "sample_queued = snd (Send 1 TextMessage ''a'' sample_world)"

theorem write_loop_order_witness:
  "map om_payload (no_pings (put_out 1 (trace_of (pWriteLoop 1 [ChooseMessage]) sample_queued))) = [''a'']"
proof -
  define tr where "tr = trace_of (pWriteLoop 1 [ChooseMessage]) sample_queued"
  have run: "runs (pWriteLoop 1 [ChooseMessage]) tr ()"
    unfolding tr_def by (rule trace_of_runs)
  have "list_all (\<lambda>(u, v). case c_connection (w_clients u 1) of None \<Rightarrow> False | Some _ \<Rightarrow> True) tr"
    unfolding tr_def by code_simp
  then have "list_all (\<lambda>(u, v). c_connection (w_clients u 1) \<noteq> None) tr"
    by (rule list.pred_mono_strong) (simp split: option.splits prod.splits)
  then have c: "\<forall>(u, v) \<in> set tr. c_connection (w_clients u 1) \<noteq> None" by (simp only: list_all_iff)
  have "map om_payload (no_pings (taken 1 tr)) = [''a'']" unfolding tr_def by code_simp
  moreover have "list_all (\<lambda>(u, v). \<not> c_closeOnce (w_clients v 1)) tr" unfolding tr_def by code_simp
  ultimately have "map om_payload (no_pings (put_out 1 tr)) = [''a'']"
    using write_loop_order [OF run c] by (auto simp: list_all_iff)
  then show ?thesis unfolding tr_def .
qed

end
