(* ===== verification/Registration.thy ===== *)
theory Registration
  imports Interleaving Lifecycle
begin

text \<open>
  Which sessions a hub has registered, at the granularity of \<open>Interleaving\<close>: the body of \<open>Close\<close> marks the
  session and closes its socket before \<open>onClose\<close> unregisters it, so in between a registered session is closed.
\<close>

subsection \<open>Registered sessions\<close>

text \<open>The phases of a close before \<open>onClose\<close> has run.\<close>

definition yet_to_unregister :: "close_phase \<Rightarrow> bool" where
  "yet_to_unregister p = (case p of CloseSocket _ \<Rightarrow> True | CallOnClose _ \<Rightarrow> True | _ \<Rightarrow> False)"

lemma yet_to_unregister_simps [simp]:
  "yet_to_unregister (CloseSocket r)" "yet_to_unregister (CallOnClose r)" "\<not> yet_to_unregister Idle"
  "\<not> yet_to_unregister (LogClose r)" "\<not> yet_to_unregister (CountClose r)" "\<not> yet_to_unregister (CountReason r)"
  by (simp_all add: yet_to_unregister_def)

definition attached_at :: "href \<Rightarrow> config \<Rightarrow> bool" where
  "attached_at hb s = (case s of (w, ph) \<Rightarrow>
     \<forall>u c. mget (h_clients (w_hubs w hb)) u = Some c \<longrightarrow>
       UserID (w_clients w c) = u \<and> c < w_next w \<and> c_onClose (w_clients w c) = Some hb \<and>
       (c_closed (w_clients w c) \<longrightarrow> yet_to_unregister (ph c)))"

lemma attached_atD:
  assumes "attached_at hb (w, ph)" and "mget (h_clients (w_hubs w hb)) u = Some c"
  shows "UserID (w_clients w c) = u" and "c < w_next w" and "c_onClose (w_clients w c) = Some hb"
    and "c_closed (w_clients w c) \<Longrightarrow> yet_to_unregister (ph c)"
  using assms by (auto simp: attached_at_def)

lemma attached_at_keep:
  assumes "attached_at hb (w, ph)" and "w_next w \<le> w_next w'"
    and "\<And>u c. mget (h_clients (w_hubs w' hb)) u = Some c \<Longrightarrow> mget (h_clients (w_hubs w hb)) u = Some c"
    and "\<And>u c. mget (h_clients (w_hubs w' hb)) u = Some c \<Longrightarrow> c < w_next w \<Longrightarrow>
           c_userID (w_clients w' c) = c_userID (w_clients w c) \<and> c_onClose (w_clients w' c) = c_onClose (w_clients w c) \<and>
           (c_closed (w_clients w' c) \<longrightarrow> (c_closed (w_clients w c) \<longrightarrow> yet_to_unregister (ph c)) \<longrightarrow> yet_to_unregister (ph' c))"
  shows "attached_at hb (w', ph')"
  unfolding attached_at_def prod.case
proof (intro allI impI)
  fix u c
  assume c: "mget (h_clients (w_hubs w' hb)) u = Some c"
  note old = attached_atD [OF assms(1) assms(3) [OF c]]
  with assms(2) assms(4) [OF c old(2)] show "UserID (w_clients w' c) = u \<and> c < w_next w' \<and>
      c_onClose (w_clients w' c) = Some hb \<and> (c_closed (w_clients w' c) \<longrightarrow> yet_to_unregister (ph' c))"
    by (auto simp: UserID_def)
qed

text \<open>A step of the process other than the pieces of a close.\<close>

lemma attached_at_other:
  assumes "pstep (owner hb) w w'" and "hubs_ok w" and "attached_at hb (w, ph)"
  shows "attached_at hb (w', ph)"
  using assms(1)
proof cases
  case (ws_close c r)
  have gone: "d \<noteq> c" if "mget (h_clients (w_hubs w' hb)) u = Some d" for u d
    using that attached_atD(1,3) [OF assms(3)] unfolding ws_close(1)
    by (auto simp: Close_sessions [OF assms(2) ws_close(2)] split: if_splits)
  show ?thesis
    using ws_close gone
    by (intro attached_at_keep [OF assms(3)])
      (auto simp: Close_sessions [OF assms(2) ws_close(2)] Close_clients split: if_splits)
next
  case (ws_hub op hb')
  have ok: "hub_ok (w_hubs w hb)" using assms(2) by (simp add: hubs_ok_def)
  show ?thesis
  proof (cases "hb' = hb")
    case True
    note h = hub_step_sessions [OF ok, of "w_clients w" op]
    show ?thesis
      using assms(3) ws_hub True unfolding attached_at_def owner_def
      by (auto simp: h split: hub_op.splits if_splits)
  qed (use assms(3) ws_hub in \<open>auto simp: attached_at_def\<close>)
next
  case (ws_client f c)
  then show ?thesis by (intro attached_at_keep [OF assms(3)]) (auto simp: quiet_clientD)
next
  case (ws_new cn opts)
  then show ?thesis by (intro attached_at_keep [OF assms(3)]) (auto simp: newClient_simps)
qed (rule attached_at_keep [OF assms(3)]; auto)+

lemma onClose_sessions:
  assumes "hubs_ok w"
  shows "mget (h_clients (w_hubs (run_onClose c w) hb)) u =
    (if c_onClose (w_clients w c) = Some hb \<and> u = UserID (w_clients w c) \<and> mget (h_clients (w_hubs w hb)) u = Some c
     then None else mget (h_clients (w_hubs w hb)) u)"
  using assms Unregister_effect(3) [of "w_hubs w hb" "w_clients w" c]
  by (auto simp: run_onClose_def hubs_ok_def split: option.splits)

lemma attached_at_step:
  assumes "pfstep (owner hb) s t" and "config_inv s" and "attached_at hb s"
  shows "attached_at hb t"
  using assms
proof (induction rule: pfstep.induct)
  case (fs_other w w' ph)
  then show ?case using attached_at_other config_invD(1) by blast
next
  case (fs_mark w c ph reason)
  then show ?case by (intro attached_at_keep [OF fs_mark(3)]) (auto simp: mark_def)
next
  case (fs_socket ph c reason w)
  then show ?case by (intro attached_at_keep [OF fs_socket(3)]) (auto simp: close_socket_def)
next
  case (fs_onClose ph c reason w)
  have "d \<noteq> c" if "mget (h_clients (w_hubs (run_onClose c w) hb)) u = Some d" for u d
    using that attached_atD(1,3) [OF fs_onClose(3)] config_invD(1) [OF fs_onClose(2)]
    by (auto simp: onClose_sessions split: if_splits)
  moreover have "mget (h_clients (w_hubs w hb)) u = Some d" if "mget (h_clients (w_hubs (run_onClose c w) hb)) u = Some d" for u d
    using that config_invD(1) [OF fs_onClose(2)] by (auto simp: onClose_sessions split: if_splits)
  moreover have "w_clients (run_onClose c w) = w_clients w" "w_next (run_onClose c w) = w_next w"
    by (auto simp: run_onClose_def split: option.split)
  ultimately show ?case by (intro attached_at_keep [OF fs_onClose(3)]) auto
next
  case (fs_log ph c reason w)
  then show ?case by (intro attached_at_keep [OF fs_log(3)]) (auto simp: log_close_def)
next
  case (fs_count ph c reason w)
  then show ?case by (intro attached_at_keep [OF fs_count(3)]) auto
next
  case (fs_reason ph c reason w)
  then show ?case by (intro attached_at_keep [OF fs_reason(3)]) auto
qed

interpretation registration: transition_inv "pfstep (owner hb)" "\<lambda>s. config_inv s \<and> attached_at hb s" for hb
  using attached_at_step interleaved.step_inv by unfold_locales blast

text \<open>
  C9: in every execution, the pieces of session closes interleaved with everything
  else, in which a hub is only given open sessions that unregister from it on close, as the session handler does,
  each registered session is registered under its own user, and it is open or in the middle of a close that has
  yet to unregister it. So there are never more registered users than open sessions and such closes, and once
  no close is under way every registered session is open.
\<close>

theorem registered_sessions_open:
  assumes "(pfstep (owner hb))\<^sup>*\<^sup>* (initial e (\<lambda>hb. NewHub (authorizer hb) (limit hb)) brokers, \<lambda>_. Idle) (w, ph)"
  shows "(\<forall>u c. Lookup u (w_hubs w hb) = Some c \<longrightarrow>
            UserID (w_clients w c) = u \<and> c_onClose (w_clients w c) = Some hb \<and>
            (\<not> c_closed (w_clients w c) \<or> yet_to_unregister (ph c))) \<and>
         Count (w_hubs w hb) \<le> int (card (open_sessions w)) + int (card {c. yet_to_unregister (ph c)}) \<and>
         ((\<forall>c. ph c = Idle) \<longrightarrow> (\<forall>u c. Lookup u (w_hubs w hb) = Some c \<longrightarrow> \<not> c_closed (w_clients w c)))"
proof -
  let ?i = "(initial e (\<lambda>hb. NewHub (authorizer hb) (limit hb)) brokers, \<lambda>_. Idle)"
  have "config_inv ?i" unfolding config_inv_idle by (rule world_ok_initial [OF hub_ok_new])
  moreover have "attached_at hb ?i" by (simp add: attached_at_def initial_def NewHub_def)
  ultimately have inv: "config_inv (w, ph)" and att: "attached_at hb (w, ph)"
    using registration.steps_inv [OF assms] by blast+
  note att = attached_atD [OF att]
  let ?m = "h_clients (w_hubs w hb)" and ?pending = "{c. yet_to_unregister (ph c)}"
  have flags: "c_closeOnce (w_clients w c) = c_closed (w_clients w c)" for c
    using config_invD(3) [OF inv, of c] by (simp add: flags_at_def)
  have m: "mwf ?m" using config_invD(1) [OF inv] by (simp add: hubs_ok_def hub_okD(1))
  have "inj_on (\<lambda>u. the (mget ?m u)) (set (mkeys ?m))"
  proof (rule inj_onI)
    fix u v
    assume "u \<in> set (mkeys ?m)" "v \<in> set (mkeys ?m)" and eq: "the (mget ?m u) = the (mget ?m v)"
    then obtain c where "mget ?m u = Some c" "mget ?m v = Some c" by (auto simp: set_mkeys)
    then show "u = v" using att(1) by blast
  qed
  then have "card (set (mkeys ?m)) = card ((\<lambda>u. the (mget ?m u)) ` set (mkeys ?m))" by (simp add: card_image)
  also have "(\<lambda>u. the (mget ?m u)) ` set (mkeys ?m) \<subseteq> open_sessions w \<union> ?pending"
  proof
    fix c
    assume "c \<in> (\<lambda>u. the (mget ?m u)) ` set (mkeys ?m)"
    then obtain u where "mget ?m u = Some c" by (auto simp: set_mkeys)
    then show "c \<in> open_sessions w \<union> ?pending" using att(4) by (auto simp: open_sessions_def flags)
  qed
  moreover have fin: "finite (open_sessions w)" using config_invD(6) [OF inv] by (simp add: gauge_at_def)
  moreover have "?pending \<subseteq> closing_sessions ph" by (auto simp: closing_sessions_def counted_def split: close_phase.splits)
  then have "finite ?pending" using config_invD(7) [OF inv] by (rule finite_subset)
  ultimately have "card (set (mkeys ?m)) \<le> card (open_sessions w \<union> ?pending)" by (simp add: card_mono)
  also have "\<dots> \<le> card (open_sessions w) + card ?pending" by (rule card_Un_le)
  finally have "Count (w_hubs w hb) \<le> int (card (open_sessions w)) + int (card ?pending)"
    using m distinct_card [of "mkeys ?m"] by (simp add: Count_def len_def mwf_def mkeys_def)
  moreover have "\<forall>u c. Lookup u (w_hubs w hb) = Some c \<longrightarrow> UserID (w_clients w c) = u \<and> c_onClose (w_clients w c) = Some hb \<and>
      (\<not> c_closed (w_clients w c) \<or> yet_to_unregister (ph c))"
    using att unfolding Lookup_def by blast
  ultimately show ?thesis by (simp add: Lookup_def) (metis yet_to_unregister_simps(3))
qed

text \<open>A session is registered and then marked closed: it is still registered, and its socket is still open.\<close>

theorem registered_sessions_open_witness:
  "let w = upd_client 0 mark (Register 0 0 (snd (newClient (Some new_socket) (sample_options ''conn_a'' ''bob'' 1) sample_start)))
   in Lookup ''bob'' (w_hubs w 0) = Some 0 \<and> c_closed (w_clients w 0) \<and> Count (w_hubs w 0) \<le> int (card (open_sessions w)) + 1"
proof -
  let ?born = "snd (newClient (Some new_socket) (sample_options ''conn_a'' ''bob'' 1) sample_start)"
  let ?reg = "Register 0 0 ?born"
  let ?w = "upd_client 0 mark ?reg" and ?ph = "(\<lambda>_. Idle)(0 := CloseSocket ''read_error'') :: cref \<Rightarrow> close_phase"
  have pol: "owner 0 ?born 0 0" unfolding owner_def by code_simp
  have "psteps (owner 0) sample_start ?reg"
    by (rule steps_Register [where pol = "owner 0", OF pol]) (rule steps_new [OF rtranclp.rtrancl_refl])
  then have "(pfstep (owner 0))\<^sup>*\<^sup>* (sample_start, \<lambda>_. Idle) (?reg, \<lambda>_. Idle)"
    by (induction rule: rtranclp_induct) (auto intro: rtranclp.rtrancl_into_rtrancl fs_other)
  moreover have o: "\<not> c_closeOnce (w_clients ?reg 0)" by code_simp
  then have "pfstep (owner 0) (?reg, \<lambda>_. Idle) (?w, ?ph)" using fs_mark [of ?reg 0 "owner 0" "\<lambda>_. Idle"] by simp
  ultimately have "(pfstep (owner 0))\<^sup>*\<^sup>* (sample_start, \<lambda>_. Idle) (?w, ?ph)" by (rule rtranclp.rtrancl_into_rtrancl)
  then have "(pfstep (owner 0))\<^sup>*\<^sup>* (initial sample_env (\<lambda>hb. NewHub ((\<lambda>_. AllowAllAuthorizer) hb) ((\<lambda>_. 5) hb))
      (\<lambda>b. Mem NewMemoryBroker), \<lambda>_. Idle) (?w, ?ph)"
    by (simp only: sample_start_def)
  note inv = registered_sessions_open [OF this]
  have "Lookup ''bob'' (w_hubs ?w 0) = Some 0" "c_closed (w_clients ?w 0)" by code_simp+
  moreover have "Count (w_hubs ?w 0) \<le> int (card (open_sessions ?w)) + int (card {c. yet_to_unregister (?ph c)})"
    using inv by blast
  moreover have "{c. yet_to_unregister (?ph c)} = {0}" by auto
  moreover have "Count (w_hubs ?w 0) = 1" by code_simp
  ultimately show ?thesis by (simp add: Let_def)
qed

end
