(* ===== verification/Requests.thy ===== *)
theory Requests
  imports Process Concurrency
begin

text \<open>
  Concurrent requests at the granularity of \<open>websocket.go\<close>: \<open>ServeHTTP\<close> as a program whose counter
  updates, reads of the readiness, acquisition of a slot, upgrade, draw of the identifier, log entries, session
  handler and deferred release are separate actions, interleaved with each other, with switches of the
  readiness and with every other goroutine of the process.
\<close>

subsection \<open>The handler as a program\<close>

text \<open>A program over the world as one over the whole boundary.\<close>

primrec lift :: "(world, 'a) prog \<Rightarrow> (boundary, 'a) prog" where
  "lift (Return x) = Return x"
| "lift (Act a) = Act (\<lambda>s. case map_prod lift id (a (bd_world s)) of (p, w) \<Rightarrow> (p, s\<lparr>bd_world := w\<rparr>))"

lemma lift_Act: "lift (Act a) = Act (\<lambda>s. (lift (fst (a (bd_world s))), s\<lparr>bd_world := snd (a (bd_world s))\<rparr>))"
  by (simp add: case_prod_beta)

lemma exec_lift [exec_simps]:
  "exec (lift p) s = (fst (exec p (bd_world s)), s\<lparr>bd_world := snd (exec p (bd_world s))\<rparr>)"
  by (induction p arbitrary: s) (simp_all add: lift_Act exec_Act del: lift.simps(2) exec.simps(2))

definition pReady :: "bool \<Rightarrow> (boundary, bool) prog" where
  "pReady isConnected =
     andThen (reading (\<lambda>s. he_ready (bd_health s))) (\<lambda>ready.
       if \<not> ready then Return False
       else
         andThen (reading (\<lambda>s. he_checker (bd_health s))) (\<lambda>checker.
           case checker of
             Some b \<Rightarrow> reading (\<lambda>s. broker_Ready isConnected (w_brokers (bd_world s) b))
           | None \<Rightarrow> Return True))"

definition pReject :: "Request \<Rightarrow> nat \<Rightarrow> bytes \<Rightarrow> (boundary, Response option) prog" where
  "pReject request status reason =
     andThen (modify (on_world (metric IncrementUpgradesRejected))) (\<lambda>_.
     andThen (modify (on_world (logged Info ''websocket_upgrade_rejected''
       [(''reason'', LStr reason), (''remote_address'', LStr (rq_RemoteAddr request)),
        (''origin'', LStr (Header_Get ''Origin'' request))]))) (\<lambda>_.
     Return (Some (writeStatus status reason))))"

definition acquire :: "boundary \<Rightarrow> bool \<times> boundary" where
  "acquire s =
     (case try_send () (bd_admission s) of
        (True, ch) \<Rightarrow> (True, s\<lparr>bd_admission := ch\<rparr>)
      | (False, _) \<Rightarrow> (False, s))"

text \<open>What runs while the request holds its slot; \<open>handle\<close> is the program of the session handler.\<close>

definition pUpgrade ::
    "gorilla \<Rightarrow> (socket \<Rightarrow> Session \<Rightarrow> unit routine) \<Rightarrow> webSocketHandler \<Rightarrow> Request \<Rightarrow> Principal \<Rightarrow> (boundary, unit) prog" where
  "pUpgrade g handle h request who =
     andThen (reading (\<lambda>_. Upgrade g (checkOrigin h) request)) (\<lambda>upgraded.
       case upgraded of
         None \<Rightarrow>
           andThen (modify (on_world (metric IncrementUpgradesRejected))) (\<lambda>_.
           modify (on_world (logged Info ''websocket_upgrade_rejected'' [(''reason'', LStr ''upgrade_failed''), (''error'', LErr)])))
       | Some connection \<Rightarrow>
           andThen (lift (atomic draw_rand)) (\<lambda>rand.
             case newConnectionID rand of
               None \<Rightarrow>
                 andThen (modify (on_world (metric IncrementUpgradesRejected))) (\<lambda>_.
                 modify (on_world (logged Error ''websocket_connection_id_failed'' [(''error'', LErr)])))
             | Some connectionID \<Rightarrow>
                 andThen (modify (on_world (logged Info ''websocket_upgrade_accepted''
                   [(''connection_id'', LStr connectionID), (''user_id'', LStr (pr_UserID who)),
                    (''remote_address'', LStr (rq_RemoteAddr request))]))) (\<lambda>_.
                 lift (handle connection \<lparr>se_ConnectionID = connectionID, se_UserID = pr_UserID who\<rparr>))))"

definition pServeHTTP ::
    "gorilla \<Rightarrow> bool \<Rightarrow> (socket \<Rightarrow> Session \<Rightarrow> unit routine) \<Rightarrow> webSocketHandler \<Rightarrow> Request \<Rightarrow> (boundary, Response option) prog" where
  "pServeHTTP g isConnected handle h request =
     andThen (modify (on_world (metric IncrementUpgradesAttempted))) (\<lambda>_.
     andThen (pReady isConnected) (\<lambda>ready.
       if \<not> ready then pReject request StatusServiceUnavailable ''not_ready''
       else if \<not> IsWebSocketUpgrade g request then pReject request StatusUpgradeRequired ''upgrade_required''
       else if \<not> checkOrigin h request then pReject request StatusForbidden ''origin_rejected''
       else
         (case wh_authenticator h request of
            Inl err \<Rightarrow> pReject request StatusUnauthorized ''authentication_rejected''
          | Inr who \<Rightarrow>
              andThen (atomic acquire) (\<lambda>acquired.
                if \<not> acquired then pReject request StatusServiceUnavailable ''connection_limit''
                else
                  andThen (pUpgrade g handle h request who) (\<lambda>_.
                  andThen (modify release) (\<lambda>_. Return None))))))"

text \<open>Run alone, the program computes \<open>ServeHTTP\<close>.\<close>

lemma exec_pReady: "exec (pReady isConnected) s = (Ready isConnected (bd_world s) (bd_health s), s)"
  by (simp add: pReady_def Ready_def exec_simps split: option.split)

lemma exec_pReject: "exec (pReject request status reason) s = (Some (fst (reject request status reason s)), snd (reject request status reason s))"
  by (simp add: pReject_def reject_def on_world_def exec_simps)

lemma exec_pUpgrade:
  "release (snd (exec (pUpgrade g handle h request who) s)) =
     (case upgrade g h request who s of
        (Accepted connection session, s1) \<Rightarrow> release (on_world (\<lambda>w. snd (exec (handle connection session) w)) s1)
      | (_, s1) \<Rightarrow> s1)"
  by (simp add: pUpgrade_def upgrade_def on_world_def exec_simps split: option.split prod.split)

lemma upgrade_not_refused: "fst (upgrade g h request who s) \<noteq> Refused r"
  by (auto simp: upgrade_def split: option.split prod.split)

lemma exec_pServeHTTP:
  "exec (pServeHTTP g isConnected handle h request) s =
     ServeHTTP g isConnected (\<lambda>connection session w. snd (exec (handle connection session) w)) h request s"
proof -
  have "exec (pServeHTTP g isConnected handle h request) s =
    (case ServeHTTP_admit g isConnected h request s of
       (Refused response, s1) \<Rightarrow> (Some response, s1)
     | (Accepted connection session, s1) \<Rightarrow> (None, release (on_world (\<lambda>w. snd (exec (handle connection session) w)) s1))
     | (_, s1) \<Rightarrow> (None, s1))"
    by (auto simp: pServeHTTP_def ServeHTTP_admit_def refused_def acquire_def try_send_def exec_simps exec_pReady
        exec_pReject exec_pUpgrade upgrade_not_refused Let_def case_prod_beta split: sum.split outcome.splits)
  then show ?thesis by (simp add: ServeHTTP_def)
qed

subsection \<open>Slots\<close>

definition slots :: "boundary \<Rightarrow> nat" where
  "slots s = length (ch_buf (bd_admission s))"

text \<open>A program that gives a slot back: let run to its end now, it leaves one slot fewer in use.\<close>

definition gives_back :: "(boundary, unit) prog \<Rightarrow> bool" where
  "gives_back p = (\<forall>s. 0 < slots s \<longrightarrow> slots (snd (exec p s)) + 1 = slots s)"

text \<open>A request whose session handler has been called and has not returned: what is left to do of it, then the deferred release.\<close>

definition in_handler :: "(boundary, unit) prog \<Rightarrow> bool" where
  "in_handler p = (\<exists>q :: unit routine. p = andThen (lift q) (\<lambda>_. modify release))"

text \<open>The ghost of a program says whether it holds a slot.\<close>

definition has_slot :: "bool \<Rightarrow> boundary \<Rightarrow> bool" where
  "has_slot g s = (g \<longrightarrow> 0 < slots s)"

definition moves :: "bool \<Rightarrow> boundary \<Rightarrow> bool \<Rightarrow> boundary \<Rightarrow> bool" where
  "moves g s g' s' =
     (ch_cap (bd_admission s') = ch_cap (bd_admission s) \<and> slots s' + of_bool g = slots s + of_bool g' \<and>
      (slots s \<le> ch_cap (bd_admission s) \<longrightarrow> slots s' \<le> ch_cap (bd_admission s)))"

definition slots_ok :: "nat \<Rightarrow> bool list \<Rightarrow> boundary \<Rightarrow> bool" where
  "slots_ok n gs s = (ch_cap (bd_admission s) = n \<and> slots s = length (filter id gs) \<and> slots s \<le> n)"

lemma moves_idle: "bd_admission s' = bd_admission s \<Longrightarrow> moves g s g s'"
  by (simp add: moves_def slots_def)

lemma moves_acquire: "moves False s (fst (acquire s)) (snd (acquire s))"
  by (auto simp: moves_def acquire_def slots_def try_send_def split: prod.splits)

lemma moves_release: "has_slot True s \<Longrightarrow> moves True s False (release s)"
  by (auto simp: moves_def has_slot_def slots_def)

lemma length_filter_update:
  "i < length gs \<Longrightarrow> length (filter id (gs[i := g])) + of_bool (gs ! i) = length (filter id gs) + of_bool g"
proof (induction gs arbitrary: i)
  case (Cons x gs)
  then show ?case
  proof (cases i)
    case (Suc j)
    with Cons.IH [of j] Cons.prems show ?thesis by simp
  qed simp
qed simp

interpretation slot_pool: pool_invariant has_slot moves False "slots_ok n" for n
proof unfold_locales
  show "has_slot (gs ! i) s" if "slots_ok n gs s" "i < length gs" for n gs s i
    unfolding has_slot_def
  proof
    assume "gs ! i"
    then have "filter id gs \<noteq> []" using nth_mem [OF that(2)] unfolding filter_empty_conv by auto
    then show "0 < slots s" using that(1) by (simp add: slots_ok_def)
  qed
  show "slots_ok n (gs[i := g']) s'" if "slots_ok n gs s" "i < length gs" "moves (gs ! i) s g' s'" for n gs s i g' s'
    using that length_filter_update [of i gs g'] by (auto simp: slots_ok_def moves_def)
qed (auto simp: moves_def has_slot_def slots_ok_def)

lemma rg_andThen_via:
  assumes "rg I G mid Q p g" and "\<And>x. Q x \<Longrightarrow> rg I G idle R (f x) mid"
  shows "rg I G idle R (andThen p f) g"
  using assms(1)
proof (induction p arbitrary: g)
  case (Act a)
  then show ?case by (fastforce simp: rg_Act simp del: rg.simps(2))
qed (auto simp: assms(2))

abbreviation slot_prog :: "bool \<Rightarrow> (boundary, 'a) prog \<Rightarrow> bool \<Rightarrow> bool" where
  "slot_prog g p g' \<equiv> rg has_slot moves g' (\<lambda>_. True) p g"

lemma slot_lift: "slot_prog g (lift p) g"
  by (induction p) (auto simp: lift_Act rg_Act moves_idle simp del: rg.simps(2) lift.simps(2) intro!: exI [of _ g])

lemma slot_then: "slot_prog g p mid \<Longrightarrow> (\<And>x. slot_prog mid (f x) g') \<Longrightarrow> slot_prog g (andThen p f) g'"
  by (rule rg_andThen_via) blast+

lemma slot_world: "slot_prog g (modify (on_world f)) g"
  by (rule rg_modify) (simp add: moves_idle on_world_def)

lemma slot_reading: "slot_prog g (reading f) g"
  by (rule rg_reading) (simp add: moves_idle)

lemma slot_pReady: "slot_prog g (pReady isConnected) g"
  unfolding pReady_def by (auto intro!: slot_then [OF slot_reading] slot_reading split: option.split)

lemma slot_pReject: "slot_prog g (pReject request status reason) g"
  unfolding pReject_def by (intro slot_then [OF slot_world]) simp

lemma slot_pUpgrade: "slot_prog g (pUpgrade g' handle h request who) g"
  unfolding pUpgrade_def
  by (auto intro!: slot_then [OF slot_reading] slot_then [OF slot_lift] slot_then [OF slot_world] slot_world slot_lift
      split: option.split)

lemma slot_pServeHTTP: "slot_prog False (pServeHTTP g isConnected handle h request) False"
proof -
  have "slot_prog True (andThen (pUpgrade g handle h request who) (\<lambda>_. andThen (modify release) (\<lambda>_. Return (None :: Response option)))) False" for who
    by (rule slot_then [OF slot_pUpgrade], rule rg_modify_then) (auto intro: moves_release)
  then have "slot_prog False (andThen (atomic acquire) (\<lambda>acquired.
      if \<not> acquired then pReject request StatusServiceUnavailable ''connection_limit''
      else andThen (pUpgrade g handle h request who) (\<lambda>_. andThen (modify release) (\<lambda>_. Return None)))) False" for who
  proof (intro rg_atomic_then exI conjI)
    show "moves False s (fst (acquire s)) (snd (acquire s))" for s by (rule moves_acquire)
  qed (simp add: slot_pReject)
  then show ?thesis
    unfolding pServeHTTP_def
    by (intro slot_then [OF slot_world] slot_then [OF slot_pReady]) (auto simp: slot_pReject split: sum.split)
qed

subsection \<open>A pool of requests\<close>

text \<open>
  The goroutines of the process around the handler: requests, with any library, answer of the broker's
  connection and session handler; readiness probes; switches of the readiness; and any other program over the world.
\<close>

inductive boundary_code :: "webSocketHandler \<Rightarrow> (boundary, unit) prog \<Rightarrow> bool" for h where
  bc_request: "boundary_code h (andThen (pServeHTTP g isConnected handle h request) (\<lambda>_. Return ()))"
| bc_readyz: "boundary_code h (andThen (pReady isConnected) (\<lambda>_. Return ()))"
| bc_ready: "boundary_code h (modify (set_ready b))"
| bc_world: "boundary_code h (lift p)"

lemma slot_set_ready: "slot_prog g (modify (set_ready b)) g"
  by (rule rg_modify) (simp add: moves_idle set_ready_def)

lemma slot_boundary_code: "boundary_code h p \<Longrightarrow> slot_prog False p False"
  by (induction rule: boundary_code.induct)
     (auto intro: slot_then slot_pServeHTTP slot_pReady slot_lift slot_set_ready)

lemma slot_prog_runs:
  assumes "slot_prog g p False" and "has_slot g s"
  shows "slots (snd (exec p s)) + of_bool g = slots s"
proof -
  let ?Inv = "\<lambda>g' t. slots t + of_bool g = slots s + of_bool g'"
  have "has_slot g' t" if "?Inv g' t" for g' t
    using that assms(2) by (cases g) (auto simp: has_slot_def)
  then have "?Inv False (snd (exec p s)) \<and> True"
    by (intro rg_exec [OF assms(1), of ?Inv]) (auto simp: moves_def)
  then show ?thesis by simp
qed

definition one_taken :: boundary where
  "one_taken = undefined\<lparr>bd_admission := \<lparr>ch_buf = [()], ch_cap = 1\<rparr>\<rparr>"

lemma slots_one_taken [simp]: "slots one_taken = 1"
  by (simp add: one_taken_def slots_def)

lemma slot_prog_gives_back: "slot_prog g p False \<Longrightarrow> gives_back p = g"
  using slot_prog_runs [of p g] slots_one_taken unfolding gives_back_def has_slot_def
  by (cases g) (simp, metis add_cancel_right_right not_one_le_zero less_numeral_extra(1) of_bool_eq(1) one_neq_zero)

lemma unfinished_gives_back: "gives_back p \<Longrightarrow> \<not> finished p"
  using slots_one_taken by (cases p) (auto simp: gives_back_def)

lemma in_handler_gives_back: "in_handler p \<Longrightarrow> gives_back p"
  by (auto simp: in_handler_def gives_back_def exec_simps slots_def)


text \<open>An accepted request gets as far as its session handler, a refused one to its end.\<close>

lemma pool_first:
  assumes "exec p s = (x, s1)" and "pool_steps A (ps @ [f x], s1) z"
  shows "pool_steps A (ps @ [andThen p f], s) z"
proof -
  have "pool_steps A (ps @ [andThen p f], s) ((ps @ [andThen p f])[length ps := f x], s1)"
    by (rule pool_andThen [OF _ _ assms(1)]) simp_all
  with assms(2) show ?thesis by simp
qed

lemma serve_accepts:
  assumes "ServeHTTP_admit g isConnected h request s = (Accepted connection session, s')"
  shows "pool_steps A (ps @ [andThen (pServeHTTP g isConnected handle h request) (\<lambda>_. Return ())], s)
           (ps @ [andThen (lift (handle connection session)) (\<lambda>_. modify release)], s')"
proof -
  let ?s1 = "on_world (metric IncrementUpgradesAttempted) s"
  from assms obtain who s2 where ready: "Ready isConnected (bd_world ?s1) (bd_health ?s1)"
    and asked: "IsWebSocketUpgrade g request" and origin: "checkOrigin h request" and who: "wh_authenticator h request = Inr who"
    and s2: "acquire ?s1 = (True, s2)" and up: "upgrade g h request who s2 = (Accepted connection session, s')"
    by (auto simp: ServeHTTP_admit_def refused_def acquire_def Let_def split: if_splits sum.splits prod.splits bool.splits)
  from up obtain rand w1 connectionID where conn: "Upgrade g (checkOrigin h) request = Some connection"
    and rand: "draw_rand (bd_world s2) = (rand, w1)" "newConnectionID rand = Some connectionID"
    and session: "session = \<lparr>se_ConnectionID = connectionID, se_UserID = pr_UserID who\<rparr>"
    and s': "s' = on_world (logged Info ''websocket_upgrade_accepted''
        [(''connection_id'', LStr connectionID), (''user_id'', LStr (pr_UserID who)),
         (''remote_address'', LStr (rq_RemoteAddr request))]) (s2\<lparr>bd_world := w1\<rparr>)"
    by (auto simp: upgrade_def on_world_def split: option.splits prod.splits)
  have rest: "andThen (andThen (modify release) (\<lambda>_. Return None)) (\<lambda>_. Return ()) = modify release"
    by (simp add: modify_def atomic_def)
  have lib: "exec (reading (\<lambda>_. Upgrade g (checkOrigin h) request)) s2 = (Some connection, s2)"
    and drawn: "exec (lift (atomic draw_rand)) s2 = (rand, s2\<lparr>bd_world := w1\<rparr>)"
    by (simp_all add: exec_simps conn rand)
  have "pool_steps A (ps @ [andThen (andThen (pUpgrade g handle h request who)
      (\<lambda>_. andThen (modify release) (\<lambda>_. Return None))) (\<lambda>_. Return ())], s2)
     (ps @ [andThen (lift (handle connection session)) (\<lambda>_. modify release)], s')"
    unfolding pUpgrade_def andThen_assoc
    by (rule pool_first [OF lib], simp only: option.case andThen_assoc, rule pool_first [OF drawn],
        simp only: rand option.case andThen_assoc, rule pool_first [OF exec_modify])
       (simp add: rest [unfolded andThen_assoc] session s' andThen_Return)
  moreover have is_ready: "exec (pReady isConnected) ?s1 = (True, ?s1)" and slot: "exec (atomic acquire) ?s1 = (True, s2)"
    by (simp_all add: exec_atomic exec_pReady ready s2 del: on_world_simps Ready_metric)
  ultimately show ?thesis
    unfolding pServeHTTP_def andThen_assoc
    by (intro pool_first [OF exec_modify], simp only: andThen_assoc, intro pool_first [OF is_ready],
        simp only: asked origin who andThen_assoc sum.case if_True if_False not_True_eq_False, intro pool_first [OF slot])
       (simp only: if_True if_False not_True_eq_False andThen_assoc)
qed

lemma serve_refuses:
  assumes "ServeHTTP_admit g isConnected h request s = (Refused response, s')"
  shows "pool_steps A (ps @ [andThen (pServeHTTP g isConnected handle h request) (\<lambda>_. Return ())], s) (ps @ [Return ()], s')"
  by (rule pool_first [OF _ rtranclp.rtrancl_refl]) (simp add: exec_pServeHTTP ServeHTTP_def assms)

text \<open>
  Two requests with one slot configured: the first is inside its session handler, which has opened a session
  and has its read loop to run, when the second arrives and is refused.
\<close>

definition sample_handle :: "socket \<Rightarrow> Session \<Rightarrow> unit routine" where
  "sample_handle connection session =
     andThen (pHandle (sample_config ''test'') 0 [] connection session) (\<lambda>_. Return ())"


end
