(* ===== verification/QueueDepth.thy ===== *)
theory QueueDepth
  imports Metrics
begin

text \<open>
  The compare-and-swap loop of \<open>UpdateMaxQueueDepth\<close> in any number of goroutines at once. Each goroutine is at
  its \<open>Load\<close>, or about to compare and swap the value it has loaded, or has left the loop; a schedule
  says whose action is next.
\<close>

subsection \<open>The loops\<close>

datatype updater = AtLoad int64 | AtSwap int64 int64 | Ended int64

text \<open>One action of a goroutine on the shared maximum: the load with the comparison after it, or the swap.\<close>

fun update_action :: "int64 \<Rightarrow> updater \<Rightarrow> int64 \<times> updater" where
  "update_action shared (AtLoad depth) = (shared, if sint depth \<le> sint shared then Ended depth else AtSwap depth shared)"
| "update_action shared (AtSwap depth current) =
     (if shared = current then (depth, Ended depth) else (shared, AtLoad depth))"
| "update_action shared (Ended depth) = (shared, Ended depth)"

fun update_turn :: "nat \<Rightarrow> int64 \<times> updater list \<Rightarrow> int64 \<times> updater list" where
  "update_turn i (shared, us) =
     (if i < length us then (case update_action shared (us ! i) of (shared', u) \<Rightarrow> (shared', us[i := u]))
      else (shared, us))"

fun depth_of :: "updater \<Rightarrow> int64" where
  "depth_of (AtLoad d) = d"
| "depth_of (AtSwap d _) = d"
| "depth_of (Ended d) = d"

fun has_ended :: "updater \<Rightarrow> bool" where
  "has_ended (Ended _) = True"
| "has_ended _ = False"

abbreviation run_updates :: "nat list \<Rightarrow> int64 \<times> updater list \<Rightarrow> int64 \<times> updater list" where
  "run_updates \<equiv> fold update_turn"

subsection \<open>The maximum\<close>

text \<open>The maximum is what the loops that have ended would leave behind one after the other.\<close>

definition ended_depths :: "updater list \<Rightarrow> int64 list" where
  "ended_depths us = map depth_of (filter has_ended us)"

definition greatest :: "int64 \<Rightarrow> int64 list \<Rightarrow> int64 \<Rightarrow> bool" where
  "greatest v ds m = (m \<in> insert v (set ds) \<and> (\<forall>d \<in> insert v (set ds). sint d \<le> sint m))"

definition loaded_below :: "int64 \<Rightarrow> updater \<Rightarrow> bool" where
  "loaded_below m u = (case u of AtSwap d c \<Rightarrow> sint c < sint d \<and> sint c \<le> sint m | _ \<Rightarrow> True)"

definition updates_ok :: "int64 \<Rightarrow> int64 list \<Rightarrow> int64 \<times> updater list \<Rightarrow> bool" where
  "updates_ok v ds st = (case st of (m, us) \<Rightarrow>
     map depth_of us = ds \<and> greatest v (ended_depths us) m \<and> list_all (loaded_below m) us)"

lemma set_ended_depths: "set (ended_depths us) = depth_of ` (set us \<inter> Collect has_ended)"
  by (auto simp: ended_depths_def)

lemma set_ended_update:
  assumes "i < length us" and "\<not> has_ended (us ! i)" and "depth_of u = depth_of (us ! i)"
  shows "set (ended_depths (us[i := u])) =
    (if has_ended u then insert (depth_of (us ! i)) (set (ended_depths us)) else set (ended_depths us))"
proof -
  have "set (us[i := u]) = insert u (set (take i us) \<union> set (drop (Suc i) us))"
    using assms(1) by (simp add: upd_conv_take_nth_drop)
  moreover have "set us = insert (us ! i) (set (take i us) \<union> set (drop (Suc i) us))"
    using arg_cong [OF id_take_nth_drop [OF assms(1)], of set] by simp
  ultimately show ?thesis using assms(2,3) by (simp add: set_ended_depths Int_insert_left)
qed

lemma greatest_cong: "set ds = set ds' \<Longrightarrow> greatest v ds m = greatest v ds' m"
  by (simp add: greatest_def)

lemma depths_update: "i < length us \<Longrightarrow> depth_of u = depth_of (us ! i) \<Longrightarrow> map depth_of (us[i := u]) = map depth_of us"
  by (simp add: map_update list_update_same_conv)

lemma updates_ok_turn:
  assumes "updates_ok v ds st"
  shows "updates_ok v ds (update_turn i st)"
proof -
  obtain m us where st: "st = (m, us)" by (cases st)
  have ok: "map depth_of us = ds" "greatest v (ended_depths us) m" "list_all (loaded_below m) us"
    using assms by (simp_all add: updates_ok_def st)
  show ?thesis
  proof (cases "i < length us")
    case i: True
    have all: "list_all (loaded_below m') (us[i := u])" if "sint m \<le> sint m'" "loaded_below m' u" for m' u
      using ok(3) that by (auto simp: list_all_iff loaded_below_def dest!: set_update_subset_insert [THEN subsetD] split: updater.splits)
    show ?thesis
    proof (cases "us ! i")
      case (AtLoad d)
      define u where "u = (if sint d \<le> sint m then Ended d else AtSwap d m)"
      have turn: "update_turn i st = (m, us[i := u])" using i AtLoad by (simp add: st u_def)
      have "set (ended_depths (us[i := u])) = (if sint d \<le> sint m then insert d (set (ended_depths us)) else set (ended_depths us))"
        using set_ended_update [OF i, of u] AtLoad by (simp add: u_def)
      then have "greatest v (ended_depths (us[i := u])) m" using ok(2) by (auto simp: greatest_def)
      moreover have "list_all (loaded_below m) (us[i := u])" by (rule all) (auto simp: u_def loaded_below_def)
      moreover have "map depth_of (us[i := u]) = ds" using depths_update [OF i, of u] AtLoad ok(1) by (simp add: u_def)
      ultimately show ?thesis by (simp add: turn updates_ok_def)
    next
      case (AtSwap d c)
      have c: "sint c < sint d" "sint c \<le> sint m" using ok(3) i AtSwap by (auto simp: list_all_length loaded_below_def)
      show ?thesis
      proof (cases "m = c")
        case True
        have turn: "update_turn i st = (d, us[i := Ended d])" using i AtSwap True by (simp add: st)
        have "set (ended_depths (us[i := Ended d])) = insert d (set (ended_depths us))"
          using set_ended_update [OF i, of "Ended d"] AtSwap by simp
        then have "greatest v (ended_depths (us[i := Ended d])) d"
          using ok(2) c True by (auto simp: greatest_def intro: order_trans less_imp_le)
        moreover have "list_all (loaded_below d) (us[i := Ended d])" using c True by (intro all) (auto simp: loaded_below_def)
        moreover have "map depth_of (us[i := Ended d]) = ds" using depths_update [OF i, of "Ended d"] AtSwap ok(1) by simp
        ultimately show ?thesis by (simp add: turn updates_ok_def)
      next
        case False
        have turn: "update_turn i st = (m, us[i := AtLoad d])" using i AtSwap False by (simp add: st)
        have "greatest v (ended_depths (us[i := AtLoad d])) m"
          using ok(2) set_ended_update [OF i, of "AtLoad d"] AtSwap by (simp add: greatest_def)
        moreover have "list_all (loaded_below m) (us[i := AtLoad d])" by (intro all) (auto simp: loaded_below_def)
        moreover have "map depth_of (us[i := AtLoad d]) = ds" using depths_update [OF i, of "AtLoad d"] AtSwap ok(1) by simp
        ultimately show ?thesis by (simp add: turn updates_ok_def)
      qed
    next
      case (Ended d)
      then have "update_turn i st = st" using i list_update_id [of us i] by (simp add: st)
      with assms show ?thesis by simp
    qed
  qed (use assms in \<open>simp add: st\<close>)
qed

lemma updates_ok_run: "updates_ok v ds st \<Longrightarrow> updates_ok v ds (run_updates is st)"
  by (induction "is" arbitrary: st) (simp_all add: updates_ok_turn)

lemma updates_ok_start: "updates_ok v ds (v, map AtLoad ds)"
proof -
  have "ended_depths (map AtLoad ds) = []" by (simp add: ended_depths_def filter_False)
  then show ?thesis by (simp add: updates_ok_def greatest_def list_all_iff loaded_below_def o_def)
qed

text \<open>Atomic updates one after the other leave the greatest value as well, and there is only one.\<close>

lemma greatest_unique: "greatest v ds m \<Longrightarrow> greatest v ds m' \<Longrightarrow> m = m'"
  by (metis greatest_def order_antisym signed_word_eqI)

lemma greatest_atomic: "greatest (MaxQueueDepth m) ds (MaxQueueDepth (fold UpdateMaxQueueDepth ds m))"
proof (induction ds arbitrary: m)
  case (Cons d ds)
  show ?case using Cons.IH [of "UpdateMaxQueueDepth d m"] by (auto simp: greatest_def split: if_splits)
qed (simp add: greatest_def)

subsection \<open>Termination\<close>

text \<open>
  A failed swap means that another loop has ended since the load. The measure charges the end of a loop for the
  rounds it costs the others.
\<close>

definition weight :: "int64 \<Rightarrow> updater \<Rightarrow> nat" where
  "weight m u = (case u of Ended _ \<Rightarrow> 0 | AtLoad _ \<Rightarrow> 2 | AtSwap _ c \<Rightarrow> if c = m then 1 else 3)"

definition running :: "updater list \<Rightarrow> nat" where
  "running us = length (filter (\<lambda>u. \<not> has_ended u) us)"

definition effort :: "int64 \<times> updater list \<Rightarrow> nat" where
  "effort st = (case st of (m, us) \<Rightarrow> sum_list (map (weight m) us) + 2 * length us * running us)"

lemma sum_list_update_nat:
  "i < length xs \<Longrightarrow> sum_list (xs[i := (x :: nat)]) + xs ! i = sum_list xs + x"
proof (induction xs arbitrary: i)
  case (Cons y ys)
  then show ?case by (cases i) (auto simp: add_ac dest!: Cons.IH)
qed simp

lemma weights_update:
  "i < length us \<Longrightarrow> sum_list (map (weight m) (us[i := u])) + weight m (us ! i) = sum_list (map (weight m) us) + weight m u"
  using sum_list_update_nat [of i "map (weight m) us" "weight m u"] by (simp add: map_update)

lemma running_update:
  "i < length us \<Longrightarrow> \<not> has_ended (us ! i) \<Longrightarrow> running (us[i := u]) = (if has_ended u then running us - 1 else running us)"
  "i < length us \<Longrightarrow> \<not> has_ended (us ! i) \<Longrightarrow> 0 < running us"
proof -
  assume i: "i < length us" "\<not> has_ended (us ! i)"
  have us: "us = take i us @ us ! i # drop (Suc i) us" using i(1) by (rule id_take_nth_drop)
  have "running us = running (take i us) + Suc (running (drop (Suc i) us))"
    using i(2) by (subst us) (simp add: running_def)
  moreover have "running (us[i := u]) = running (take i us) + (if has_ended u then 0 else 1) + running (drop (Suc i) us)"
    using i(1) by (simp add: upd_conv_take_nth_drop running_def)
  ultimately show "running (us[i := u]) = (if has_ended u then running us - 1 else running us)" "0 < running us"
    by auto
qed

lemma weights_swap: "sum_list (map (weight m') us) \<le> sum_list (map (weight m) us) + 2 * running us"
  by (induction us) (auto simp: weight_def running_def split: updater.split)

lemma running_le: "running us \<le> length us"
  by (simp add: running_def)

lemma effort_turn:
  assumes "i < length us" and "\<not> has_ended (us ! i)"
  shows "effort (update_turn i (m, us)) < effort (m, us)"
proof (cases "us ! i")
  case (AtLoad d)
  define u where "u = (if sint d \<le> sint m then Ended d else AtSwap d m)"
  have "weight m u < weight m (us ! i)" by (simp add: AtLoad weight_def u_def)
  moreover have "running (us[i := u]) \<le> running us" using running_update(1) [OF assms] by simp
  then have "2 * length us * running (us[i := u]) \<le> 2 * length us * running us" by (rule mult_le_mono2)
  moreover note weights_update [OF assms(1), of m u]
  ultimately have "effort (m, us[i := u]) < effort (m, us)"
    unfolding effort_def prod.case length_list_update by linarith
  then show ?thesis using assms(1) AtLoad by (simp add: u_def)
next
  case (AtSwap d c)
  show ?thesis
  proof (cases "m = c")
    case True
    let ?us = "us[i := Ended d]"
    have r: "running ?us = running us - 1" "0 < running us" using running_update(1) [OF assms, of "Ended d"] running_update(2) [OF assms] by simp_all
    have "sum_list (map (weight d) ?us) \<le> sum_list (map (weight m) ?us) + 2 * running ?us" by (rule weights_swap)
    moreover have "sum_list (map (weight m) ?us) < sum_list (map (weight m) us)"
      using weights_update [OF assms(1), of m "Ended d"] AtSwap True by (simp add: weight_def)
    moreover have "2 * running ?us + 2 * length us * running ?us \<le> 2 * length us * running us"
    proof -
      have "running ?us \<le> length us" using running_le [of ?us] by simp
      moreover have "running us = Suc (running ?us)" using r by simp
      ultimately show ?thesis by (simp add: algebra_simps)
    qed
    ultimately have "effort (d, ?us) < effort (m, us)" by (simp add: effort_def)
    then show ?thesis using assms(1) AtSwap True by simp
  next
    case False
    have "running (us[i := AtLoad d]) = running us" using running_update(1) [OF assms] by simp
    then show ?thesis
      using weights_update [OF assms(1), of m "AtLoad d"] assms(1) AtSwap False by (simp add: effort_def weight_def)
  qed
qed (use assms(2) in simp)

text \<open>A schedule in which every action belongs to a goroutine that is still in its loop.\<close>

fun no_idle_turns :: "nat list \<Rightarrow> int64 \<times> updater list \<Rightarrow> bool" where
  "no_idle_turns [] st = True"
| "no_idle_turns (i # is) st = (i < length (snd st) \<and> \<not> has_ended (snd st ! i) \<and> no_idle_turns is (update_turn i st))"

lemma effort_schedule: "no_idle_turns is st \<Longrightarrow> length is + effort (run_updates is st) \<le> effort st"
proof (induction "is" arbitrary: st)
  case (Cons i "is")
  then have "effort (update_turn i st) < effort st" using effort_turn [of i "snd st" "fst st"] by simp
  with Cons.IH [of "update_turn i st"] Cons.prems show ?case by simp
qed simp

lemma effort_start: "effort (v, map AtLoad ds) = 2 * length ds + 2 * length ds * length ds"
  by (simp add: effort_def weight_def running_def o_def sum_list_triv)

text \<open>
  C37: any number of goroutines report depths at the same time, each in its own
  compare-and-swap loop, under any schedule. At every moment the shared maximum is what the loops that have ended
  would leave as atomic updates one after the other, so no report is lost and the maximum never
  falls; and the loops end: together they make at most 2n(n + 1) actions before all n have left.
\<close>

theorem UpdateMaxQueueDepth_linearizes:
  assumes "run_updates is (MaxQueueDepth m, map AtLoad ds) = (shared, us)"
  shows "map depth_of us = ds \<and>
    shared = MaxQueueDepth (fold UpdateMaxQueueDepth (ended_depths us) m) \<and>
    sint (MaxQueueDepth m) \<le> sint shared \<and>
    (list_all has_ended us \<longrightarrow> shared = MaxQueueDepth (fold UpdateMaxQueueDepth ds m)) \<and>
    (no_idle_turns is (MaxQueueDepth m, map AtLoad ds) \<longrightarrow> length is \<le> 2 * length ds * (length ds + 1))"
proof -
  have ok: "map depth_of us = ds" "greatest (MaxQueueDepth m) (ended_depths us) shared"
    using updates_ok_run [OF updates_ok_start, of "MaxQueueDepth m" ds "is"] assms by (simp_all add: updates_ok_def)
  have shared: "shared = MaxQueueDepth (fold UpdateMaxQueueDepth (ended_depths us) m)"
    by (rule greatest_unique [OF ok(2) greatest_atomic])
  moreover have "sint (MaxQueueDepth m) \<le> sint shared" using ok(2) by (simp add: greatest_def)
  moreover have "ended_depths us = ds" if "list_all has_ended us"
    using that ok(1) by (simp add: ended_depths_def list_all_iff filter_True)
  moreover have "length is \<le> 2 * length ds * (length ds + 1)" if "no_idle_turns is (MaxQueueDepth m, map AtLoad ds)"
    using effort_schedule [OF that] by (simp add: effort_start algebra_simps)
  ultimately show ?thesis using ok(1) by simp
qed

text \<open>
  Two goroutines load the same maximum; the higher depth is stored first, and the swap of the lower one
  fails.
\<close>

theorem UpdateMaxQueueDepth_linearizes_witness:
  "run_updates [0, 1, 1, 0, 0] (MaxQueueDepth DefaultMetrics, map AtLoad [5, 7]) = (7, [Ended 5, Ended 7]) \<and>
   MaxQueueDepth (fold UpdateMaxQueueDepth [5, 7] DefaultMetrics) = 7"
proof -
  have run: "run_updates [0, 1, 1, 0, 0] (MaxQueueDepth DefaultMetrics, map AtLoad [5, 7]) = (7, [Ended 5, Ended 7])"
    by code_simp
  from UpdateMaxQueueDepth_linearizes [OF run] run show ?thesis by simp
qed

end
