(* ===== verification/GoFormat.thy ===== *)
theory GoFormat
  imports GoUrl GoDuration Float64 GoJsonCodec "HOL-Library.Char_ord" "HOL-Library.List_Lexorder"
begin

text \<open>
  What the load generator uses of Go's library to produce text: the verbs \<open>%d\<close> and \<open>%.2f\<close>,
  \<open>Duration.String\<close>, \<open>url.Values\<close> with \<open>Set\<close> and \<open>Encode\<close>, and \<open>json.Marshal\<close> of a \<open>map[string]any\<close>, whose
  keys come out sorted. Byte strings are ordered by the library's lexicographic order.
\<close>

subsection \<open>Numbers and durations\<close>

definition format_d :: "int \<Rightarrow> bytes" where
  "format_d n = (if n < 0 then CHR ''-'' # decimal (nat (- n)) else decimal (nat n))"

text \<open>\<open>%.2f\<close>: the exact value of the float to two places, ties to the even digit.\<close>

definition hundredths :: "real \<Rightarrow> int" where
  "hundredths x = rne (100 * \<bar>x\<bar>)"

definition format_f2 :: "real \<Rightarrow> bytes" where
  "format_f2 x =
     (let h = nat (hundredths x) in
      (if x < 0 then ''-'' else []) @ decimal (h div 100) @ ''.'' @ decimal (h mod 100 div 10) @ decimal (h mod 10))"

lemma hundredths_mono: "0 \<le> x \<Longrightarrow> x \<le> y \<Longrightarrow> hundredths x \<le> hundredths y"
  by (simp add: hundredths_def rne_mono)

text \<open>The last \<open>prec\<close> digits of \<open>v\<close> as a fraction, without trailing zeros.\<close>

fun frac_digits :: "nat \<Rightarrow> nat \<Rightarrow> bytes" where
  "frac_digits 0 v = []"
| "frac_digits (Suc prec) v = frac_digits prec (v div 10) @ [byte (48 + v mod 10)]"

definition frac_text :: "nat \<Rightarrow> nat \<Rightarrow> bytes" where
  "frac_text prec v =
     (let ds = rev (dropWhile (\<lambda>c. c = CHR ''0'') (rev (frac_digits prec v)))
      in if ds = [] then [] else CHR ''.'' # ds)"

definition Duration_String :: "int \<Rightarrow> bytes" where
  "Duration_String d =
     (let u = nat \<bar>d\<bar>; secs = u div 10 ^ 9; mins = secs div 60 in
      (if d < 0 then ''-'' else []) @
      (if u = 0 then ''0s''
       else if u < 10 ^ 3 then decimal u @ ''ns''
       else if u < 10 ^ 6 then decimal (u div 10 ^ 3) @ frac_text 3 u @ [byte 194, byte 181, CHR ''s'']
       else if u < 10 ^ 9 then decimal (u div 10 ^ 6) @ frac_text 6 u @ ''ms''
       else
         (if mins = 0 then [] else (if mins div 60 = 0 then [] else decimal (mins div 60) @ ''h'') @ decimal (mins mod 60) @ ''m'') @
         decimal (secs mod 60) @ frac_text 9 u @ ''s''))"

subsection \<open>Query strings\<close>

definition unreserved :: "char \<Rightarrow> bool" where
  "unreserved c = (is_letter c \<or> is_digit c \<or> c \<in> set ''-_.~'')"

definition upperhex :: "nat \<Rightarrow> char" where
  "upperhex n = byte (if n < 10 then 48 + n else 55 + n)"

definition escape_byte :: "char \<Rightarrow> bytes" where
  "escape_byte c =
     (if c = CHR '' '' then ''+''
      else if unreserved c then [c]
      else [CHR ''%'', upperhex (code c div 16), upperhex (code c mod 16)])"

definition QueryEscape :: "bytes \<Rightarrow> bytes" where
  "QueryEscape s = concat (map escape_byte s)"

type_synonym Values = "(bytes, bytes list) gomap"

definition Values_list :: "Values \<Rightarrow> bytes \<Rightarrow> bytes list" where
  "Values_list m k = (case mget m k of None \<Rightarrow> [] | Some vs \<Rightarrow> vs)"

definition Values_Set :: "bytes \<Rightarrow> bytes \<Rightarrow> Values \<Rightarrow> Values" where
  "Values_Set k v m = mset_key k [v] m"

definition URL_Query :: "URL \<Rightarrow> Values" where
  "URL_Query u = fold (\<lambda>(k, v) m. mset_key k (Values_list m k @ [v]) m) (ParseQuery (u_RawQuery u)) []"

fun ampersands :: "bytes list \<Rightarrow> bytes" where
  "ampersands [] = []"
| "ampersands [x] = x"
| "ampersands (x # y # xs) = x @ CHR ''&'' # ampersands (y # xs)"

definition Values_pairs :: "Values \<Rightarrow> (bytes \<times> bytes) list" where
  "Values_pairs m = concat (map (\<lambda>k. map (Pair k) (Values_list m k)) (sort (mkeys m)))"

definition Values_Encode :: "Values \<Rightarrow> bytes" where
  "Values_Encode m = ampersands (map (\<lambda>(k, v). QueryEscape k @ ''='' @ QueryEscape v) (Values_pairs m))"

subsection \<open>Objects with sorted keys\<close>

definition marshal_map :: "(bytes, json) gomap \<Rightarrow> json" where
  "marshal_map m = JObj (map (\<lambda>(k, v). (quote_body k, v)) (sort_key fst m))"

subsection \<open>Decoding what was escaped\<close>

lemma upperhex_table: "list_all (\<lambda>n. hexval (upperhex n) = Some n \<and> upperhex n \<notin> set ''&;='') [0..<16]"
  by code_simp

lemma upperhex_digit:
  assumes "n < 16"
  shows "hexval (upperhex n) = Some n" and "upperhex n \<noteq> CHR ''&''" and "upperhex n \<noteq> CHR '';''" and "upperhex n \<noteq> CHR ''=''"
  using upperhex_table assms by (simp_all add: list_all_iff)

lemma nibbles: "code c div 16 < 16" "code c mod 16 < 16" for c :: char
proof -
  have "code c < 256" by (rule nat_of_char_less_256)
  then show "code c div 16 < 16" "code c mod 16 < 16" by linarith+
qed

lemma unescape_escape_byte: "unescape encodeQueryComponent (escape_byte c @ s) = map_option (Cons c) (unescape encodeQueryComponent s)"
proof -
  have "byte (16 * (code c div 16) + code c mod 16) = c" by simp
  moreover have "c \<noteq> CHR ''%'' \<and> c \<noteq> CHR ''+''" if "unreserved c"
    using that by (auto simp: unreserved_def is_letter_def is_digit_def)
  ultimately show ?thesis
    using upperhex_digit(1) [OF nibbles(1), of c] upperhex_digit(1) [OF nibbles(2), of c]
    by (auto simp: escape_byte_def escape_ok_def plain_ok_def)
qed

lemma unescape_QueryEscape: "unescape encodeQueryComponent (QueryEscape s) = Some s"
  by (induction s) (simp_all add: QueryEscape_def unescape_escape_byte)

lemma QueryEscape_plain:
  assumes "c \<in> {CHR ''&'', CHR '';'', CHR ''=''}"
  shows "c \<notin> set (QueryEscape s)"
proof -
  have "c \<notin> set (escape_byte d)" for d
    using assms upperhex_digit(2-4) [OF nibbles(1), of d] upperhex_digit(2-4) [OF nibbles(2), of d]
    by (auto simp: escape_byte_def unreserved_def is_letter_def is_digit_def)
  then show ?thesis by (auto simp: QueryEscape_def)
qed

lemma query_pair_escaped: "query_pair (QueryEscape k @ ''='' @ QueryEscape v) = Some (k, v)"
proof -
  have "cut (CHR ''='') (QueryEscape k @ ''='' @ QueryEscape v) = (QueryEscape k, QueryEscape v)"
    using cut_append [OF QueryEscape_plain [of "CHR ''=''" k]] by simp
  then show ?thesis
    using QueryEscape_plain [of "CHR '';''"] by (simp add: query_pair_def unescape_QueryEscape)
qed

lemma SplitByte_ampersands:
  "xs \<noteq> [] \<Longrightarrow> \<forall>x \<in> set xs. CHR ''&'' \<notin> set x \<Longrightarrow> SplitByte (CHR ''&'') (ampersands xs) = xs"
  by (induction xs rule: ampersands.induct) (simp_all add: SplitByte_append_sep SplitByte_absent)

text \<open>
  A query string that \<open>Encode\<close> writes is read back as the same pairs, in the order of the keys; so a key that
  was \<open>Set\<close> has the value that was set.
\<close>

lemma ParseQuery_Encode:
  assumes "length (Values_pairs m) \<le> defaultMaxParams"
  shows "ParseQuery (Values_Encode m) = Values_pairs m"
proof (cases "Values_pairs m = []")
  case True
  then show ?thesis by (simp add: ParseQuery_def Values_Encode_def query_pair_def map_filter_simps defaultMaxParams_def)
next
  case False
  let ?f = "\<lambda>(k, v). QueryEscape k @ ''='' @ QueryEscape v"
  have "CHR ''&'' \<notin> set (?f p)" for p using QueryEscape_plain [of "CHR ''&''"] by (simp split: prod.split)
  with False have "SplitByte (CHR ''&'') (Values_Encode m) = map ?f (Values_pairs m)"
    unfolding Values_Encode_def by (intro SplitByte_ampersands) auto
  moreover have "List.map_filter query_pair (map ?f ps) = ps" for ps
    by (induction ps) (auto simp: map_filter_simps query_pair_escaped [simplified])
  ultimately show ?thesis using assms by (simp add: ParseQuery_def Let_def)
qed

lemma Query_Get_Set:
  assumes "length (Values_pairs (Values_Set k v m)) \<le> defaultMaxParams"
  shows "Query_Get (Values_Encode (Values_Set k v m)) k = v"
proof -
  have "map_of (concat (map (\<lambda>k. map (Pair k) (f k)) ks)) k = Some v" if "k \<in> set ks" "f k = [v]" for ks and f :: "bytes \<Rightarrow> bytes list"
    using that
  proof (induction ks)
    case (Cons a ks)
    have "mget (map (Pair a) vs) k = (if a = k \<and> vs \<noteq> [] then Some (hd vs) else None)" for vs :: "bytes list"
      by (induction vs) auto
    with Cons show ?case by (cases "a = k") (auto simp: map_add_def)
  qed simp
  then have "map_of (Values_pairs (Values_Set k v m)) k = Some v"
    by (simp add: Values_pairs_def Values_list_def Values_Set_def set_mkeys mkeys_mset_key dom_map_of_conv_image_fst)
  then show ?thesis by (simp add: Query_Get_def ParseQuery_Encode [OF assms])
qed

end
