(* ===== verification/LoadTest.thy ===== *)
theory LoadTest
  imports Message Metrics GoFormat Chan
begin

text \<open>
  The load generator (\<open>cmd/loadtest/main.go\<close>): its configuration and shared counters, the commands a
  simulated client sends, the life of a client from dialling to its two loops, the throttle that \<open>main\<close>
  puts around the clients, and the report. The WebSocket library is third-party: whether dialling and writing
  succeed and what \<open>ReadJSON\<close> stores are parts of the events.
\<close>

subsection \<open>Configuration and statistics\<close>

text \<open>The rate is a finite float64, given as its value.\<close>

record LoadConfig =
  ld_ServerURL :: bytes
  ld_NumClients :: int
  ld_Duration :: int
  ld_MsgRate :: real
  ld_Concurrency :: int

text \<open>What the command line gives when no flag is set.\<close>

definition default_flags :: LoadConfig where
  "default_flags =
     \<lparr>ld_ServerURL = ''ws://localhost:8080/ws'', ld_NumClients = 100, ld_Duration = 10 * 10 ^ 9, ld_MsgRate = 1,
      ld_Concurrency = 20\<rparr>"

record Stats =
  st_ConnectionsAttempted :: int64
  st_ConnectionsEstablished :: int64
  st_ConnectionErrors :: int64
  st_MessagesSent :: int64
  st_MessagesAcked :: int64
  st_BroadcastsReceived :: int64
  st_ErrorsReceived :: int64
  st_MinLatency :: int64
  st_MaxLatency :: int64
  st_TotalLatency :: int64
  st_LatencyCount :: int64

definition new_stats :: Stats where
  "new_stats =
     \<lparr>st_ConnectionsAttempted = 0, st_ConnectionsEstablished = 0, st_ConnectionErrors = 0, st_MessagesSent = 0,
      st_MessagesAcked = 0, st_BroadcastsReceived = 0, st_ErrorsReceived = 0, st_MinLatency = 9999999999,
      st_MaxLatency = 0, st_TotalLatency = 0, st_LatencyCount = 0\<rparr>"

text \<open>
  The two loops of \<open>recordLatency\<close>. \<open>better x y\<close> says that \<open>x\<close> would replace \<open>y\<close>; the list holds what
  other goroutines store between this one's load and its compare-and-swap, one entry per round.
\<close>

fun cas_loop :: "(int64 \<Rightarrow> int64 \<Rightarrow> bool) \<Rightarrow> int64 list \<Rightarrow> int64 \<Rightarrow> int64 \<Rightarrow> int64" where
  "cas_loop better [] lat current = (if better lat current then lat else current)"
| "cas_loop better (other # others) lat current =
     (if \<not> better lat current then current
      else if other = current then lat
      else cas_loop better others lat other)"

definition recordLatency :: "int64 list \<Rightarrow> int64 list \<Rightarrow> int64 \<Rightarrow> Stats \<Rightarrow> Stats" where
  "recordLatency minOthers maxOthers lat s =
     s\<lparr>st_LatencyCount := st_LatencyCount s + 1, st_TotalLatency := st_TotalLatency s + lat,
       st_MinLatency := cas_loop (\<lambda>x y. sint x < sint y) minOthers lat (st_MinLatency s),
       st_MaxLatency := cas_loop (\<lambda>x y. sint y < sint x) maxOthers lat (st_MaxLatency s)\<rparr>"

subsection \<open>What a client sends\<close>

definition dial_url :: "nat \<Rightarrow> URL \<Rightarrow> URL" where
  "dial_url n u = u\<lparr>u_RawQuery := Values_Encode (Values_Set ''user_id'' (''loadtest_'' @ decimal n) (URL_Query u))\<rparr>"

definition join_command :: "nat \<Rightarrow> json" where
  "join_command n =
     marshal_map [(''version'', json_string ''1''), (''type'', json_string ''room.join''),
       (''request_id'', json_string (''join_'' @ decimal n)), (''room_id'', json_string ''loadtest_room'')]"

definition request_id :: "nat \<Rightarrow> nat \<Rightarrow> bytes" where
  "request_id n seq = ''msg_'' @ decimal n @ ''_'' @ decimal seq"

definition broadcast_payload :: "nat \<Rightarrow> nat \<Rightarrow> bytes" where
  "broadcast_payload n seq =
     render (marshal_map [(''seq'', JNum (decimal seq)), (''uuid'', json_string (''client_'' @ decimal n))])"

text \<open>\<open>None\<close> would be an error of \<open>json.Marshal\<close>.\<close>

definition broadcast_command :: "nat \<Rightarrow> nat \<Rightarrow> json option" where
  "broadcast_command n seq =
     map_option (\<lambda>payload.
       marshal_map [(''version'', json_string ''1''), (''type'', json_string ''room.broadcast''),
         (''request_id'', json_string (request_id n seq)), (''room_id'', json_string ''loadtest_room''),
         (''payload'', payload)])
       (raw_json (broadcast_payload n seq))"

text \<open>
  The interval of the ticker, \<open>time.Duration(float64(time.Second) / cfg.MsgRate)\<close> for a positive rate.
  The conversion truncates, and gives the least integer when the quotient does not fit; \<open>None\<close> is the
  panic of \<open>NewTicker\<close> on an interval that is not positive.
\<close>

definition ticker_interval :: "real \<Rightarrow> int option" where
  "ticker_interval rate =
     (let q = f64 (10 ^ 9 / rate); d = (if q < 2 ^ 63 then \<lfloor>q\<rfloor> else - (2 ^ 63)) in
      if d \<le> 0 then None else Some d)"

subsection \<open>What a client reads\<close>

text \<open>\<open>ReadJSON\<close> into a \<open>map[string]any\<close>, for a message that holds the value; \<open>None\<close> is a type error.\<close>

definition json_map :: "json \<Rightarrow> (bytes, json) gomap option" where
  "json_map v =
     (case v of
        JObj ms \<Rightarrow> if any_ok v then Some (fold (\<lambda>(k, x). mset_key (unquote k) x) ms []) else None
      | JNull \<Rightarrow> Some []
      | _ \<Rightarrow> None)"

text \<open>\<open>msg[key].(string)\<close>, empty where the value is no string.\<close>

definition string_field :: "bytes \<Rightarrow> (bytes, json) gomap \<Rightarrow> bytes" where
  "string_field key msg = (case mget msg key of Some (JStr r) \<Rightarrow> unquote r | _ \<Rightarrow> [])"

subsection \<open>One client\<close>

datatype phase = Waiting | Connecting | Looping | Returned

text \<open>\<open>lc_reading\<close>: the reader goroutine runs. \<open>lc_written\<close>: what \<open>WriteJSON\<close> was called with.\<close>

record LoadClient =
  lc_phase :: phase
  lc_reading :: bool
  lc_sentTimes :: "(bytes, int) gomap"
  lc_msgSeq :: nat
  lc_written :: "json list"

definition new_client :: LoadClient where
  "new_client = \<lparr>lc_phase = Waiting, lc_reading = False, lc_sentTimes = [], lc_msgSeq = 0, lc_written = []\<rparr>"

record LoadRun =
  lt_stats :: Stats
  lt_clients :: "nat \<Rightarrow> LoadClient"
  lt_throttle :: "unit chan"
  lt_cancelled :: bool
  lt_panicked :: bool

definition upd_load :: "nat \<Rightarrow> (LoadClient \<Rightarrow> LoadClient) \<Rightarrow> LoadRun \<Rightarrow> LoadRun" where
  "upd_load n f s = s\<lparr>lt_clients := (lt_clients s)(n := f (lt_clients s n))\<rparr>"

definition upd_stats :: "(Stats \<Rightarrow> Stats) \<Rightarrow> LoadRun \<Rightarrow> LoadRun" where
  "upd_stats f s = s\<lparr>lt_stats := f (lt_stats s)\<rparr>"

text \<open>\<open>runClient\<close> returns: its goroutine gives its slot back. The reader goes on until a read fails.\<close>

definition client_return :: "nat \<Rightarrow> LoadRun \<Rightarrow> LoadRun" where
  "client_return n s =
     (upd_load n (\<lambda>c. c\<lparr>lc_phase := Returned\<rparr>) s)
       \<lparr>lt_throttle := (case try_recv (lt_throttle s) of None \<Rightarrow> lt_throttle s | Some (_, ch) \<Rightarrow> ch)\<rparr>"

text \<open>
  \<open>runClient\<close> from the parsing of the URL to the start of its loops. The answers: whether dialling
  succeeded, the type of the first message (\<open>None\<close> when reading it failed), and whether writing the join
  command and reading its reply succeeded.
\<close>

definition client_connect ::
    "LoadConfig \<Rightarrow> nat \<Rightarrow> (URL \<Rightarrow> bool) \<Rightarrow> bytes option \<Rightarrow> bool \<Rightarrow> bool \<Rightarrow> LoadRun \<Rightarrow> LoadRun" where
  "client_connect cfg n dial readyType joinWritten ackRead s =
     (case url_Parse (ld_ServerURL cfg) of
        None \<Rightarrow> client_return n (upd_stats (\<lambda>st. st\<lparr>st_ConnectionErrors := st_ConnectionErrors st + 1\<rparr>) s)
      | Some u \<Rightarrow>
          if \<not> dial (dial_url n u) then
            client_return n (upd_stats (\<lambda>st. st\<lparr>st_ConnectionErrors := st_ConnectionErrors st + 1\<rparr>) s)
          else
            (let s1 = upd_stats (\<lambda>st. st\<lparr>st_ConnectionsEstablished := st_ConnectionsEstablished st + 1\<rparr>) s in
             if readyType \<noteq> Some ''connection.ready'' then client_return n s1
             else
               (let s2 = upd_load n (\<lambda>c. c\<lparr>lc_written := lc_written c @ [join_command n]\<rparr>) s1 in
                if \<not> joinWritten \<or> \<not> ackRead then client_return n s2
                else
                  (let s3 = upd_load n (\<lambda>c. c\<lparr>lc_phase := Looping, lc_reading := True\<rparr>) s2 in
                   if ld_MsgRate cfg \<le> 0 \<or> ticker_interval (ld_MsgRate cfg) \<noteq> None then s3
                   else s3\<lparr>lt_panicked := True\<rparr>))))"

text \<open>An iteration of the reader, for a message read at time \<open>now\<close>; \<open>None\<close> is a failed read.\<close>

definition reader_step :: "nat \<Rightarrow> int \<Rightarrow> (bytes, json) gomap option \<Rightarrow> LoadRun \<Rightarrow> LoadRun" where
  "reader_step n now result s =
     (case result of
        None \<Rightarrow> upd_load n (\<lambda>c. c\<lparr>lc_reading := False\<rparr>) s
      | Some msg \<Rightarrow>
          (let typ = string_field ''type'' msg in
           if typ = ''command.ack'' then
             (let reqID = string_field ''request_id'' msg in
              case mget (lc_sentTimes (lt_clients s n)) reqID of
                None \<Rightarrow> s
              | Some tSend \<Rightarrow>
                  upd_stats (\<lambda>st. recordLatency [] [] (word_of_int ((now - tSend) sdiv 1000))
                               (st\<lparr>st_MessagesAcked := st_MessagesAcked st + 1\<rparr>))
                    (upd_load n (\<lambda>c. c\<lparr>lc_sentTimes := mdel reqID (lc_sentTimes c)\<rparr>) s))
           else if typ = ''room.broadcast'' then
             upd_stats (\<lambda>st. st\<lparr>st_BroadcastsReceived := st_BroadcastsReceived st + 1\<rparr>) s
           else if typ = ''error'' then
             upd_stats (\<lambda>st. st\<lparr>st_ErrorsReceived := st_ErrorsReceived st + 1\<rparr>) s
           else s))"

text \<open>A tick of the writer; the request is recorded and counted before it is written.\<close>

definition writer_step :: "nat \<Rightarrow> int \<Rightarrow> bool \<Rightarrow> LoadRun \<Rightarrow> LoadRun" where
  "writer_step n now writeOK s =
     (let seq = lc_msgSeq (lt_clients s n) + 1;
          s1 = upd_stats (\<lambda>st. st\<lparr>st_MessagesSent := st_MessagesSent st + 1\<rparr>)
                 (upd_load n (\<lambda>c. c\<lparr>lc_msgSeq := seq, lc_sentTimes := mset_key (request_id n seq) now (lc_sentTimes c)\<rparr>) s)
      in case broadcast_command n seq of
           None \<Rightarrow> client_return n s1
         | Some command \<Rightarrow>
             (let s2 = upd_load n (\<lambda>c. c\<lparr>lc_written := lc_written c @ [command]\<rparr>) s1 in
              if writeOK then s2 else client_return n s2))"

subsection \<open>main\<close>

text \<open>
  What happens in the process: a client's goroutine gets a slot of the throttle, connects, reads a message,
  ticks, or sees that its context is done; \<open>main\<close> cancels the context after the duration. An event that
  cannot happen in a state leaves it.
\<close>

datatype load_event =
    Acquire nat
  | Connect nat "URL \<Rightarrow> bool" "bytes option" bool bool
  | Incoming nat int "(bytes, json) gomap option"
  | Tick nat int bool
  | Done nat
  | Cancel

definition has_phase :: "nat \<Rightarrow> phase \<Rightarrow> LoadRun \<Rightarrow> bool" where
  "has_phase n p s = (lc_phase (lt_clients s n) = p)"

fun load_step :: "LoadConfig \<Rightarrow> load_event \<Rightarrow> LoadRun \<Rightarrow> LoadRun" where
  "load_step cfg (Acquire n) s =
     (if int n < ld_NumClients cfg \<and> has_phase n Waiting s then
        (case try_send () (lt_throttle s) of
           (True, ch) \<Rightarrow>
             upd_stats (\<lambda>st. st\<lparr>st_ConnectionsAttempted := st_ConnectionsAttempted st + 1\<rparr>)
               (upd_load n (\<lambda>c. c\<lparr>lc_phase := Connecting\<rparr>) (s\<lparr>lt_throttle := ch\<rparr>))
         | (False, _) \<Rightarrow> s)
      else s)"
| "load_step cfg (Connect n dial readyType joinWritten ackRead) s =
     (if has_phase n Connecting s then client_connect cfg n dial readyType joinWritten ackRead s else s)"
| "load_step cfg (Incoming n now result) s =
     (if lc_reading (lt_clients s n) then reader_step n now result s else s)"
| "load_step cfg (Tick n now writeOK) s =
     (if has_phase n Looping s \<and> 0 < ld_MsgRate cfg then writer_step n now writeOK s else s)"
| "load_step cfg (Done n) s =
     (if has_phase n Looping s \<and> (lt_cancelled s \<or> \<not> lc_reading (lt_clients s n)) then client_return n s else s)"
| "load_step cfg Cancel s = s\<lparr>lt_cancelled := True\<rparr>"

text \<open>A process that has panicked does nothing more.\<close>

definition load_next :: "LoadConfig \<Rightarrow> load_event \<Rightarrow> LoadRun \<Rightarrow> LoadRun" where
  "load_next cfg ev s = (if lt_panicked s then s else load_step cfg ev s)"

text \<open>\<open>make\<close> panics on a negative capacity.\<close>

definition load_start :: "LoadConfig \<Rightarrow> LoadRun" where
  "load_start cfg =
     \<lparr>lt_stats = new_stats, lt_clients = (\<lambda>_. new_client), lt_throttle = make_chan (nat (ld_Concurrency cfg)),
      lt_cancelled = False, lt_panicked = (ld_Concurrency cfg < 0)\<rparr>"

text \<open>\<open>wg.Wait\<close> returns.\<close>

definition all_returned :: "LoadConfig \<Rightarrow> LoadRun \<Rightarrow> bool" where
  "all_returned cfg s = list_all (\<lambda>n. has_phase n Returned s) [0..<nat (ld_NumClients cfg)]"

subsection \<open>The report\<close>

definition newline :: bytes where
  "newline = [CHR 0x0A]"

definition config_report :: "LoadConfig \<Rightarrow> bytes" where
  "config_report cfg =
     ''Starting load test with config:'' @ newline @
     ''  Server:      '' @ ld_ServerURL cfg @ newline @
     ''  Clients:     '' @ format_d (ld_NumClients cfg) @ newline @
     ''  Duration:    '' @ Duration_String (ld_Duration cfg) @ newline @
     ''  Msg Rate:    '' @ format_f2 (ld_MsgRate cfg) @ '' msg/sec/client'' @ newline @
     ''  Concurrency: '' @ format_d (ld_Concurrency cfg) @ '' concurrent connections'' @ newline @ newline"

definition float_of :: "int64 \<Rightarrow> real" where
  "float_of x = f64 (of_int (sint x))"

definition average_ms :: "Stats \<Rightarrow> real" where
  "average_ms st = f64 (f64 (float_of (st_TotalLatency st) / float_of (st_LatencyCount st)) / 1000)"

definition latency_ms :: "int64 \<Rightarrow> real" where
  "latency_ms x = f64 (float_of x / 1000)"

definition rule_line :: bytes where
  "rule_line = ''=================================================='' @ newline"

definition printReport :: "Stats \<Rightarrow> bytes" where
  "printReport st =
     newline @ rule_line @ ''                   LOAD TEST REPORT               '' @ newline @ rule_line @
     ''Connections Attempted:      '' @ format_d (sint (st_ConnectionsAttempted st)) @ newline @
     ''Connections Established:    '' @ format_d (sint (st_ConnectionsEstablished st)) @ newline @
     ''Connection Failures:       '' @ format_d (sint (st_ConnectionErrors st)) @ newline @
     ''Messages Sent:             '' @ format_d (sint (st_MessagesSent st)) @ newline @
     ''Messages Acknowledged:     '' @ format_d (sint (st_MessagesAcked st)) @ newline @
     ''Broadcast Events Received: '' @ format_d (sint (st_BroadcastsReceived st)) @ newline @
     ''Errors Received:           '' @ format_d (sint (st_ErrorsReceived st)) @ newline @
     (if 0 < sint (st_LatencyCount st) then
        newline @ ''Latency Statistics:'' @ newline @
        ''  Average Latency:         '' @ format_f2 (average_ms st) @ '' ms'' @ newline @
        ''  Min Latency:             '' @ format_f2 (latency_ms (st_MinLatency st)) @ '' ms'' @ newline @
        ''  Max Latency:             '' @ format_f2 (latency_ms (st_MaxLatency st)) @ '' ms'' @ newline
      else newline @ ''No latency statistics recorded (no messages acknowledged).'' @ newline) @
     rule_line"

text \<open>What \<open>main\<close> prints for the events of its run, when all clients have returned after the cancellation.\<close>

definition load_main :: "LoadConfig \<Rightarrow> load_event list \<Rightarrow> bytes option" where
  "load_main cfg evs =
     (let s = fold (load_next cfg) evs (load_start cfg) in
      if lt_panicked s \<or> \<not> lt_cancelled s \<or> \<not> all_returned cfg s then None
      else Some (config_report cfg @ ''Duration reached. Stopping clients...'' @ newline @ printReport (lt_stats s)))"

subsection \<open>Invariant of a run\<close>

text \<open>A weight of the clients, summed over the ones \<open>main\<close> starts.\<close>

definition sum_clients :: "(LoadClient \<Rightarrow> int) \<Rightarrow> LoadConfig \<Rightarrow> (nat \<Rightarrow> LoadClient) \<Rightarrow> int" where
  "sum_clients f cfg cs = (\<Sum>n<nat (ld_NumClients cfg). f (cs n))"

definition pending :: "LoadClient \<Rightarrow> int" where
  "pending c = int (length (lc_sentTimes c))"

definition in_phases :: "phase set \<Rightarrow> LoadClient \<Rightarrow> int" where
  "in_phases ps c = (if lc_phase c \<in> ps then 1 else 0)"

abbreviation started :: "LoadClient \<Rightarrow> int" where "started \<equiv> in_phases {Connecting, Looping, Returned}"
abbreviation active :: "LoadClient \<Rightarrow> int" where "active \<equiv> in_phases {Connecting, Looping}"

lemma sum_clients_upd:
  "sum_clients f cfg (cs(n := c)) = sum_clients f cfg cs + (if int n < ld_NumClients cfg then f c - f (cs n) else 0)"
proof (cases "int n < ld_NumClients cfg")
  case True
  then have n: "n \<in> {..<nat (ld_NumClients cfg)}" by simp
  have "(\<Sum>k\<in>{..<nat (ld_NumClients cfg)} - {n}. f ((cs(n := c)) k)) = (\<Sum>k\<in>{..<nat (ld_NumClients cfg)} - {n}. f (cs k))"
    by (rule sum.cong) auto
  with True show ?thesis
    unfolding sum_clients_def by (simp add: sum.remove [OF finite_lessThan n])
next
  case False
  then have "(\<Sum>k<nat (ld_NumClients cfg). f ((cs(n := c)) k)) = (\<Sum>k<nat (ld_NumClients cfg). f (cs k))"
    by (intro sum.cong) auto
  with False show ?thesis by (simp add: sum_clients_def)
qed

lemma in_phases_sum: "int n < ld_NumClients cfg \<Longrightarrow> in_phases ps (cs n) \<le> sum_clients (in_phases ps) cfg cs"
  unfolding sum_clients_def by (rule member_le_sum) (auto simp: in_phases_def)

text \<open>The pending requests of client \<open>n\<close> are among the ones it has numbered so far.\<close>

definition client_ok :: "LoadConfig \<Rightarrow> nat \<Rightarrow> LoadClient \<Rightarrow> bool" where
  "client_ok cfg n c =
     (mwf (lc_sentTimes c) \<and>
      (\<forall>k. mget (lc_sentTimes c) k \<noteq> None \<longrightarrow> (\<exists>i. 0 < i \<and> i \<le> lc_msgSeq c \<and> k = request_id n i)) \<and>
      (lc_phase c \<noteq> Waiting \<or> lc_reading c \<longrightarrow> int n < ld_NumClients cfg))"

text \<open>\<open>slack\<close> counts the connections whose outcome is recorded while their client is still connecting.\<close>

definition load_at :: "int64 \<Rightarrow> LoadConfig \<Rightarrow> LoadRun \<Rightarrow> bool" where
  "load_at slack cfg s =
     ((\<forall>n. client_ok cfg n (lt_clients s n)) \<and>
      st_MessagesSent (lt_stats s) = st_MessagesAcked (lt_stats s) + of_int (sum_clients pending cfg (lt_clients s)) \<and>
      st_LatencyCount (lt_stats s) = st_MessagesAcked (lt_stats s) \<and>
      st_ConnectionsAttempted (lt_stats s) = of_int (sum_clients started cfg (lt_clients s)) \<and>
      st_ConnectionsAttempted (lt_stats s) + slack =
        st_ConnectionsEstablished (lt_stats s) + st_ConnectionErrors (lt_stats s) +
        of_int (sum_clients (in_phases {Connecting}) cfg (lt_clients s)) \<and>
      ch_cap (lt_throttle s) = nat (ld_Concurrency cfg) \<and>
      int (length (ch_buf (lt_throttle s))) = sum_clients active cfg (lt_clients s) \<and>
      length (ch_buf (lt_throttle s)) \<le> ch_cap (lt_throttle s))"

abbreviation load_ok :: "LoadConfig \<Rightarrow> LoadRun \<Rightarrow> bool" where "load_ok \<equiv> load_at 0"

lemma decimal_inject: "decimal m = decimal n \<Longrightarrow> m = n"
  by (metis decimal_value)

lemma request_id_inject: "request_id n a = request_id n b \<Longrightarrow> a = b"
  by (simp add: request_id_def decimal_inject)

lemmas load_simps = load_at_def upd_load_def upd_stats_def client_ok_def has_phase_def

lemma load_ok_start: "load_ok cfg (load_start cfg)"
  by (simp add: load_simps load_start_def new_stats_def new_client_def sum_clients_def make_chan_def in_phases_def pending_def)

lemma load_ok_return:
  assumes "load_at slack cfg s" and "has_phase n p s" and "p = Looping \<and> slack = 0 \<or> p = Connecting \<and> slack = 1"
  shows "load_ok cfg (client_return n s)"
proof -
  have n: "int n < ld_NumClients cfg" using assms by (auto simp: load_simps)
  have "ch_buf (lt_throttle s) \<noteq> []"
    using in_phases_sum [OF n, of "{Connecting, Looping}" "lt_clients s"] assms by (auto simp: load_simps in_phases_def)
  then obtain v vs where "ch_buf (lt_throttle s) = v # vs" by (cases "ch_buf (lt_throttle s)") auto
  with assms n show ?thesis
    by (auto simp: load_simps client_return_def try_recv_def sum_clients_upd in_phases_def pending_def algebra_simps)
qed

lemma load_at_upd:
  assumes "load_at slack cfg s" and "\<And>c. lc_phase (g c) = lc_phase c \<and> lc_sentTimes (g c) = lc_sentTimes c \<and>
    lc_msgSeq (g c) = lc_msgSeq c \<and> (lc_reading (g c) \<longrightarrow> lc_reading c)"
  shows "load_at slack cfg (upd_load n g s)"
  using assms by (auto simp: load_simps sum_clients_upd in_phases_def pending_def)

lemma load_ok_loop:
  assumes "load_at 1 cfg s" and "has_phase n Connecting s"
  shows "load_ok cfg (upd_load n (\<lambda>c. c\<lparr>lc_phase := Looping, lc_reading := True\<rparr>) s)"
proof -
  have n: "int n < ld_NumClients cfg" using assms by (auto simp: load_simps)
  with assms show ?thesis by (auto simp: load_simps sum_clients_upd in_phases_def pending_def algebra_simps)
qed

lemma load_ok_connect:
  assumes "load_ok cfg s" and "has_phase n Connecting s"
  shows "load_ok cfg (client_connect cfg n dial readyType joinWritten ackRead s)"
proof -
  define s0 where "s0 = upd_stats (\<lambda>st. st\<lparr>st_ConnectionErrors := st_ConnectionErrors st + 1\<rparr>) s"
  define s1 where "s1 = upd_stats (\<lambda>st. st\<lparr>st_ConnectionsEstablished := st_ConnectionsEstablished st + 1\<rparr>) s"
  define s2 where "s2 = upd_load n (\<lambda>c. c\<lparr>lc_written := lc_written c @ [join_command n]\<rparr>) s1"
  have at: "load_at 1 cfg s0" "load_at 1 cfg s1"
    using assms(1) by (auto simp: s0_def s1_def load_simps algebra_simps)
  moreover have "load_at 1 cfg s2" unfolding s2_def by (rule load_at_upd [OF at(2)]) simp
  moreover have "has_phase n Connecting s0" "has_phase n Connecting s1" "has_phase n Connecting s2"
    using assms(2) by (simp_all add: s0_def s1_def s2_def has_phase_def upd_stats_def upd_load_def)
  moreover have "load_ok cfg (t\<lparr>lt_panicked := b\<rparr>)" if "load_ok cfg t" for t b using that by (auto simp: load_at_def)
  ultimately show ?thesis
    using load_ok_return [where slack = 1 and p = Connecting] load_ok_loop
    unfolding client_connect_def s0_def [symmetric] s1_def [symmetric] Let_def s2_def [symmetric]
    by (auto split: option.split)
qed

lemma load_ok_reader:
  assumes "load_ok cfg s" and "lc_reading (lt_clients s n)"
  shows "load_ok cfg (reader_step n now result s)"
proof -
  have n: "int n < ld_NumClients cfg" using assms by (auto simp: load_simps)
  have m: "mwf (lc_sentTimes (lt_clients s n))" using assms(1) by (simp add: load_simps)
  have ack: "load_ok cfg (upd_stats (\<lambda>st. recordLatency [] [] lat (st\<lparr>st_MessagesAcked := st_MessagesAcked st + 1\<rparr>))
      (upd_load n (\<lambda>c. c\<lparr>lc_sentTimes := mdel k (lc_sentTimes c)\<rparr>) s))"
    if "mget (lc_sentTimes (lt_clients s n)) k = Some t" for lat k t
  proof -
    have "length (lc_sentTimes (lt_clients s n)) = Suc (length (mdel k (lc_sentTimes (lt_clients s n))))"
      using that m length_mdel [OF m, of k] by (cases "lc_sentTimes (lt_clients s n)") (auto simp del: mdel_simps)
    with assms(1) n show ?thesis
      by (auto simp: load_simps recordLatency_def sum_clients_upd in_phases_def pending_def algebra_simps split: if_splits)
  qed
  have "load_ok cfg (upd_stats (\<lambda>st. st\<lparr>st_BroadcastsReceived := st_BroadcastsReceived st + 1\<rparr>) s)"
    "load_ok cfg (upd_stats (\<lambda>st. st\<lparr>st_ErrorsReceived := st_ErrorsReceived st + 1\<rparr>) s)"
    using assms(1) by (auto simp: load_at_def upd_stats_def)
  with ack assms(1) load_at_upd [OF assms(1), of "\<lambda>c. c\<lparr>lc_reading := False\<rparr>"] show ?thesis
    by (auto simp: reader_step_def Let_def split: option.split)
qed

lemma load_ok_writer:
  assumes "load_ok cfg s" and "has_phase n Looping s"
  shows "load_ok cfg (writer_step n now writeOK s)"
proof -
  define seq where "seq = lc_msgSeq (lt_clients s n) + 1"
  define s1 where "s1 = upd_stats (\<lambda>st. st\<lparr>st_MessagesSent := st_MessagesSent st + 1\<rparr>)
      (upd_load n (\<lambda>c. c\<lparr>lc_msgSeq := seq, lc_sentTimes := mset_key (request_id n seq) now (lc_sentTimes c)\<rparr>) s)"
  define s2 where "s2 = (\<lambda>command. upd_load n (\<lambda>c. c\<lparr>lc_written := lc_written c @ [command]\<rparr>) s1)"
  have c: "client_ok cfg n (lt_clients s n)" using assms(1) by (simp add: load_at_def)
  have new: "mget (lc_sentTimes (lt_clients s n)) (request_id n seq) = None"
    using c request_id_inject unfolding client_ok_def seq_def by (metis Suc_eq_plus1 Suc_n_not_le_n)
  have "client_ok cfg n ((lt_clients s n)\<lparr>lc_msgSeq := seq, lc_sentTimes := mset_key (request_id n seq) now (lc_sentTimes (lt_clients s n))\<rparr>)"
    using c by (auto simp: client_ok_def seq_def intro: le_SucI)
  then have at: "load_ok cfg s1"
    using assms new c by (auto simp: s1_def load_simps sum_clients_upd in_phases_def pending_def length_mset_key algebra_simps)
  moreover have "load_ok cfg (s2 command)" for command unfolding s2_def by (rule load_at_upd [OF at]) simp
  moreover have "has_phase n Looping s1" "has_phase n Looping (s2 command)" for command
    using assms(2) by (simp_all add: s1_def s2_def has_phase_def upd_stats_def upd_load_def)
  ultimately show ?thesis
    using load_ok_return [where slack = 0 and p = Looping]
    unfolding writer_step_def Let_def seq_def [symmetric] s1_def [symmetric] s2_def [symmetric]
    by (auto split: option.split simp: s2_def)
qed

lemma load_ok_next: "load_ok cfg s \<Longrightarrow> load_ok cfg (load_next cfg ev s)"
proof (cases ev)
  case (Acquire n)
  assume "load_ok cfg s"
  with Acquire show ?thesis
    by (auto simp: load_next_def load_simps try_send_def sum_clients_upd in_phases_def pending_def algebra_simps)
qed (auto simp: load_next_def load_ok_connect load_ok_reader load_ok_writer load_ok_return [where slack = 0 and p = Looping]
       load_at_def [of _ _ "_\<lparr>lt_cancelled := _\<rparr>"] load_at_def [of 0 cfg s])

lemma load_ok_run: "load_ok cfg (fold (load_next cfg) evs (load_start cfg))"
proof -
  have "load_ok cfg s \<Longrightarrow> load_ok cfg (fold (load_next cfg) evs s)" for s
    by (induction evs arbitrary: s) (simp_all add: load_ok_next)
  then show ?thesis using load_ok_start by blast
qed

subsection \<open>The report\<close>

text \<open>
  Whatever other goroutines store in between, a compare-and-swap loop leaves a value that the sample does
  not improve on, and alone it leaves the better of the two.
\<close>

lemma cas_loop_result:
  fixes f :: "int64 \<Rightarrow> int"
  assumes "\<And>x y. better x y = (f x < f y)"
  shows "f (cas_loop better others lat current) \<le> f lat"
    and "cas_loop better others lat current \<in> {lat, current} \<union> set others"
    and "cas_loop better [] lat current = (if f lat < f current then lat else current)"
  using assms by (induction others arbitrary: current) auto

text \<open>
  After a latency is recorded the minimum is at most and the maximum at least that latency, whatever the
  other clients store while the two compare-and-swap loops run; without interference the loops compute
  exactly the minimum and the maximum.
\<close>

theorem recordLatency_extremes:
  "sint (st_MinLatency (recordLatency minOthers maxOthers lat s)) \<le> sint lat \<and>
   sint lat \<le> sint (st_MaxLatency (recordLatency minOthers maxOthers lat s)) \<and>
   sint (st_MinLatency (recordLatency [] [] lat s)) = min (sint lat) (sint (st_MinLatency s)) \<and>
   sint (st_MaxLatency (recordLatency [] [] lat s)) = max (sint lat) (sint (st_MaxLatency s))"
  using cas_loop_result(1) [of "\<lambda>x y. sint x < sint y" sint minOthers lat "st_MinLatency s"]
    cas_loop_result(1) [of "\<lambda>x y. sint y < sint x" "\<lambda>x. - sint x" maxOthers lat "st_MaxLatency s"]
  by (simp add: recordLatency_def)

text \<open>The average that is printed lies between the minimum and the maximum, as long as the sums fit a float64 exactly.\<close>

theorem average_between:
  assumes "0 < sint (st_LatencyCount st)" and "0 \<le> sint (st_MinLatency st)"
    and "sint (st_MinLatency st) * sint (st_LatencyCount st) \<le> sint (st_TotalLatency st)"
    and "sint (st_TotalLatency st) \<le> sint (st_MaxLatency st) * sint (st_LatencyCount st)"
    and "sint (st_TotalLatency st) \<le> 2 ^ 53" and "sint (st_MaxLatency st) \<le> 2 ^ 53" and "sint (st_LatencyCount st) \<le> 2 ^ 53"
  shows "hundredths (latency_ms (st_MinLatency st)) \<le> hundredths (average_ms st) \<and>
         hundredths (average_ms st) \<le> hundredths (latency_ms (st_MaxLatency st))"
proof -
  let ?n = "sint (st_LatencyCount st)" and ?t = "sint (st_TotalLatency st)"
  let ?lo = "sint (st_MinLatency st)" and ?hi = "sint (st_MaxLatency st)"
  have "?lo * ?n \<le> ?hi * ?n" using assms(3,4) by linarith
  then have lohi: "?lo \<le> ?hi" using assms(1) by simp
  have "0 \<le> ?lo * ?n" using assms(1,2) by simp
  then have t0: "0 \<le> ?t" using assms(3) by linarith
  have exact: "float_of (st_LatencyCount st) = of_int ?n" "float_of (st_TotalLatency st) = of_int ?t"
    "float_of (st_MinLatency st) = of_int ?lo" "float_of (st_MaxLatency st) = of_int ?hi"
    unfolding float_of_def by (rule f64.rnd_int; use assms t0 lohi in linarith)+
  let ?q = "real_of_int ?t / real_of_int ?n"
  have "real_of_int (?lo * ?n) \<le> real_of_int ?t" "real_of_int ?t \<le> real_of_int (?hi * ?n)"
    using assms(3,4) by (simp_all only: of_int_le_iff)
  moreover have n: "0 < real_of_int ?n" using assms(1) by (simp only: of_int_0_less_iff)
  ultimately have q: "of_int ?lo \<le> ?q" "?q \<le> of_int ?hi"
    by (simp_all only: of_int_mult pos_le_divide_eq [OF n] pos_divide_le_eq [OF n])
  have "f64 (of_int ?lo) = of_int ?lo" "f64 (of_int ?hi) = of_int ?hi"
    using exact(3,4) by (simp_all add: float_of_def)
  then have "of_int ?lo \<le> f64 ?q" "f64 ?q \<le> of_int ?hi"
    using f64.rnd_mono [OF q(1)] f64.rnd_mono [OF q(2)] by simp_all
  then have le: "latency_ms (st_MinLatency st) \<le> average_ms st" "average_ms st \<le> latency_ms (st_MaxLatency st)"
    unfolding latency_ms_def average_ms_def exact by (auto intro!: f64.rnd_mono divide_right_mono)
  moreover have "0 \<le> latency_ms (st_MinLatency st)"
    unfolding latency_ms_def exact using assms(2) by (intro f64.rnd_nonneg divide_nonneg_pos) (simp_all only: of_int_0_le_iff zero_less_numeral)
  ultimately show ?thesis using hundredths_mono by (meson order_trans)
qed

subsection \<open>Properties of a run\<close>

text \<open>
  C38: in every run, however the clients, their readers and the cancellation interleave, every
  request is either acknowledged or still pending at its client, exactly one latency is recorded per
  acknowledgement, and every attempted connection is established, failed or under way. When all clients
  have returned, the attempts are as many as the clients asked for and all have an outcome.
\<close>

theorem loadtest_accounting:
  "let s = fold (load_next cfg) evs (load_start cfg); st = lt_stats s in
     st_MessagesSent st = st_MessagesAcked st + of_int (\<Sum>n<nat (ld_NumClients cfg). int (length (lc_sentTimes (lt_clients s n)))) \<and>
     st_LatencyCount st = st_MessagesAcked st \<and>
     (all_returned cfg s \<longrightarrow>
        st_ConnectionsAttempted st = of_nat (nat (ld_NumClients cfg)) \<and>
        st_ConnectionsAttempted st = st_ConnectionsEstablished st + st_ConnectionErrors st)"
proof -
  define s where "s = fold (load_next cfg) evs (load_start cfg)"
  have ok: "load_ok cfg s" unfolding s_def by (rule load_ok_run)
  have "sum_clients pending cfg (lt_clients s) = (\<Sum>n<nat (ld_NumClients cfg). int (length (lc_sentTimes (lt_clients s n))))"
    by (simp add: sum_clients_def pending_def)
  moreover have "sum_clients started cfg (lt_clients s) = int (nat (ld_NumClients cfg))"
    "sum_clients (in_phases {Connecting}) cfg (lt_clients s) = 0" if "all_returned cfg s"
    using that by (auto simp: all_returned_def list_all_iff has_phase_def sum_clients_def in_phases_def)
  ultimately show ?thesis using ok unfolding s_def [symmetric] Let_def load_at_def by (metis add.right_neutral of_int_0 of_int_of_nat_eq)
qed

definition one_client :: LoadConfig where
  "one_client = default_flags\<lparr>ld_NumClients := 1\<rparr>"

theorem loadtest_accounting_witness:
  "let s = fold (load_next one_client) [Acquire 0, Connect 0 (\<lambda>_. False) None False False, Cancel] (load_start one_client) in
     all_returned one_client s \<and> st_ConnectionsEstablished (lt_stats s) + st_ConnectionErrors (lt_stats s) = 1"
proof -
  define evs where "evs = [Acquire 0, Connect 0 (\<lambda>_. False) None False False, Cancel]"
  have "all_returned one_client (fold (load_next one_client) evs (load_start one_client))" unfolding evs_def by code_simp
  moreover have "nat (ld_NumClients one_client) = 1" by code_simp
  ultimately show ?thesis
    using loadtest_accounting [of one_client evs] unfolding evs_def [symmetric] Let_def by auto
qed

text \<open>
  C40: the throttle is held for the whole run of a client, so no more clients ever run at the
  same time than the channel has slots, however many are asked for.
\<close>

theorem throttle_limits_clients:
  "let s = fold (load_next cfg) evs (load_start cfg) in
     card {n. n < nat (ld_NumClients cfg) \<and> (has_phase n Connecting s \<or> has_phase n Looping s)} \<le> nat (ld_Concurrency cfg)"
proof -
  define s where "s = fold (load_next cfg) evs (load_start cfg)"
  let ?A = "{n. n < nat (ld_NumClients cfg) \<and> (has_phase n Connecting s \<or> has_phase n Looping s)}"
  have "load_ok cfg s" unfolding s_def by (rule load_ok_run)
  then have "sum_clients active cfg (lt_clients s) \<le> int (nat (ld_Concurrency cfg))"
    unfolding load_at_def by linarith
  moreover have "sum_clients active cfg (lt_clients s) = int (card ?A)"
    by (simp add: sum_clients_def in_phases_def has_phase_def sum.If_cases Int_def lessThan_def)
  ultimately show ?thesis unfolding s_def [symmetric] Let_def by linarith
qed

text \<open>A client dials as the user of its number.\<close>

lemma dial_user:
  "length (Values_pairs (Values_Set ''user_id'' (''loadtest_'' @ decimal n) (URL_Query u))) \<le> defaultMaxParams \<Longrightarrow>
     Query_Get (u_RawQuery (dial_url n u)) ''user_id'' = ''loadtest_'' @ decimal n"
  by (simp add: dial_url_def Query_Get_Set)

text \<open>The ticker of a positive rate does not panic exactly when the quotient is at least one nanosecond and fits.\<close>

lemma ticker_interval_bounds:
  "0 < rate \<Longrightarrow> (ticker_interval rate \<noteq> None) = (1 \<le> f64 (10 ^ 9 / rate) \<and> f64 (10 ^ 9 / rate) < 2 ^ 63)"
  by (auto simp: ticker_interval_def Let_def)

end
