(* ===== verification/LoadExchange.thy ===== *)
theory LoadExchange
  imports LoadTest
begin

text \<open>
  The load generator against the server: the commands a simulated client writes are the ones the server's
  decoder accepts, and the server's acknowledgements are the ones the client's reader counts. How the
  WebSocket library turns values into messages and back is a parameter that encodes and decodes JSON.
\<close>

subsection \<open>Names\<close>

text \<open>Text without a byte that JSON escapes.\<close>

definition name_char :: "char \<Rightarrow> bool" where
  "name_char c = (is_letter c \<or> is_digit c \<or> c = CHR ''_'' \<or> c = CHR ''.'')"

definition name :: "bytes \<Rightarrow> bool" where
  "name s = list_all name_char s"

lemma name_charD:
  assumes "name_char c"
  shows "45 < code c" and "code c < 128" and "c \<noteq> bslash" and "quote_ascii c = [c]" and "\<not> html_char c"
proof -
  show bounds: "45 < code c" "code c < 128" and "c \<noteq> bslash"
    using assms by (auto simp: name_char_def is_letter_def is_digit_def)
  have "c \<notin> {dquote, bslash, CHR ''<'', CHR ''>'', CHR ''&''}"
    using assms by (auto simp: name_char_def is_letter_def is_digit_def)
  then show "\<not> html_char c" "quote_ascii c = [c]" using bounds by (simp_all add: html_char_def quote_ascii_def)
qed

lemma name_append [simp]: "name (s @ t) = (name s \<and> name t)"
  by (simp add: name_def)

lemma name_decimal [simp]: "name (decimal n)"
  using decimal_digits [of n] by (auto simp: name_def name_char_def list_all_iff)

lemma name_utf8 [simp]: "name s \<Longrightarrow> valid_utf8 s"
  by (rule valid_utf8_ascii) (auto simp: name_def list_all_iff name_charD)

lemma name_lexstr [simp]: "name s \<Longrightarrow> lexstr s"
proof -
  assume "name s"
  moreover have "35 \<le> code c \<and> c \<noteq> bslash" if "name_char c" for c using name_charD [OF that] by simp
  ultimately show ?thesis by (intro lexstr_ascii_name) (simp add: name_def list_all_iff)
qed

lemma quote_body_name [simp]: "name s \<Longrightarrow> quote_body s = s"
proof (induction s)
  case (Cons c s)
  then have "name_char c" "quote_body s = s" by (auto simp: name_def)
  then show ?case using name_charD [of c] by (subst quote_body.simps) (simp add: quote_step_def)
qed (simp add: quote_body.simps)

lemma unquote_name [simp]: "name s \<Longrightarrow> unquote s = s"
  using unquote_quote_body [of s] by simp

lemma html_raw_name [simp]: "name s \<Longrightarrow> html_raw s = s"
proof (induction s)
  case (Cons c s)
  then have "name_char c" "html_raw s = s" by (auto simp: name_def)
  then show ?case using name_charD [of c] by (simp add: html_raw_plain)
qed (simp add: html_raw.simps)

lemma name_no_space:
  assumes "name_char a"
  shows "\<not> ascii_space a" and "\<not> space2 a b" and "\<not> space3 a b c" and "\<not> space2 b a" and "\<not> space3 b c a"
  using name_charD(1,2) [OF assms] by (auto simp: ascii_space_def space2_def space3_def)

lemma lead_space_name: "name s \<Longrightarrow> lead_space s = 0"
  by (cases s) (auto simp: lead_space_def name_def name_no_space split: list.split)

lemma trail_space_name: "name s \<Longrightarrow> trail_space s = 0"
proof -
  assume "name s"
  then have "list_all name_char (rev s)" by (simp add: name_def)
  then show ?thesis
    by (cases "rev s") (auto simp: trail_space_def name_no_space split: list.split)
qed

lemma TrimSpace_name [simp]: "name s \<Longrightarrow> TrimSpace s = s"
  by (simp add: TrimSpace_def trim_left_id trim_right_id lead_space_name trail_space_name)

subsection \<open>Decimal numbers as JSON\<close>

lemma decimal_head: "0 < n \<Longrightarrow> hd (decimal n) \<noteq> CHR ''0''"
proof (induction n rule: decimal.induct)
  case (1 n)
  show ?case
  proof (cases "n < 10")
    case True
    moreover have "digit_val (CHR ''0'') = 0" by (simp add: digit_val_def)
    ultimately show ?thesis using 1(2) digit_byte [of n] by (subst decimal.simps) auto
  next
    case False
    with 1(1) show ?thesis by (subst decimal.simps) (simp add: hd_append)
  qed
qed

lemma numlit_decimal: "numlit (decimal n)"
proof -
  obtain c r where d: "decimal n = c # r" by (cases "decimal n") auto
  with decimal_digits [of n] have digits: "is_digit c" "list_all is_digit r" by simp_all
  moreover have "c \<noteq> CHR ''-''" using digits(1) by (auto simp: is_digit_def)
  moreover have "c = CHR ''0'' \<Longrightarrow> r = []" using decimal_head [of n] d by (cases "n = 0") (auto simp: decimal.simps)
  moreover have tw: "takeWhile is_digit r = r" "dropWhile is_digit r = []"
    using digits(2) by (simp_all add: list_all_iff takeWhile_eq_all_conv)
  ultimately show ?thesis
    by (cases "c = CHR ''0''") (simp_all add: numlit_def d scan_num_def scan_unsigned_def scan_int_def scan_frac_def scan_exp_def tw)
qed

lemma float64_fits_decimal:
  assumes "n < 2 ^ 63"
  shows "float64_fits (decimal n)"
proof -
  have "\<forall>c \<in> set (decimal n). is_digit c" using decimal_digits [of n] by (simp add: list_all_iff)
  then have digits: "\<forall>c \<in> set (decimal n). is_digit c \<and> \<not> is_exp c \<and> c \<noteq> CHR ''.''"
    by (auto simp: is_exp_def is_digit_def)
  have m: "num_mantissa (decimal n) = decimal n"
    unfolding num_mantissa_def takeWhile_eq_all_conv using digits by blast
  moreover have dw: "dropWhile (\<lambda>c. \<not> is_exp c) (decimal n) = []" "dropWhile (\<lambda>c. c \<noteq> CHR ''.'') (decimal n) = []"
    unfolding dropWhile_eq_Nil_conv using digits by blast+
  have "num_exponent (decimal n) = 0" "num_fraction (decimal n) = []"
    unfolding num_exponent_def num_fraction_def m dw by simp_all
  moreover have "filter is_digit (decimal n) = decimal n" using digits by (simp add: filter_id_conv)
  moreover have "digits_val (decimal n) = n" using decimal_value [of n] by (simp add: digits_val_def mult.commute)
  moreover have "int n < 2 ^ 63" using assms by simp
  then have "int n < 2 ^ 1024 - 2 ^ 970" by (rule less_le_trans) simp
  ultimately show ?thesis by (simp add: float64_fits_def)
qed

lemma length_decimal: "n < 10 ^ Suc k \<Longrightarrow> length (decimal n) \<le> Suc k"
proof (induction k arbitrary: n)
  case 0
  then show ?case by (subst decimal.simps) simp
next
  case (Suc k)
  then have "length (decimal (n div 10)) \<le> Suc k" by (intro Suc.IH) auto
  then show ?case by (subst decimal.simps) simp
qed

subsection \<open>The commands\<close>

text \<open>The keys, in the order in which they are marshalled.\<close>

lemma key_names [simp]:
  "name ''version''" "name ''type''" "name ''request_id''" "name ''room_id''" "name ''payload''" "name ''seq''" "name ''uuid''"
  "name ''1''" "name ''room.join''" "name ''room.broadcast''" "name ''loadtest_room''" "name ''join_''" "name ''msg_''"
  "name ''_''" "name ''client_''"
  by code_simp+

lemma key_order:
  "sort_key fst [(''version'', a), (''type'', b), (''request_id'', c), (''room_id'', d)] =
     [(''request_id'', c), (''room_id'', d), (''type'', b), (''version'', a)]"
  "sort_key fst [(''version'', a), (''type'', b), (''request_id'', c), (''room_id'', d), (''payload'', e)] =
     [(''payload'', e), (''request_id'', c), (''room_id'', d), (''type'', b), (''version'', a)]"
  "sort_key fst [(''seq'', a), (''uuid'', b)] = [(''seq'', a), (''uuid'', b)]"
proof -
  have le: "list_all (\<lambda>(x, y). x \<le> y \<and> \<not> y \<le> x)
    [(''payload'', ''request_id''), (''payload'', ''room_id''), (''payload'', ''type''), (''payload'', ''version''),
     (''request_id'', ''room_id''), (''request_id'', ''type''), (''request_id'', ''version''),
     (''room_id'', ''type''), (''room_id'', ''version''), (''type'', ''version''), (''seq'', ''uuid'')]"
    by code_simp
  then show "sort_key fst [(''version'', a), (''type'', b), (''request_id'', c), (''room_id'', d)] =
     [(''request_id'', c), (''room_id'', d), (''type'', b), (''version'', a)]"
    "sort_key fst [(''version'', a), (''type'', b), (''request_id'', c), (''room_id'', d), (''payload'', e)] =
     [(''payload'', e), (''request_id'', c), (''room_id'', d), (''type'', b), (''version'', a)]"
    "sort_key fst [(''seq'', a), (''uuid'', b)] = [(''seq'', a), (''uuid'', b)]"
    by simp_all
qed

lemma name_ids [simp]: "name (request_id n seq)" "name (''join_'' @ decimal n)" "name (''client_'' @ decimal n)"
  by (simp_all only: request_id_def name_append key_names name_decimal)

definition payload_value :: "nat \<Rightarrow> nat \<Rightarrow> json" where
  "payload_value n seq = JObj [(''seq'', JNum (decimal seq)), (''uuid'', JStr (''client_'' @ decimal n))]"

lemma payload_value_ok:
  "json_ok (payload_value n seq)" "depth (payload_value n seq) = 1" "html_json (payload_value n seq) = payload_value n seq"
  "seq < 2 ^ 63 \<Longrightarrow> any_ok (payload_value n seq)"
  by (simp_all add: payload_value_def numlit_decimal float64_fits_decimal del: append_Cons)

lemma broadcast_payload_value: "broadcast_payload n seq = render (payload_value n seq)"
  by (simp add: broadcast_payload_def payload_value_def marshal_map_def key_order json_string_def del: append_Cons)

lemma parse_broadcast_payload: "parse_text (broadcast_payload n seq) = Some (payload_value n seq)"
  unfolding broadcast_payload_value
  by (rule parse_text_render) (simp_all add: payload_value_ok maxNestingDepth_def)

lemma raw_broadcast_payload: "raw_json (broadcast_payload n seq) = Some (payload_value n seq)"
  unfolding raw_json_def parse_broadcast_payload
  by (simp add: broadcast_payload_value payload_value_ok) (simp add: payload_value_def)

lemma join_command_value:
  "join_command n = JObj [(''request_id'', JStr (''join_'' @ decimal n)), (''room_id'', JStr ''loadtest_room''),
     (''type'', JStr ''room.join''), (''version'', JStr ''1'')]"
  by (simp add: join_command_def marshal_map_def key_order json_string_def del: append_Cons)

lemma broadcast_command_value:
  "broadcast_command n seq =
     Some (JObj [(''payload'', payload_value n seq), (''request_id'', JStr (request_id n seq)), (''room_id'', JStr ''loadtest_room''),
       (''type'', JStr ''room.broadcast''), (''version'', JStr ''1'')])"
  by (simp add: broadcast_command_def raw_broadcast_payload marshal_map_def key_order json_string_def)

text \<open>A message of the library: the JSON text of the value, with white space after it.\<close>

definition json_message :: "(json \<Rightarrow> bytes) \<Rightarrow> bool" where
  "json_message writeJSON = (\<forall>v. \<exists>ws. list_all is_ws ws \<and> writeJSON v = render v @ ws)"

lemma trim_right_ws: "list_all is_ws ws \<Longrightarrow> trail_space s = 0 \<Longrightarrow> trim_right (s @ ws) = s"
proof (induction ws rule: rev_induct)
  case (snoc w ws)
  then have "ascii_space w" by (auto simp: is_ws_def ascii_space_def)
  then have "trail_space ((s @ ws) @ [w]) = 1" by (auto simp: trail_space_def split: list.split)
  with snoc show ?case by (subst trim_right.simps) simp
qed (simp add: trim_right_id)

lemma TrimSpace_object_ws:
  assumes "list_all is_ws ws"
  shows "TrimSpace (render (JObj ms) @ ws) = render (JObj ms)"
proof -
  have "trim_left (render (JObj ms) @ ws) = render (JObj ms) @ ws" by (simp add: trim_left_id render_obj del: render.simps)
  moreover have "trail_space (render (JObj ms)) = 0"
    using trail_space_brace [of "CHR ''{'' # commas (map render_member ms)"] by (simp add: render_obj del: render.simps)
  ultimately show ?thesis by (simp add: TrimSpace_def trim_right_ws [OF assms] del: render.simps)
qed

lemma decode_message:
  assumes "json_message writeJSON" and "json_ok (JObj ms)" and "depth (JObj ms) \<le> maxNestingDepth"
    and "store_members store_inbound (map with_text ms) zero_message = Some m" and "Validate m = None"
  shows "DecodeInbound (writeJSON (JObj ms)) = (m, None)"
proof -
  obtain ws where ws: "list_all is_ws ws" "writeJSON (JObj ms) = render (JObj ms) @ ws"
    using assms(1) unfolding json_message_def by blast
  have "decode_first (writeJSON (JObj ms)) = Some (m, ws)"
    using parse_object_render_append [OF assms(2,3), of ws] assms(4) by (simp add: decode_first_def ws(2) del: render.simps)
  moreover have "skip_ws ws = []" using ws(1) by (simp add: skip_ws_def dropWhile_eq_Nil_conv list_all_iff)
  moreover have "TrimSpace (writeJSON (JObj ms)) \<noteq> [] \<and> hd (TrimSpace (writeJSON (JObj ms))) = CHR ''{''"
    unfolding ws(2) TrimSpace_object_ws [OF ws(1)] by (simp add: render_obj del: render.simps)
  ultimately show ?thesis using assms(5) by (auto simp: DecodeInbound_def Let_def)
qed

lemma inbound_keys [simp]:
  "field_of inbound_fields ''version'' = Some ''version''" "field_of inbound_fields ''type'' = Some ''type''"
  "field_of inbound_fields ''request_id'' = Some ''request_id''" "field_of inbound_fields ''room_id'' = Some ''room_id''"
  "field_of inbound_fields ''payload'' = Some ''payload''"
  by (simp_all add: field_of_def inbound_fields_def)

lemma length_id: "n < 2 ^ 63 \<Longrightarrow> length (decimal n) \<le> 19"
proof -
  assume "n < 2 ^ 63"
  also have "(2::nat) ^ 63 < 10 ^ Suc 18" by simp
  finally show ?thesis using length_decimal [of n 18] by simp
qed

lemma join_decodes:
  assumes "json_message writeJSON" and "n < 2 ^ 63"
  shows "DecodeInbound (writeJSON (join_command n)) =
      (zero_message\<lparr>in_Version := ''1'', in_Type := CommandRoomJoin, in_RequestID := ''join_'' @ decimal n,
         in_RoomID := ''loadtest_room''\<rparr>, None)"
  unfolding join_command_value
proof (rule decode_message [OF assms(1)])
  let ?ms = "[(''request_id'', JStr (''join_'' @ decimal n)), (''room_id'', JStr ''loadtest_room''),
     (''type'', JStr ''room.join''), (''version'', JStr ''1'')]"
  let ?m = "zero_message\<lparr>in_Version := ''1'', in_Type := CommandRoomJoin, in_RequestID := ''join_'' @ decimal n,
         in_RoomID := ''loadtest_room''\<rparr>"
  show "json_ok (JObj ?ms)" by (simp del: append_Cons)
  show "depth (JObj ?ms) \<le> maxNestingDepth" by (simp add: maxNestingDepth_def)
  show "store_members store_inbound (map with_text ?ms) zero_message = Some ?m"
    by (simp add: with_text_def store_inbound_def zero_message_def del: append_Cons)
  show "Validate ?m = None"
    using length_id [OF assms(2)]
    by (simp add: Validate_iff well_formed_command_def is_command_def zero_message_def del: append_Cons)
qed

lemma broadcast_decodes:
  assumes "json_message writeJSON" and "n < 2 ^ 63" and "seq < 2 ^ 63" and "broadcast_command n seq = Some command"
  shows "DecodeInbound (writeJSON command) =
        (zero_message\<lparr>in_Version := ''1'', in_Type := CommandRoomBroadcast, in_RequestID := request_id n seq,
           in_RoomID := ''loadtest_room'', in_Payload := broadcast_payload n seq\<rparr>, None)"
proof -
  let ?ms = "[(''payload'', payload_value n seq), (''request_id'', JStr (request_id n seq)), (''room_id'', JStr ''loadtest_room''),
       (''type'', JStr ''room.broadcast''), (''version'', JStr ''1'')]"
  let ?m = "zero_message\<lparr>in_Version := ''1'', in_Type := CommandRoomBroadcast, in_RequestID := request_id n seq,
           in_RoomID := ''loadtest_room'', in_Payload := broadcast_payload n seq\<rparr>"
  have "DecodeInbound (writeJSON (JObj ?ms)) = (?m, None)"
  proof (rule decode_message [OF assms(1)])
    show "json_ok (JObj ?ms)" by (simp add: payload_value_ok)
    show "depth (JObj ?ms) \<le> maxNestingDepth" by (simp add: payload_value_ok maxNestingDepth_def)
    show "store_members store_inbound (map with_text ?ms) zero_message = Some ?m"
      by (simp add: with_text_def store_inbound_def zero_message_def broadcast_payload_value)
    have "validPayload (broadcast_payload n seq)"
      using payload_value_ok(4) [OF assms(3), of n] parse_broadcast_payload [of n seq]
      by (simp add: validPayload_def payload_value_def) (simp add: broadcast_payload_value payload_value_def)
    moreover have "request_id n seq \<noteq> []" "length (request_id n seq) \<le> 128"
      using length_id [OF assms(2)] length_id [OF assms(3)] by (simp_all add: request_id_def)
    ultimately show "Validate ?m = None"
      by (simp add: Validate_iff well_formed_command_def is_command_def zero_message_def)
  qed
  then show ?thesis using assms(4) by (simp add: broadcast_command_value)
qed

text \<open>An acknowledgement as the client's reader sees it.\<close>

lemma ack_fields:
  assumes "newOutboundMessage rnd now EventCommandAck requestID (PAck a) = Some ack" and "MarshalOutbound ack = Some text"
    and "name requestID" and "requestID \<noteq> []"
  shows "\<exists>msg. Option.bind (parse_text text) json_map = Some msg \<and>
    string_field ''type'' msg = ''command.ack'' \<and> string_field ''request_id'' msg = requestID"
proof -
  from assms(1) have out: "out_Type ack = EventCommandAck" "out_RequestID ack = requestID" "out_Payload ack = PAck a"
    by (auto simp: newOutboundMessage_def split: option.splits)
  from assms(2) obtain v where v: "outbound_json ack = Some v" "text = render v" by (auto simp: MarshalOutbound_def)
  obtain t where t: "time_json (out_SentAt ack) = Some t"
    using v(1) by (auto simp: outbound_json_def split: option.splits)
  let ?ms = "[str_member ''version'' (out_Version ack), str_member ''type'' EventCommandAck, str_member ''request_id'' requestID,
    str_member ''event_id'' (out_EventID ack),
    (''payload'', JObj [str_member ''status'' (ack_Status a), str_member ''command_type'' (ack_CommandType a)]), (''sent_at'', t)]"
  have ms: "v = JObj ?ms" using v(1) t out assms(4) by (simp add: outbound_json_def)
  have "payload_nesting (payload_raw (out_Payload ack)) + 2 \<le> maxNestingDepth"
    by (simp add: out payload_nesting_def raw_json_def maxNestingDepth_def)
  then have "parse_text text = Some v"
    unfolding v(2) using outbound_json_ok [OF v(1)] by (intro parse_text_render)
  moreover have "any_ok v" using t by (auto simp: ms str_member_def json_string_def time_json_def split: if_splits)
  moreover have "name ''command.ack''" "name ''event_id''" "name ''sent_at''" by code_simp+
  ultimately show ?thesis
    using assms(3) by (simp add: ms json_map_def str_member_def string_field_def json_string_def del: any_ok.simps)
qed

text \<open>
  C39: for a WebSocket library that writes and reads JSON, the join and broadcast commands of a simulated
  client pass the server's decoder as the messages they are meant to be, and when the server acknowledges
  the broadcast, the client's reader counts it: the request is no longer pending and one more latency is
  recorded.
\<close>

theorem loadtest_exchange:
  assumes "json_message writeJSON" and "\<forall>s v. parse_text s = Some v \<longrightarrow> readJSON s = Some v"
    and "n < 2 ^ 63" and "seq < 2 ^ 63"
    and "newOutboundMessage rnd now EventCommandAck (request_id n seq) (PAck a) = Some ack" and "MarshalOutbound ack = Some text"
    and "lc_reading (lt_clients s n)" and "mget (lc_sentTimes (lt_clients s n)) (request_id n seq) = Some sent"
  shows "DecodeInbound (writeJSON (join_command n)) =
      (zero_message\<lparr>in_Version := ''1'', in_Type := CommandRoomJoin, in_RequestID := ''join_'' @ decimal n,
         in_RoomID := ''loadtest_room''\<rparr>, None) \<and>
    (\<exists>command. broadcast_command n seq = Some command \<and>
      DecodeInbound (writeJSON command) =
        (zero_message\<lparr>in_Version := ''1'', in_Type := CommandRoomBroadcast, in_RequestID := request_id n seq,
           in_RoomID := ''loadtest_room'', in_Payload := broadcast_payload n seq\<rparr>, None)) \<and>
    (let s' = load_step cfg (Incoming n t (Option.bind (readJSON text) json_map)) s in
      st_MessagesAcked (lt_stats s') = st_MessagesAcked (lt_stats s) + 1 \<and>
      st_LatencyCount (lt_stats s') = st_LatencyCount (lt_stats s) + 1 \<and>
      mget (lc_sentTimes (lt_clients s' n)) (request_id n seq) = None)"
proof -
  obtain command where command: "broadcast_command n seq = Some command" by (simp add: broadcast_command_value)
  have "request_id n seq \<noteq> []" by (simp add: request_id_def)
  from ack_fields [OF assms(5,6) _ this] obtain msg where msg:
    "Option.bind (parse_text text) json_map = Some msg" "string_field ''type'' msg = ''command.ack''"
    "string_field ''request_id'' msg = request_id n seq"
    by auto
  then have "Option.bind (readJSON text) json_map = Some msg"
    using assms(2) by (auto simp: bind_eq_Some_conv)
  then have "let s' = load_step cfg (Incoming n t (Option.bind (readJSON text) json_map)) s in
      st_MessagesAcked (lt_stats s') = st_MessagesAcked (lt_stats s) + 1 \<and>
      st_LatencyCount (lt_stats s') = st_LatencyCount (lt_stats s) + 1 \<and>
      mget (lc_sentTimes (lt_clients s' n)) (request_id n seq) = None"
    using msg(2,3) assms(7,8) by (simp add: reader_step_def upd_stats_def upd_load_def recordLatency_def Let_def)
  with join_decodes [OF assms(1,3)] broadcast_decodes [OF assms(1,3,4) command] command show ?thesis by blast
qed

definition sample_ack :: OutboundMessage where
  "sample_ack = \<lparr>out_Version = ''1'', out_Type = EventCommandAck, out_RequestID = ''msg_7_1'', out_EventID = ''evt_3031'',
     out_Payload = PAck \<lparr>ack_Status = ''accepted'', ack_CommandType = CommandRoomBroadcast\<rparr>,
     out_SentAt = \<lparr>w_year = 2026, w_month = 1, w_day = 2, w_hour = 3, w_minute = 4, w_second = 5, w_nsec = 0\<rparr>\<rparr>"

definition sample_run :: LoadRun where
  "sample_run = \<lparr>lt_stats = new_stats\<lparr>st_MessagesSent := 1\<rparr>,
     lt_clients = (\<lambda>_. new_client)(7 := \<lparr>lc_phase = Looping, lc_reading = True, lc_sentTimes = [(''msg_7_1'', 1000)],
       lc_msgSeq = 1, lc_written = []\<rparr>), lt_throttle = \<lparr>ch_buf = [()], ch_cap = 1\<rparr>, lt_cancelled = False, lt_panicked = False\<rparr>"

theorem loadtest_exchange_witness:
  "\<exists>text. MarshalOutbound sample_ack = Some text \<and>
     st_MessagesAcked (lt_stats (load_step default_flags (Incoming 7 5000 (Option.bind (parse_text text) json_map)) sample_run)) = 1"
proof -
  have w: "json_message (\<lambda>v. render v @ [CHR 0x0A])"
    unfolding json_message_def by (intro allI exI [of _ "[CHR 0x0A]"]) (simp add: is_ws_def)
  have ack: "newOutboundMessage (Some ''01'') (out_SentAt sample_ack) EventCommandAck (request_id 7 1)
      (PAck \<lparr>ack_Status = ''accepted'', ack_CommandType = CommandRoomBroadcast\<rparr>) = Some sample_ack"
    by code_simp
  obtain reply where reply: "MarshalOutbound sample_ack = Some reply"
  proof -
    have "MarshalOutbound sample_ack \<noteq> None" by code_simp
    then show ?thesis using that by blast
  qed
  have "lc_reading (lt_clients sample_run 7)" "mget (lc_sentTimes (lt_clients sample_run 7)) (request_id 7 1) = Some 1000"
    by code_simp+
  from loadtest_exchange [of _ parse_text, OF w _ _ _ ack reply this, of default_flags 5000] reply
  show ?thesis by (auto simp: Let_def sample_run_def new_stats_def)
qed

end
