(* ===== verification/Spec2Isabelle.thy ===== *)
theory Spec2Isabelle
  imports Fanout Entry Takeover Interference Registration Requests QueueDepth LoadExchange
begin

text \<open>
  A verification of the realtime messaging service under \<open>src/go-server\<close>.

  \<^bold>\<open>The program.\<close> A Go process accepts WebSocket connections, lets each user hold one session, and routes
  version-one JSON commands: joining and leaving rooms, broadcasting to a room, sending to a user. A
  request passes the HTTP boundary (readiness, origin, authentication, an admission semaphore), becomes a
  session with a bounded outbound queue and two loops, and is registered with the hub, which owns the rooms
  and hands events to sessions and, over a broker, to the hubs of other nodes. A configuration read from
  the environment fixes the limits; \<open>Serve\<close> runs the process and shuts it down.

  \<^bold>\<open>Library code.\<close> \<open>Prelude\<close> has the vocabulary: strings are byte lists, maps are association lists with
  distinct keys whose iteration order is an argument, and the locales \<open>codec\<close> and \<open>transition_inv\<close>. The
  parts of Go 1.26.2's library that the sources use are modelled on bytes: \<open>GoText\<close> (strings, strconv,
  hex), \<open>GoUtf8\<close>, \<open>GoJson\<close>, \<open>GoJsonValue\<close> and \<open>GoJsonCodec\<close> (encoding/json: scanning, values, struct
  decoding, compaction), \<open>GoUrl\<close> (url.Parse, query values, SplitHostPort), \<open>GoDuration\<close>
  (time.ParseDuration), \<open>Float64\<close> (binary64 rounding to nearest even), \<open>GoFormat\<close> (formatting, url.Values,
  marshalled maps) and \<open>Chan\<close> (buffered channels). \<open>Threads\<close> is the theory of goroutines: programs of atomic
  actions, what a single action guarantees, and pools that interleave any number of programs; \<open>Traces\<close> has
  the trace of one program under any interference.

  \<^bold>\<open>Components.\<close>
  \<^item> \<open>Message\<close>: \<open>internal/realtime/message.go\<close>. Decoding of a frame, validation, the outbound envelope. What
    passes validation and why, classification of every frame, round trips of commands and events.
  \<^item> \<open>RateLimiter\<close>: \<open>rate_limit.go\<close>, with every float operation rounded. Bounds of the bucket, bursts, refill.
  \<^item> \<open>Metrics\<close>: \<open>internal/observability/metrics.go\<close>. Counters are 64-bit words. Elsewhere \<open>UpdateMaxQueueDepth\<close>
    is one atomic maximum; \<open>QueueDepth\<close> has the compare-and-swap loops of any number of goroutines, action by
    action, and shows that they amount to that and end.
  \<^item> \<open>BrokerEvents\<close>, \<open>Brokers\<close>: \<open>internal/broker\<close>. The envelope, the in-memory bus, and the bookkeeping around
    the NATS client, whose answers are arguments. Delivery, subject matching, closing.
  \<^item> \<open>Hub\<close>, \<open>Membership\<close>: the registry of \<open>hub.go\<close> and its history. Agreement of the room indexes, the room
    limit, the refinement of an abstract registry, and why a connection is a member of a room.
  \<^item> \<open>Routing\<close>, \<open>Session\<close>: the operations of \<open>hub.go\<close> and \<open>client.go\<close> over one record, \<open>world\<close>, that holds all
    sessions, hubs, brokers, counters and log entries of a process. An iteration of a session's read loop
    and one of its write loop are functions; \<open>Run\<close> takes a schedule of both.
  \<^item> \<open>Programs\<close>, \<open>Actions\<close>: the same operations as programs, one action for each critical section, channel
    operation, socket call, counter and log entry, and what each action guarantees, for any guarantee that
    satisfies the laws of a locale. Run alone, a program computes the function of its operation.
  \<^item> \<open>Steps\<close>, \<open>Invariants\<close>, \<open>Interleaving\<close>: the steps those actions take when a session close, whose pieces
    are separate actions, counts as one step; the invariants of every execution of such steps; and the same
    with the pieces of each close interleaved with everything else.
  \<^item> \<open>Delivery\<close>, \<open>Fanout\<close>, \<open>Loops\<close>, \<open>Lifecycle\<close>: who receives what, backpressure, order of the output, replies,
    delivery across nodes, replacement of sessions, the end of a session.
  \<^item> \<open>Config\<close>: \<open>internal/config/config.go\<close>. Loading equals a declarative reading of the environment; what
    loads is safe to run with.
  \<^item> \<open>HttpApi\<close>, \<open>Admission\<close>: \<open>internal/httpapi\<close>. Which requests become sessions, the accounting of attempts,
    the origin check, for one request at a time.
  \<^item> \<open>Server\<close>, \<open>Process\<close>: \<open>internal/app\<close>. Construction, the session handler, \<open>Serve\<close> and its shutdown goroutine.
  \<^item> \<open>Concurrency\<close>, \<open>Takeover\<close>: any number of session handlers, write loops, broker callbacks and shutdowns of
    a process, interleaved action by action, the pieces of a close among them. The invariants hold between
    any two actions, every close under way belongs to one goroutine, only well-formed frames reach a socket,
    and racing registrations of a user leave at most one session open.
  \<^item> \<open>Registration\<close>: which sessions a hub has registered while the pieces of closes are interleaved with everything else.
  \<^item> \<open>Requests\<close>: \<open>ServeHTTP\<close> as a program, down to the slot of the semaphore, the upgrade and the session handler,
    interleaved with other requests, readiness switches and the rest of the process: the bound on sessions.
  \<^item> \<open>Interference\<close>: what a broadcast delivers and what a write loop writes whatever other goroutines do
    between their actions.
  \<^item> \<open>Entry\<close>: \<open>cmd/server/main.go\<close>.
  \<^item> \<open>LoadTest\<close>, \<open>LoadExchange\<close>: \<open>cmd/loadtest/main.go\<close>. The clients with their readers and writers, the
    throttle, the counters and the report; the exchange of commands and acknowledgements with the server.

  \<^bold>\<open>Effects.\<close> What the code draws from outside (random bytes, the clock, map orders, answers of NATS and of
  the socket) comes from an environment record indexed by the number of draws. The two functions of the
  WebSocket library that the handshake calls are a record of parameters. What the rest of the process does
  while \<open>Serve\<close> waits is a function of the world, restricted to sequences of steps where a theorem needs it.

  \<^bold>\<open>Bounds.\<close> No definition uses fuel: the scanners recurse on their input, with measures where the recursion is
  not structural, and the two loops of a session run along a given schedule, which \<open>Run_ends\<close> and
  \<open>Handle_cleans_up\<close> show to end once a read fails. The compare-and-swap loops of the load generator take the list
  of the values that others store meanwhile and end after it; those of \<open>QueueDepth\<close> run under a schedule.
  The nesting depth 10000 of JSON and the limit of 10000 query parameters are Go's own.

  \<^bold>\<open>Assumptions.\<close> Floats follow amd64, without fused multiply-add. The clock's monotonic reading is an
  integer number of nanoseconds. A channel of negative capacity panics in Go: for the admission semaphore
  this is a result of \<open>NewServer\<close>, for outbound queues it is excluded because \<open>run_builds_and_serves\<close> shows every
  loaded configuration to have a positive capacity. A queue capacity is assumed to fit the address space; the
  configuration has no upper bound, and \<open>make\<close> would panic for one beyond it. Programs take the frames a connection delivers and the
  choices of its write loop as lists, so a goroutine of a pool ends when its list does; the theorems hold
  for every list. A second caller of \<open>Close\<close> is not made to wait for the first, and \<open>Register\<close> logs inside its critical
  section and not right after it: the first allows more interleavings than the code, the second only moves a log entry. The event
  sequences of \<open>http_step\<close>, used where a verifier is missing, take a whole request up to its session handler as one event. In a run of the load generator the handling of one message is one step; its
  compare-and-swap loops under interference are treated in \<open>recordLatency_extremes\<close>.

  \<^bold>\<open>Not modelled.\<close> The WebSocket and NATS libraries and the socket's pong handler, which are third-party
  or run inside that library; redirects of the HTTP multiplexer for paths that are not in clean form; the
  texts of library errors and the formatting of durations in log entries, which no behaviour depends on;
  HTTP timeouts, which the standard library enforces; the parsing of the load generator's flags, whose
  values are an argument, among them a finite rate; and \<open>Load\<close>, which only passes \<open>os.LookupEnv\<close> on.
\<close>

end
